(* ===== verification/XPrelude.thy ===== *)
theory XPrelude
  imports Main "HOL-Library.Char_ord" "HOL-Library.Word"
begin

text \<open>
  Shared vocabulary of the development: the lemma collections the component theories
  extend, the names of the machine types, the machine widths, and generic facts on lists
  of disjoint intervals, list updates and runs of a byte-driven machine that more than one
  component needs.
\<close>

section \<open>Collections\<close>

named_theorems frame_simps \<open>what an operation leaves unchanged\<close>
named_theorems sizeof_defs \<open>sizes of the C structs on the modelled ABI\<close>
named_theorems char_defs \<open>character classes unfolded to intervals of characters\<close>

section \<open>Machine types\<close>

text \<open>
  Addresses and values of type \<open>size_t\<close> are natural numbers; wherever the C expression can
  wrap, the reduction modulo \<open>2 ^ 64\<close> is written out.  A byte (\<open>u_char\<close>) is a \<open>char\<close>.
\<close>

type_synonym addr = nat
type_synonym byte = char
type_synonym u32 = "32 word"

abbreviation (input) NULL :: addr where
  "NULL \<equiv> 0"

abbreviation (input) size_mod :: nat where
  "size_mod \<equiv> 18446744073709551616"

text \<open>Conversion of a (signed) pointer difference or of an \<open>int\<close> to \<open>size_t\<close>.\<close>

definition to_size_t :: "int \<Rightarrow> nat" where
  "to_size_t i = nat (i mod int size_mod)"

lemma to_size_t_nonneg: "0 \<le> i \<Longrightarrow> i < int size_mod \<Longrightarrow> to_size_t i = nat i"
  by (simp add: to_size_t_def)

lemma to_size_t_neg: "i < 0 \<Longrightarrow> - int size_mod \<le> i \<Longrightarrow> to_size_t i = nat (i + int size_mod)"
proof -
  assume a: "i < 0" "- int size_mod \<le> i"
  then have "i mod int size_mod = (i + int size_mod) mod int size_mod" by simp
  also have "\<dots> = i + int size_mod" using a by (intro mod_pos_pos_trivial) auto
  finally show ?thesis by (simp add: to_size_t_def)
qed

section \<open>Blocks of memory\<close>

text \<open>
  A block is a base address and a size.  A block of size 0 still occupies its base, so that
  two live blocks never share a base.
\<close>

type_synonym block = "addr \<times> nat"

definition blk_end :: "block \<Rightarrow> addr" where
  "blk_end b = fst b + max 1 (snd b)"

definition extent :: "block \<Rightarrow> addr set" where
  "extent b = {fst b ..< blk_end b}"

definition apart :: "block \<Rightarrow> block \<Rightarrow> bool" where
  "apart b c \<longleftrightarrow> blk_end b \<le> fst c \<or> blk_end c \<le> fst b"

lemma apart_sym: "apart b c \<Longrightarrow> apart c b"
  by (auto simp: apart_def)

lemma apart_disjoint: "apart b c \<longleftrightarrow> extent b \<inter> extent c = {}"
proof
  assume "apart b c" then show "extent b \<inter> extent c = {}"
    by (auto simp: apart_def extent_def)
next
  assume d: "extent b \<inter> extent c = {}"
  show "apart b c"
  proof (rule ccontr)
    assume "\<not> apart b c"
    then have "max (fst b) (fst c) \<in> extent b \<inter> extent c"
      by (auto simp: apart_def extent_def blk_end_def)
    with d show False by simp
  qed
qed

lemma base_in_extent [simp, intro]: "fst b \<in> extent b"
  by (simp add: extent_def blk_end_def)

lemma not_apart_self [simp]: "\<not> apart b b"
  by (auto simp: apart_def blk_end_def)

lemma extent_memI: "a \<le> x \<Longrightarrow> x < a + n \<Longrightarrow> x \<in> extent (a, n)"
  by (auto simp: extent_def blk_end_def)

lemma sorted_wrt_apartD:
  "sorted_wrt apart bs \<Longrightarrow> b \<in> set bs \<Longrightarrow> c \<in> set bs \<Longrightarrow> b \<noteq> c \<Longrightarrow> apart b c"
  by (induction bs) (auto intro: apart_sym)

lemma sorted_wrt_apart_distinct: "sorted_wrt apart bs \<Longrightarrow> distinct (map fst bs)"
proof (induction bs)
  case (Cons b bs)
  then have "\<forall>c \<in> set bs. fst b \<noteq> fst c"
    by (auto simp: apart_def blk_end_def)
  with Cons show ?case by auto
qed simp

lemma sum_sizes_le_card:
  "sorted_wrt apart bs \<Longrightarrow> sum_list (map snd bs) \<le> card (\<Union> (extent ` set bs))"
proof (induction bs)
  case (Cons b bs)
  have fin: "finite (extent b)" "finite (\<Union> (extent ` set bs))" by (auto simp: extent_def)
  have dis: "extent b \<inter> \<Union> (extent ` set bs) = {}"
    using Cons.prems by (auto simp: apart_disjoint)
  have "snd b \<le> card (extent b)" by (simp add: extent_def blk_end_def)
  moreover have "sum_list (map snd bs) \<le> card (\<Union> (extent ` set bs))"
    using Cons by simp
  ultimately show ?case using card_Un_disjoint [OF fin dis] by simp
qed simp

lemma sum_sizes_bounded:
  assumes "sorted_wrt apart bs" and "\<forall>b \<in> set bs. blk_end b \<le> lim"
  shows "sum_list (map snd bs) \<le> lim"
proof -
  have "\<Union> (extent ` set bs) \<subseteq> {0..<lim}"
    using assms(2) by (fastforce simp: extent_def)
  then have "card (\<Union> (extent ` set bs)) \<le> lim"
    using card_mono [of "{0..<lim}"] by fastforce
  with sum_sizes_le_card [OF assms(1)] show ?thesis by simp
qed

section \<open>Lists\<close>

lemma take_drop_update:
  "i < length xs \<Longrightarrow> take i xs @ (drop i xs)[j := y] = xs[i + j := y]"
  by (metis append_take_drop_id length_take less_or_eq_imp_le list_update_append
      min.absorb2 not_add_less1 add_diff_cancel_left')

lemma set_update_iff:
  assumes "i < length xs" "a \<noteq> xs ! i"
  shows "a \<in> set (xs[i := d]) \<longleftrightarrow> a = d \<or> a \<in> set xs"
proof -
  have "set xs = set (take i xs) \<union> {xs ! i} \<union> set (drop (Suc i) xs)"
    using arg_cong [OF id_take_nth_drop [OF assms(1)], of set] by auto
  then show ?thesis using assms by (simp add: upd_conv_take_nth_drop)
qed

lemma hd_take_append: "0 < i \<Longrightarrow> xs \<noteq> [] \<Longrightarrow> hd (take i xs @ ys) = hd xs"
  by (cases xs; cases i) auto

section \<open>Sequencing\<close>

text \<open>Go on with the result of a computation that may end abnormally.\<close>

fun sbind :: "'e + 'a \<Rightarrow> ('a \<Rightarrow> 'e + 'b) \<Rightarrow> 'e + 'b" where
  "sbind (Inl e) f = Inl e"
| "sbind (Inr x) f = f x"

lemma sbind_Inr_iff: "sbind m f = Inr y \<longleftrightarrow> (\<exists>x. m = Inr x \<and> f x = Inr y)"
  by (cases m) auto

lemma sbind_cong [fundef_cong]: "m = m' \<Longrightarrow> (\<And>x. m' = Inr x \<Longrightarrow> f x = g x) \<Longrightarrow> sbind m f = sbind m' g"
  by (cases m') auto

lemma sbindE:
  assumes "sbind m f = Inr y"
  obtains x where "m = Inr x" "f x = Inr y"
  using assms by (auto simp: sbind_Inr_iff)

end
