(* ===== verification/XTypes.thy ===== *)
theory XTypes
  imports XPrelude
begin

text \<open>
  The types of the program's common headers (\<open>system.h\<close>, \<open>xstring.h\<close>, \<open>xfile.h\<close>,
  \<open>logger.h\<close>): return codes, the counted string, the file handle, the log levels with
  their order, the logger and the entry that one log call produces.
\<close>

unbundle bit_operations_syntax

section \<open>Return codes\<close>

abbreviation (input) XPE_OK :: int where "XPE_OK \<equiv> 0"
abbreviation (input) XPE_ERROR :: int where "XPE_ERROR \<equiv> -1"

definition LF :: byte where "LF = CHR 0x0A"
definition CR :: byte where "CR = CHR 0x0D"
definition NUL :: byte where "NUL = CHR 0x00"

declare LF_def [char_defs] CR_def [char_defs] NUL_def [char_defs]

section \<open>Strings and files\<close>

text \<open>
  A \<open>string_t\<close> points to bytes that are never changed after the string is built, so the
  model keeps the bytes themselves; the terminating NUL after them is implicit.
\<close>

record string_t =
  str_len :: nat
  str_data :: "byte list"

definition xstring :: "byte list \<Rightarrow> string_t" where
  "xstring s = \<lparr>str_len = length s, str_data = s\<rparr>"

definition string_null :: string_t where
  "string_null = \<lparr>str_len = 0, str_data = []\<rparr>"

lemma xstring_sel [simp]: "str_len (xstring s) = length s" "str_data (xstring s) = s"
  by (simp_all add: xstring_def)

record file_t =
  fl_fd :: int
  fl_offset :: int
  fl_name :: string_t

text \<open>The flags of \<open>open\<close> with their values on Linux.\<close>

definition O_RDONLY :: u32 where "O_RDONLY = 0"
definition O_WRONLY :: u32 where "O_WRONLY = 1"
definition O_RDWR :: u32 where "O_RDWR = 2"
definition O_CREAT :: u32 where "O_CREAT = 64"
definition O_TRUNC :: u32 where "O_TRUNC = 512"
definition O_APPEND :: u32 where "O_APPEND = 1024"
definition O_NONBLOCK :: u32 where "O_NONBLOCK = 2048"

named_theorems open_flags \<open>the flags of open\<close>

declare O_RDONLY_def [open_flags] O_WRONLY_def [open_flags] O_RDWR_def [open_flags] O_CREAT_def [open_flags]
  O_TRUNC_def [open_flags] O_APPEND_def [open_flags] O_NONBLOCK_def [open_flags]

definition FL_RDWR :: u32 where "FL_RDWR = O_RDWR"
definition FL_RDONLY :: u32 where "FL_RDONLY = O_RDONLY"
definition FL_WRONLY :: u32 where "FL_WRONLY = O_WRONLY"
definition FL_CREATE :: u32 where "FL_CREATE = O_CREAT"
definition FL_APPEND :: u32 where "FL_APPEND = O_WRONLY OR O_APPEND"
definition FL_TRUNC :: u32 where "FL_TRUNC = O_CREAT OR O_TRUNC"
definition FL_NOBLOCK :: u32 where "FL_NOBLOCK = O_NONBLOCK"

declare FL_RDWR_def [open_flags] FL_RDONLY_def [open_flags] FL_WRONLY_def [open_flags] FL_CREATE_def [open_flags]
  FL_APPEND_def [open_flags] FL_TRUNC_def [open_flags] FL_NOBLOCK_def [open_flags]

abbreviation (input) FL_INVALID_FD :: int where "FL_INVALID_FD \<equiv> -1"
abbreviation (input) FL_DEFAULT_OFFSET :: int where "FL_DEFAULT_OFFSET \<equiv> -1"

section \<open>Log levels and loggers\<close>

datatype log_level = LOG_LEVEL_ERROR | LOG_LEVEL_WARN | LOG_LEVEL_INFO | LOG_LEVEL_DEBUG
  | LOG_LEVEL_STDOUT

primrec level_num :: "log_level \<Rightarrow> nat" where
  "level_num LOG_LEVEL_ERROR = 1"
| "level_num LOG_LEVEL_WARN = 2"
| "level_num LOG_LEVEL_INFO = 3"
| "level_num LOG_LEVEL_DEBUG = 4"
| "level_num LOG_LEVEL_STDOUT = 5"

lemma level_num_inj: "level_num a = level_num b \<Longrightarrow> a = b"
  by (cases a; cases b) auto

text \<open>The code compares levels as integers: the order of the numbers.\<close>

instantiation log_level :: linorder
begin

definition less_eq_log_level :: "log_level \<Rightarrow> log_level \<Rightarrow> bool" where
  "less_eq_log_level a b \<longleftrightarrow> level_num a \<le> level_num b"

definition less_log_level :: "log_level \<Rightarrow> log_level \<Rightarrow> bool" where
  "less_log_level a b \<longleftrightarrow> level_num a < level_num b"

instance
  by standard (auto simp: less_eq_log_level_def less_log_level_def intro: level_num_inj)

end

record logger_t =
  lg_level :: log_level
  lg_file :: "file_t option"

text \<open>One call of the log writer: where it goes, at which level, with which \<open>errno\<close>, and the
  format string of the call.\<close>

record log_entry =
  le_file :: "file_t option"
  le_level :: log_level
  le_err :: int
  le_fmt :: string

end
