(* ===== verification/CRuntime.thy ===== *)
theory CRuntime
  imports XTypes
begin

text \<open>
  What the program uses of C and its library: a byte memory with the list of live blocks of
  \<open>malloc\<close>, \<open>free\<close> with its precondition, \<open>memset\<close> and \<open>memcpy\<close>, the string functions and
  \<open>atoi\<close>.  The choice that \<open>malloc\<close> makes belongs to the environment: \<open>cm_pick\<close> answers the
  n-th call, and an answer that the C standard does not allow (a block that overlaps a live
  one, or lies outside the address space) counts as a failed call.  Every theorem therefore
  holds for every behaviour of a correct \<open>malloc\<close>, failures included.
\<close>

section \<open>Memory\<close>

record cmem =
  cm_mem :: "addr \<Rightarrow> byte"
  cm_live :: "block list"
  cm_pick :: "nat \<Rightarrow> nat \<Rightarrow> addr"
  cm_calls :: nat
  cm_log :: "log_entry list"

text \<open>The ways in which a run of the program ends other than by returning: undefined behaviour
  of C, or a loop that never ends.\<close>

datatype ub = Invalid_free addr | Null_call | Out_of_bounds addr | Null_deref | Diverges

text \<open>User addresses of the 64-bit ABI lie below \<open>2 ^ 47\<close>.\<close>

definition addr_top :: nat where
  "addr_top = 140737488355328"

definition fresh_block :: "block list \<Rightarrow> addr \<Rightarrow> nat \<Rightarrow> bool" where
  "fresh_block live a n \<longleftrightarrow>
     0 < a \<and> blk_end (a, n) \<le> addr_top \<and> list_all (apart (a, n)) live"

definition malloc :: "'a cmem_scheme \<Rightarrow> nat \<Rightarrow> addr \<times> 'a cmem_scheme" where
  "malloc w n =
     (let a = cm_pick w (cm_calls w) n; w1 = w\<lparr>cm_calls := Suc (cm_calls w)\<rparr>
      in if fresh_block (cm_live w) a n
         then (a, w1\<lparr>cm_live := (a, n) # cm_live w\<rparr>) else (NULL, w1))"

definition free_block :: "'a cmem_scheme \<Rightarrow> addr \<Rightarrow> 'a cmem_scheme" where
  "free_block w a = w\<lparr>cm_live := filter (\<lambda>b. fst b \<noteq> a) (cm_live w)\<rparr>"

definition c_free :: "'a cmem_scheme \<Rightarrow> addr \<Rightarrow> ub + 'a cmem_scheme" where
  "c_free w a =
     (if a = NULL then Inr w
      else if a \<in> fst ` set (cm_live w) then Inr (free_block w a)
      else Inl (Invalid_free a))"

definition memset :: "'a cmem_scheme \<Rightarrow> addr \<Rightarrow> byte \<Rightarrow> nat \<Rightarrow> 'a cmem_scheme" where
  "memset w a c n = w\<lparr>cm_mem := (\<lambda>x. if a \<le> x \<and> x < a + n then c else cm_mem w x)\<rparr>"

definition poke :: "'a cmem_scheme \<Rightarrow> addr \<Rightarrow> byte \<Rightarrow> 'a cmem_scheme" where
  "poke w a c = w\<lparr>cm_mem := (cm_mem w)(a := c)\<rparr>"

definition write_bytes :: "'a cmem_scheme \<Rightarrow> addr \<Rightarrow> byte list \<Rightarrow> 'a cmem_scheme" where
  "write_bytes w a bs =
     w\<lparr>cm_mem := (\<lambda>x. if a \<le> x \<and> x < a + length bs then bs ! (x - a) else cm_mem w x)\<rparr>"

definition mem_bytes :: "(addr \<Rightarrow> byte) \<Rightarrow> addr \<Rightarrow> nat \<Rightarrow> byte list" where
  "mem_bytes m a n = map m [a..<a + n]"

text \<open>A range of bytes that lies inside one live block, so that the program may write to it.\<close>

definition writable :: "'a cmem_scheme \<Rightarrow> addr \<Rightarrow> nat \<Rightarrow> bool" where
  "writable w a n \<longleftrightarrow> list_ex (\<lambda>b. fst b \<le> a \<and> a + n \<le> fst b + snd b) (cm_live w)"

text \<open>A signed 64-bit integer in memory, least significant byte first.\<close>

definition mem_long :: "(addr \<Rightarrow> byte) \<Rightarrow> addr \<Rightarrow> int" where
  "mem_long m a =
     (let n = foldr (\<lambda>b k. of_char b + 256 * k) (mem_bytes m a 8) (0 :: int)
      in if n < 9223372036854775808 then n else n - 18446744073709551616)"

section \<open>C strings\<close>

definition cstr :: "byte list \<Rightarrow> byte list" where
  "cstr s = takeWhile (\<lambda>c. c \<noteq> NUL) s"

text \<open>The bytes from \<open>a\<close> up to the first NUL.\<close>

function mem_str :: "(addr \<Rightarrow> byte) \<Rightarrow> addr \<Rightarrow> byte list" where
  "mem_str m a = (if a < addr_top \<and> m a \<noteq> NUL then m a # mem_str m (Suc a) else [])"
  by pat_completeness auto
termination
  by (relation "measure (\<lambda>(m, a). addr_top - a)") auto

declare mem_str.simps [simp del]

fun c_strcmp :: "byte list \<Rightarrow> byte list \<Rightarrow> int" where
  "c_strcmp [] [] = 0"
| "c_strcmp [] (d # ds) = - of_char d"
| "c_strcmp (c # cs) [] = of_char c"
| "c_strcmp (c # cs) (d # ds) =
     (if c = d then (if c = NUL then 0 else c_strcmp cs ds) else of_char c - of_char d)"

text \<open>\<open>strncmp\<close> of the bytes at an address with a literal.\<close>

fun mem_strncmp :: "(addr \<Rightarrow> byte) \<Rightarrow> addr \<Rightarrow> byte list \<Rightarrow> nat \<Rightarrow> int" where
  "mem_strncmp m a s 0 = 0"
| "mem_strncmp m a [] (Suc n) = of_char (m a)"
| "mem_strncmp m a (c # s) (Suc n) =
     (if m a = c then (if c = NUL then 0 else mem_strncmp m (Suc a) s n)
      else of_char (m a) - of_char c)"

definition c_isdigit :: "byte \<Rightarrow> bool" where
  "c_isdigit c \<longleftrightarrow> CHR ''0'' \<le> c \<and> c \<le> CHR ''9''"

definition c_isspace :: "byte \<Rightarrow> bool" where
  "c_isspace c \<longleftrightarrow> c = CHR '' '' \<or> (CHR 0x09 \<le> c \<and> c \<le> CHR 0x0D)"

declare c_isdigit_def [char_defs] c_isspace_def [char_defs]

definition digit_val :: "byte \<Rightarrow> nat" where
  "digit_val c = of_char c - 48"

definition dec_val :: "byte list \<Rightarrow> nat" where
  "dec_val ds = foldl (\<lambda>v d. 10 * v + digit_val d) 0 ds"

text \<open>
  \<open>atoi\<close> is \<open>(int) strtol(s, NULL, 10)\<close>: \<open>strtol\<close> saturates at the limits of \<open>long\<close>, and
  the conversion to \<open>int\<close> keeps the low 32 bits.
\<close>

definition long_to_int :: "int \<Rightarrow> int" where
  "long_to_int l =
     (let r = l mod 4294967296 in if r < 2147483648 then r else r - 4294967296)"

definition c_strtol :: "byte list \<Rightarrow> int" where
  "c_strtol s =
     (let s1 = dropWhile c_isspace s;
          neg = (s1 \<noteq> [] \<and> hd s1 = CHR ''-'');
          s2 = (if s1 \<noteq> [] \<and> (hd s1 = CHR ''-'' \<or> hd s1 = CHR ''+'') then tl s1 else s1);
          v = int (dec_val (takeWhile c_isdigit s2))
      in if neg then max (-9223372036854775808) (- v) else min 9223372036854775807 v)"

definition c_atoi :: "byte list \<Rightarrow> int" where
  "c_atoi s = long_to_int (c_strtol s)"

section \<open>Facts on memory\<close>

text \<open>The live blocks are pairwise apart, not null and inside the address space.\<close>

definition live_wf :: "'a cmem_scheme \<Rightarrow> bool" where
  "live_wf w \<longleftrightarrow> sorted_wrt apart (cm_live w) \<and>
     list_all (\<lambda>b. 0 < fst b \<and> blk_end b \<le> addr_top) (cm_live w)"

definition live_set :: "'a cmem_scheme \<Rightarrow> addr set" where
  "live_set w = \<Union> (extent ` set (cm_live w))"

lemma live_wfD:
  assumes "live_wf w"
  shows "sorted_wrt apart (cm_live w)"
    and "b \<in> set (cm_live w) \<Longrightarrow> 0 < fst b"
    and "b \<in> set (cm_live w) \<Longrightarrow> blk_end b \<le> addr_top"
    and "b \<in> set (cm_live w) \<Longrightarrow> c \<in> set (cm_live w) \<Longrightarrow> b \<noteq> c \<Longrightarrow> extent b \<inter> extent c = {}"
  using assms by (auto simp: live_wf_def list_all_iff dest: sorted_wrt_apartD
      simp flip: apart_disjoint)

lemma live_base_unique:
  "live_wf w \<Longrightarrow> b \<in> set (cm_live w) \<Longrightarrow> c \<in> set (cm_live w) \<Longrightarrow> fst b \<in> extent c \<Longrightarrow> b = c"
  by (metis live_wfD(4) base_in_extent disjoint_iff)

lemma malloc_cases:
  assumes "malloc w n = (a, w')"
  obtains (fail) "a = NULL" "w' = w\<lparr>cm_calls := Suc (cm_calls w)\<rparr>"
  | (ok) "fresh_block (cm_live w) a n" "0 < a"
      "w' = w\<lparr>cm_calls := Suc (cm_calls w), cm_live := (a, n) # cm_live w\<rparr>"
  using assms by (auto simp: malloc_def Let_def fresh_block_def split: if_splits)

lemma malloc_frame:
  assumes "malloc w n = (a, w')"
  shows "cm_mem w' = cm_mem w" "cm_pick w' = cm_pick w" "cm_log w' = cm_log w"
    "set (cm_live w) \<subseteq> set (cm_live w')"
  using assms by (auto elim!: malloc_cases)

lemma malloc_live_wf: "live_wf w \<Longrightarrow> malloc w n = (a, w') \<Longrightarrow> live_wf w'"
  by (erule malloc_cases) (auto simp: live_wf_def fresh_block_def list_all_iff)

lemma malloc_fresh:
  assumes "malloc w n = (a, w')" "a \<noteq> NULL"
  shows "(a, n) \<in> set (cm_live w')" "extent (a, n) \<inter> live_set w = {}"
    "live_set w' = live_set w \<union> extent (a, n)" "blk_end (a, n) \<le> addr_top"
  using assms
  by (auto elim!: malloc_cases simp: fresh_block_def live_set_def list_all_iff apart_disjoint
      disjoint_iff)

lemma free_block_live_wf [intro]: "live_wf w \<Longrightarrow> live_wf (free_block w a)"
  by (auto simp: live_wf_def free_block_def list_all_iff sorted_wrt_filter)

lemma free_block_sel [frame_simps]:
  "cm_live (free_block w a) = filter (\<lambda>b. fst b \<noteq> a) (cm_live w)"
  "cm_mem (free_block w a) = cm_mem w" "cm_calls (free_block w a) = cm_calls w"
  "cm_pick (free_block w a) = cm_pick w" "cm_log (free_block w a) = cm_log w"
  by (simp_all add: free_block_def)

lemma c_free_live: "b \<in> set (cm_live w) \<Longrightarrow> live_wf w \<Longrightarrow> c_free w (fst b) = Inr (free_block w (fst b))"
  by (auto simp: c_free_def dest: live_wfD(2))

text \<open>Freeing what \<open>malloc\<close> has just returned undoes the allocation.\<close>

lemma free_malloc:
  assumes "live_wf w" "malloc w n = (a, w')" "a \<noteq> NULL"
  shows "c_free w' a = Inr (free_block w' a)" "cm_live (free_block w' a) = cm_live w"
proof -
  have l: "cm_live w' = (a, n) # cm_live w" and f: "fresh_block (cm_live w) a n"
    using assms(2,3) by (auto elim!: malloc_cases)
  show "c_free w' a = Inr (free_block w' a)" using assms(3) l by (simp add: c_free_def)
  have "\<forall>b \<in> set (cm_live w). fst b \<noteq> a"
    using f by (auto simp: fresh_block_def list_all_iff apart_def blk_end_def)
  then show "cm_live (free_block w' a) = cm_live w"
    by (simp add: free_block_def l)
qed

lemma memset_sel [frame_simps]:
  "cm_live (memset w a c n) = cm_live w" "cm_calls (memset w a c n) = cm_calls w"
  "cm_pick (memset w a c n) = cm_pick w" "cm_log (memset w a c n) = cm_log w"
  by (simp_all add: memset_def)

lemma poke_sel [frame_simps]:
  "cm_live (poke w a c) = cm_live w" "cm_calls (poke w a c) = cm_calls w"
  "cm_pick (poke w a c) = cm_pick w" "cm_log (poke w a c) = cm_log w"
  "cm_mem (poke w a c) = (cm_mem w)(a := c)"
  by (simp_all add: poke_def)

lemma mem_bytes_length [simp]: "length (mem_bytes m a n) = n"
  by (simp add: mem_bytes_def)

lemma mem_bytes_memset: "mem_bytes (cm_mem (memset w a c n)) a n = replicate n c"
  by (rule nth_equalityI) (auto simp: mem_bytes_def memset_def)

lemma mem_bytes_write: "mem_bytes (cm_mem (write_bytes w a bs)) a (length bs) = bs"
  by (rule nth_equalityI) (auto simp: mem_bytes_def write_bytes_def)

lemma mem_bytes_cong: "(\<And>x. a \<le> x \<Longrightarrow> x < a + n \<Longrightarrow> m x = m' x) \<Longrightarrow> mem_bytes m a n = mem_bytes m' a n"
  by (auto simp: mem_bytes_def)

lemma mem_bytes_0 [simp]: "mem_bytes m a 0 = []"
  by (simp add: mem_bytes_def)

lemma mem_bytes_Suc: "mem_bytes m a (Suc n) = m a # mem_bytes m (Suc a) n"
  by (simp add: mem_bytes_def upt_conv_Cons flip: add_Suc del: upt_Suc)

lemma mem_bytes_add: "mem_bytes m a (n + k) = mem_bytes m a n @ mem_bytes m (a + n) k"
  by (induction n arbitrary: a) (simp_all add: mem_bytes_Suc)

text \<open>A memory holds a byte string at an address.\<close>

definition holds :: "(addr \<Rightarrow> byte) \<Rightarrow> addr \<Rightarrow> byte list \<Rightarrow> bool" where
  "holds m a xs \<longleftrightarrow> mem_bytes m a (length xs) = xs"

lemma holds_Nil [simp]: "holds m a []"
  by (simp add: holds_def)

lemma holds_Cons [simp]: "holds m a (x # xs) \<longleftrightarrow> m a = x \<and> holds m (Suc a) xs"
  by (simp add: holds_def mem_bytes_Suc)

lemma holds_append [simp]: "holds m a (xs @ ys) \<longleftrightarrow> holds m a xs \<and> holds m (a + length xs) ys"
  by (simp add: holds_def mem_bytes_add)

lemma holds_write [simp]: "holds (cm_mem (write_bytes w a bs)) a bs"
  by (simp add: holds_def mem_bytes_write)

section \<open>Facts on strings\<close>

lemma of_char_eq_0: "of_char c = (0 :: int) \<longleftrightarrow> c = NUL"
  using of_char_eq_iff [of c "CHR 0x00", where ?'a = int] by (simp add: NUL_def)

lemma c_strcmp_eq_0: "c_strcmp s t = 0 \<longleftrightarrow> cstr s = cstr t"
proof (induction s t rule: c_strcmp.induct)
  case (4 c cs d ds)
  then show ?case by (auto simp: cstr_def of_char_eq_0)
qed (auto simp: cstr_def of_char_eq_0)

lemma c_strcmp_refl [simp]: "c_strcmp s s = 0"
  by (simp add: c_strcmp_eq_0)

lemma mem_strncmp_eq_0:
  "NUL \<notin> set s \<Longrightarrow> mem_strncmp m a s (length s) = 0 \<longleftrightarrow> holds m a s"
  by (induction s arbitrary: a) auto

lemma mem_str_bytes:
  "NUL \<notin> set (mem_bytes m a n) \<Longrightarrow> m (a + n) = NUL \<Longrightarrow> a + n < addr_top \<Longrightarrow>
   mem_str m a = mem_bytes m a n"
proof (induction n arbitrary: a)
  case (Suc n)
  then show ?case by (subst mem_str.simps) (auto simp: mem_bytes_Suc)
qed (subst mem_str.simps, simp)

section \<open>Facts on decimal numbers\<close>

lemma dec_val_snoc: "dec_val (ds @ [d]) = 10 * dec_val ds + digit_val d"
  by (simp add: dec_val_def)

lemma c_isdigit_not_space: "c_isdigit c \<Longrightarrow> \<not> c_isspace c"
  by (auto simp: char_defs less_eq_char_def)

lemma c_atoi_digits:
  assumes "ds \<noteq> []" "\<forall>d \<in> set ds. c_isdigit d" "dec_val ds < 2147483648"
  shows "c_atoi ds = int (dec_val ds)"
proof -
  obtain d ds' where ds: "ds = d # ds'" using assms(1) by (cases ds) auto
  then have d: "c_isdigit d" using assms(2) by simp
  have sp: "dropWhile c_isspace ds = ds" using ds d c_isdigit_not_space by simp
  have sg: "d \<noteq> CHR ''-''" "d \<noteq> CHR ''+''" using d by (auto simp: c_isdigit_def)
  have tw: "takeWhile c_isdigit ds = ds" using assms(2) by auto
  have "c_strtol ds = int (dec_val ds)"
    using assms(3) sp sg tw by (simp add: c_strtol_def Let_def ds)
  with assms(3) show ?thesis by (simp add: c_atoi_def long_to_int_def Let_def)
qed

text \<open>A nonempty digit string that does not start with 0 has a positive value.\<close>

lemma dec_val_lower: "10 ^ length ds * v \<le> foldl (\<lambda>v d. 10 * v + digit_val d) v ds"
proof (induction ds arbitrary: v)
  case (Cons d ds)
  have "10 ^ length (d # ds) * v \<le> 10 ^ length ds * (10 * v + digit_val d)" by (simp add: algebra_simps)
  also have "\<dots> \<le> foldl (\<lambda>v d. 10 * v + digit_val d) (10 * v + digit_val d) ds" by (rule Cons.IH)
  finally show ?case by simp
qed simp

lemma dec_val_pos:
  assumes "c_isdigit d" "d \<noteq> CHR ''0''"
  shows "10 ^ length ds \<le> dec_val (d # ds)"
proof -
  have "of_char d \<noteq> (48 :: nat)"
    using assms(2) of_char_eq_iff [of d "CHR ''0''", where ?'a = nat] by simp
  moreover have "(48 :: nat) \<le> of_char d" using assms(1) by (simp add: c_isdigit_def less_eq_char_def)
  ultimately have "1 \<le> digit_val d" by (simp add: digit_val_def)
  then have "10 ^ length ds * 1 \<le> 10 ^ length ds * digit_val d" by simp
  also have "\<dots> \<le> dec_val (d # ds)" using dec_val_lower [of ds "digit_val d"] by (simp add: dec_val_def)
  finally show ?thesis by simp
qed

section \<open>Printing decimal numbers\<close>

definition digit_char :: "nat \<Rightarrow> byte" where
  "digit_char d = char_of (48 + d)"

fun dec_digits :: "nat \<Rightarrow> byte list" where
  "dec_digits n = (if n < 10 then [digit_char n] else dec_digits (n div 10) @ [digit_char (n mod 10)])"

declare dec_digits.simps [simp del]

lemma digit_char_of: "d < 10 \<Longrightarrow> of_char (digit_char d) = 48 + d"
  by (simp add: digit_char_def)

lemma digit_char_digit: "d < 10 \<Longrightarrow> c_isdigit (digit_char d)"
  by (simp add: c_isdigit_def less_eq_char_def digit_char_of)

lemma dec_digits_nonempty [simp]: "dec_digits n \<noteq> []"
  by (subst dec_digits.simps) simp

lemma dec_digits_digits: "list_all c_isdigit (dec_digits n)"
proof (induction n rule: dec_digits.induct)
  case (1 n)
  then show ?case by (subst dec_digits.simps) (simp add: digit_char_digit)
qed

lemma dec_val_digits: "dec_val (dec_digits n) = n"
proof (induction n rule: dec_digits.induct)
  case (1 n)
  show ?case
  proof (cases "n < 10")
    case True
    then show ?thesis by (subst dec_digits.simps) (simp add: dec_val_def digit_val_def digit_char_of)
  next
    case False
    with 1 show ?thesis
      by (subst dec_digits.simps) (simp add: dec_val_snoc digit_val_def digit_char_of)
  qed
qed

lemma atoi_dec_digits: "n < 2147483648 \<Longrightarrow> c_atoi (dec_digits n) = int n"
  using c_atoi_digits [of "dec_digits n"] dec_digits_digits [of n] by (simp add: dec_val_digits list_all_iff)

end
