(* ===== verification/XString.thy ===== *)
theory XString
  imports CRuntime
begin

text \<open>
  \<open>xstring.h\<close> and \<open>xstring.c\<close>: the character classes and case conversions, the test for a
  positive decimal integer, and the construction of an absolute file name from the
  installation directory.  The installation directory (\<open>xpipe_install_dir_path\<close>) is written
  by \<open>configure\<close>, so it is a parameter.
\<close>

section \<open>Macros of xstring.h\<close>

definition is_letter :: "byte \<Rightarrow> bool" where
  "is_letter c \<longleftrightarrow> (CHR ''a'' \<le> c \<and> c \<le> CHR ''z'') \<or> (CHR ''A'' \<le> c \<and> c \<le> CHR ''Z'')"

definition is_digit :: "byte \<Rightarrow> bool" where
  "is_digit c \<longleftrightarrow> CHR ''0'' \<le> c \<and> c \<le> CHR ''9''"

definition is_blank :: "byte \<Rightarrow> bool" where
  "is_blank c \<longleftrightarrow> c = CR \<or> c = LF \<or> c = CHR 0x09 \<or> c = CHR '' ''"

definition is_upper :: "byte \<Rightarrow> bool" where
  "is_upper c \<longleftrightarrow> CHR ''A'' \<le> c \<and> c \<le> CHR ''Z''"

declare is_letter_def [char_defs] is_digit_def [char_defs] is_blank_def [char_defs]
  is_upper_def [char_defs]

unbundle bit_operations_syntax

definition x_tolower :: "byte \<Rightarrow> byte" where
  "x_tolower c = (if CHR ''A'' \<le> c \<and> c \<le> CHR ''Z'' then char_of (of_char c OR (32 :: nat)) else c)"

definition x_toupper :: "byte \<Rightarrow> byte" where
  "x_toupper c =
     (if CHR ''a'' \<le> c \<and> c \<le> CHR ''z'' then char_of (of_char c AND (223 :: nat)) else c)"

definition is_full_file_name :: "string_t \<Rightarrow> bool" where
  "is_full_file_name f \<longleftrightarrow> str_len f \<noteq> 0 \<and> str_data f \<noteq> [] \<and> hd (str_data f) = CHR ''/''"

section \<open>Functions of xstring.c\<close>

text \<open>The loop of \<open>is_positive_integer\<close> over the bytes from index \<open>i\<close>.\<close>

fun digits_from :: "byte list \<Rightarrow> nat \<Rightarrow> nat \<Rightarrow> int" where
  "digits_from d i 0 = 1"
| "digits_from d i (Suc n) = (if \<not> is_digit (d ! i) then 0 else digits_from d (Suc i) n)"

definition is_positive_integer :: "string_t option \<Rightarrow> int" where
  "is_positive_integer num =
     (case num of None \<Rightarrow> 0
      | Some s \<Rightarrow>
          if str_len s = 0 then 0
          else if \<not> is_digit (str_data s ! 0) \<or> str_data s ! 0 = CHR ''0'' then 0
          else digits_from (str_data s) 1 (str_len s - 1))"

definition make_full_file_name ::
  "byte list \<Rightarrow> 'a cmem_scheme \<Rightarrow> addr \<Rightarrow> byte list \<Rightarrow> nat \<Rightarrow> 'a cmem_scheme" where
  "make_full_file_name dir w full_name name len =
     (let p = full_name;
          w1 = write_bytes w p dir; p1 = p + length dir;
          (w2, p2) = (if last dir \<noteq> CHR ''/'' then (write_bytes w1 p1 ''/'', p1 + 1) else (w1, p1))
      in write_bytes w2 p2 (take len name))"

section \<open>Facts\<close>

lemma is_digit_eq [simp]: "c_isdigit = is_digit"
  by (rule ext) (simp add: c_isdigit_def is_digit_def)

lemma digit_not_blank: "is_digit c \<Longrightarrow> \<not> is_blank c"
  by (auto simp: char_defs)

lemma letter_not_blank: "is_letter c \<Longrightarrow> \<not> is_blank c"
  by (auto simp: char_defs)

lemma upper_letter: "is_upper c \<Longrightarrow> is_letter c"
  by (auto simp: char_defs)

lemma digits_from_iff:
  "i + n \<le> length d \<Longrightarrow> digits_from d i n = 1 \<longleftrightarrow> (\<forall>c \<in> set (take n (drop i d)). is_digit c)"
proof (induction n arbitrary: i)
  case (Suc n)
  then have i: "i < length d" by simp
  have "take (Suc n) (drop i d) = d ! i # take n (drop (Suc i) d)"
    using i by (simp add: Cons_nth_drop_Suc [symmetric])
  with Suc show ?case by simp
qed simp

lemma digits_from_range: "digits_from d i n \<in> {0, 1}"
  by (induction n arbitrary: i) auto

text \<open>
  \<open>is_positive_integer\<close> accepts exactly the nonempty digit strings without a leading zero.
\<close>

lemma is_positive_integer_iff:
  assumes "str_len s = length (str_data s)"
  shows "is_positive_integer (Some s) = 1 \<longleftrightarrow>
     (\<exists>d ds. str_data s = d # ds \<and> d \<noteq> CHR ''0'' \<and> (\<forall>c \<in> set (d # ds). is_digit c))"
proof (cases "str_data s")
  case Nil
  with assms show ?thesis by (simp add: is_positive_integer_def)
next
  case (Cons d ds)
  then show ?thesis
    using assms digits_from_iff [of 1 "length ds" "d # ds"]
    by (auto simp: is_positive_integer_def)
qed

lemma is_positive_integer_range: "is_positive_integer s \<in> {0, 1}"
  using digits_from_range by (auto simp: is_positive_integer_def split: option.splits)

lemma write_bytes_read:
  "cm_mem (write_bytes w a bs) x = (if a \<le> x \<and> x < a + length bs then bs ! (x - a) else cm_mem w x)"
  by (simp add: write_bytes_def)

lemma write_bytes_append:
  "write_bytes (write_bytes w a xs) (a + length xs) ys = write_bytes w a (xs @ ys)"
proof -
  have "cm_mem (write_bytes (write_bytes w a xs) (a + length xs) ys) =
        cm_mem (write_bytes w a (xs @ ys))"
    by (rule ext) (auto simp: write_bytes_read nth_append)
  then show ?thesis by (simp add: write_bytes_def)
qed

text \<open>The name that \<open>make_full_file_name\<close> builds.\<close>

definition full_name_of :: "byte list \<Rightarrow> byte list \<Rightarrow> byte list" where
  "full_name_of dir name = dir @ (if last dir \<noteq> CHR ''/'' then ''/'' else []) @ name"

lemma make_full_file_name_eq:
  "make_full_file_name dir w a name len = write_bytes w a (full_name_of dir (take len name))"
proof (cases "last dir = CHR ''/''")
  case True
  then show ?thesis
    using write_bytes_append [of w a dir "take len name"]
    by (simp add: make_full_file_name_def full_name_of_def Let_def)
next
  case False
  then show ?thesis
    using write_bytes_append [of w a dir "''/''"]
      write_bytes_append [of w a "dir @ ''/''" "take len name"]
    by (simp add: make_full_file_name_def full_name_of_def Let_def)
qed

lemma length_full_name_of: "length (full_name_of dir name) \<le> length dir + length name + 1"
  by (simp add: full_name_of_def)

lemma mem_str_write:
  assumes "NUL \<notin> set bs" "cm_mem w (a + length bs) = NUL" "a + length bs < addr_top"
  shows "mem_str (cm_mem (write_bytes w a bs)) a = bs"
  using assms mem_str_bytes [of "cm_mem (write_bytes w a bs)" a "length bs"]
  by (simp add: mem_bytes_write write_bytes_read)

section \<open>Properties\<close>

text \<open>
  C29: a string that \<open>is_positive_integer\<close> accepts and whose value fits an \<open>int\<close> is read back
  by \<open>x_atoi\<close> as exactly its decimal value, which is positive: the values the \<open>listen\<close>,
  \<open>connections\<close> and \<open>request_buffer_size\<close> commands store are the ones written in the file.
\<close>

theorem positive_integer_atoi:
  assumes "str_len s = length (str_data s)" "is_positive_integer (Some s) = 1"
    "dec_val (str_data s) < 2147483648"
  shows "c_atoi (str_data s) = int (dec_val (str_data s)) \<and> 0 < c_atoi (str_data s)"
proof -
  obtain d ds where d: "str_data s = d # ds" "d \<noteq> CHR ''0''" "\<forall>c \<in> set (d # ds). is_digit c"
    using assms(1,2) is_positive_integer_iff by blast
  then have "c_atoi (str_data s) = int (dec_val (str_data s))"
    using c_atoi_digits [of "str_data s"] assms(3) by simp
  moreover have "10 ^ length ds \<le> dec_val (str_data s)" using dec_val_pos [of d ds] d by simp
  then have "0 < dec_val (str_data s)" by (rule order.strict_trans2 [rotated]) simp
  ultimately show ?thesis by simp
qed

theorem positive_integer_atoi_witness:
  "c_atoi (str_data (xstring ''8080'')) = int (dec_val ''8080'') \<and> dec_val ''8080'' = 8080"
proof -
  have v: "dec_val ''8080'' = 8080" by (simp add: dec_val_def digit_val_def)
  have p: "is_positive_integer (Some (xstring ''8080'')) = 1"
    by (subst is_positive_integer_iff) (simp_all add: is_digit_def)
  show ?thesis using positive_integer_atoi [of "xstring ''8080''"] v p by simp
qed

text \<open>
  C30: in a zeroed buffer of \<open>strlen(dir) + len + 2\<close> bytes, as \<open>cmd_pid_set\<close> and
  \<open>cmd_log_set\<close> allocate it, \<open>make_full_file_name\<close> leaves the C string \<open>dir/name\<close> (one slash
  between the two, none added when \<open>dir\<close> ends in one), and it writes no byte outside that
  buffer.
\<close>

theorem make_full_file_name_correct:
  assumes "NUL \<notin> set dir" "NUL \<notin> set name" "a + length dir + length name + 2 \<le> addr_top"
  shows "let n = length dir + length name + 2;
             w' = make_full_file_name dir (memset w a NUL n) a name (length name)
         in mem_str (cm_mem w') a = full_name_of dir name \<and>
            (\<forall>x. x < a \<or> a + n \<le> x \<longrightarrow> cm_mem w' x = cm_mem w x)"
proof -
  let ?n = "length dir + length name + 2" and ?f = "full_name_of dir name"
  let ?w = "memset w a NUL ?n"
  have len: "length ?f \<le> length dir + length name + 1" by (rule length_full_name_of)
  have eq: "make_full_file_name dir ?w a name (length name) = write_bytes ?w a ?f"
    by (simp add: make_full_file_name_eq)
  have "mem_str (cm_mem (write_bytes ?w a ?f)) a = ?f"
  proof (rule mem_str_write)
    show "NUL \<notin> set ?f" using assms(1,2) by (simp add: full_name_of_def NUL_def)
    show "cm_mem ?w (a + length ?f) = NUL" using len by (simp add: memset_def)
    show "a + length ?f < addr_top" using len assms(3) by simp
  qed
  moreover have "\<forall>x. x < a \<or> a + ?n \<le> x \<longrightarrow> cm_mem (write_bytes ?w a ?f) x = cm_mem w x"
    using len by (auto simp: write_bytes_read memset_def)
  ultimately show ?thesis unfolding Let_def eq by blast
qed

text \<open>A memory to evaluate on: nothing allocated, every byte \<open>x\<close>.\<close>

definition demo_cmem :: cmem where
  "demo_cmem = \<lparr>cm_mem = (\<lambda>_. CHR ''x''), cm_live = [], cm_pick = (\<lambda>i n. 16777216 * Suc i),
     cm_calls = 0, cm_log = []\<rparr>"

theorem make_full_file_name_correct_witness:
  "mem_str (cm_mem (make_full_file_name ''/opt'' (memset demo_cmem 100 NUL 13) 100 ''xpe.pid'' 7)) 100
     = ''/opt/xpe.pid''"
proof -
  have a: "100 + length ''/opt'' + length ''xpe.pid'' + 2 \<le> addr_top"
    by (simp add: addr_top_def)
  show ?thesis
    using make_full_file_name_correct [of "''/opt''" "''xpe.pid''" 100 demo_cmem] a
    by (simp add: NUL_def full_name_of_def Let_def numeral_eq_Suc)
qed

end
