(* ===== verification/Logger.thy ===== *)
theory Logger
  imports XString
begin

text \<open>
  \<open>logger.c\<close>: the line that the log writer composes in its stack buffer, and the level
  filters of the log calls.  A log call that passes its filter is recorded as one entry of
  the log of the memory state; the entry names the file (\<open>None\<close> is standard output), the
  level, the \<open>errno\<close> argument and the format string.  The expansion of the format by
  \<open>vsnprintf\<close> is an argument of the writer (\<open>None\<close> when it reports an error).
\<close>

section \<open>The log writer\<close>

abbreviation (input) LOG_CONTENT_MAX_LEN :: nat where
  "LOG_CONTENT_MAX_LEN \<equiv> 2048"

primrec level_str :: "log_level \<Rightarrow> byte list" where
  "level_str LOG_LEVEL_ERROR = '' [ERROR] ''"
| "level_str LOG_LEVEL_WARN = '' [WARN] ''"
| "level_str LOG_LEVEL_INFO = '' [INFO] ''"
| "level_str LOG_LEVEL_DEBUG = '' [DEBUG] ''"
| "level_str LOG_LEVEL_STDOUT = '' [STDOUT] ''"

text \<open>
  \<open>stale\<close> is what the buffer holds where \<open>vsnprintf\<close> failed.  The result is the byte
  string handed to \<open>write\<close>, or \<open>Out_of_bounds\<close> when composing it writes past the end of
  \<open>info_str\<close>.
\<close>

definition log_core_writer ::
  "byte list \<Rightarrow> byte list \<Rightarrow> (nat \<Rightarrow> byte) \<Rightarrow> int \<Rightarrow> log_level \<Rightarrow> byte list option \<Rightarrow> ub + byte list" where
  "log_core_writer log_time strerr stale err level msg =
     (let p1 = log_time;
          p2 = p1 @ level_str level;
          p3 = (if err \<noteq> 0 then p2 @ strerr @ '' - '' else p2);
          max_len = LOG_CONTENT_MAX_LEN - length (level_str level) - 1;
          n = (case msg of None \<Rightarrow> -1 | Some m \<Rightarrow> int (length m));
          adv = (if to_size_t n < max_len then to_size_t n else max_len - 1);
          body = (case msg of None \<Rightarrow> map (\<lambda>i. stale (length p3 + i)) [0..<adv]
                  | Some m \<Rightarrow> take adv m);
          line = p3 @ body @ [LF]
      in if length line \<le> LOG_CONTENT_MAX_LEN then Inr line
         else Inl (Out_of_bounds LOG_CONTENT_MAX_LEN))"

section \<open>The log calls\<close>

definition log_emit ::
  "'a cmem_scheme \<Rightarrow> logger_t \<Rightarrow> log_level \<Rightarrow> int \<Rightarrow> string \<Rightarrow> 'a cmem_scheme" where
  "log_emit w lg lv err fmt =
     w\<lparr>cm_log := cm_log w @ [\<lparr>le_file = lg_file lg, le_level = lv, le_err = err, le_fmt = fmt\<rparr>]\<rparr>"

definition log_error :: "'a cmem_scheme \<Rightarrow> logger_t option \<Rightarrow> int \<Rightarrow> string \<Rightarrow> 'a cmem_scheme" where
  "log_error w logger err fmt =
     (case logger of None \<Rightarrow> w | Some lg \<Rightarrow> log_emit w lg LOG_LEVEL_ERROR err fmt)"

definition log_warn :: "'a cmem_scheme \<Rightarrow> logger_t option \<Rightarrow> int \<Rightarrow> string \<Rightarrow> 'a cmem_scheme" where
  "log_warn w logger err fmt =
     (case logger of None \<Rightarrow> w
      | Some lg \<Rightarrow> if lg_level lg < LOG_LEVEL_WARN then w else log_emit w lg LOG_LEVEL_WARN err fmt)"

definition log_info :: "'a cmem_scheme \<Rightarrow> logger_t option \<Rightarrow> int \<Rightarrow> string \<Rightarrow> 'a cmem_scheme" where
  "log_info w logger err fmt =
     (case logger of None \<Rightarrow> w
      | Some lg \<Rightarrow> if lg_level lg < LOG_LEVEL_INFO then w else log_emit w lg LOG_LEVEL_INFO err fmt)"

definition log_debug :: "'a cmem_scheme \<Rightarrow> logger_t option \<Rightarrow> int \<Rightarrow> string \<Rightarrow> 'a cmem_scheme" where
  "log_debug w logger err fmt =
     (case logger of None \<Rightarrow> w
      | Some lg \<Rightarrow> if lg_level lg < LOG_LEVEL_DEBUG then w else log_emit w lg LOG_LEVEL_DEBUG err fmt)"

definition log_printf :: "'a cmem_scheme \<Rightarrow> string \<Rightarrow> 'a cmem_scheme" where
  "log_printf w fmt = log_emit w \<lparr>lg_level = LOG_LEVEL_STDOUT, lg_file = None\<rparr> LOG_LEVEL_STDOUT 0 fmt"

definition log_stderr :: "'a cmem_scheme \<Rightarrow> int \<Rightarrow> string \<Rightarrow> 'a cmem_scheme" where
  "log_stderr w err fmt = log_emit w \<lparr>lg_level = LOG_LEVEL_STDOUT, lg_file = None\<rparr> LOG_LEVEL_STDOUT err fmt"

section \<open>Facts\<close>

text \<open>A log call touches the log and nothing else.\<close>

lemma log_emit_sel [frame_simps]:
  "cm_mem (log_emit w lg lv e f) = cm_mem w" "cm_live (log_emit w lg lv e f) = cm_live w"
  "cm_pick (log_emit w lg lv e f) = cm_pick w" "cm_calls (log_emit w lg lv e f) = cm_calls w"
  by (simp_all add: log_emit_def)

lemma log_error_sel [frame_simps]:
  "cm_mem (log_error w lg e f) = cm_mem w" "cm_live (log_error w lg e f) = cm_live w"
  "cm_pick (log_error w lg e f) = cm_pick w" "cm_calls (log_error w lg e f) = cm_calls w"
  by (simp_all add: log_error_def frame_simps split: option.splits)

lemma log_stderr_sel [frame_simps]:
  "cm_mem (log_stderr w e f) = cm_mem w" "cm_live (log_stderr w e f) = cm_live w"
  "cm_pick (log_stderr w e f) = cm_pick w" "cm_calls (log_stderr w e f) = cm_calls w"
  by (simp_all add: log_stderr_def frame_simps)

lemma log_error_live_wf [simp]: "live_wf (log_error w lg e f) = live_wf w"
  by (simp add: live_wf_def frame_simps)

lemma length_level_str: "8 \<le> length (level_str l) \<and> length (level_str l) \<le> 10"
  by (cases l) auto

section \<open>Properties\<close>

text \<open>
  C35: the log writer never truncates a message in bounds.  With the 20-byte timestamp of
  \<open>times.c\<close>, a line that fits \<open>info_str\<close> is written out completely; every longer one, which
  \<open>max_len\<close> was meant to cut short, is composed past the end of the buffer, because
  \<open>max_len\<close> leaves no room for the timestamp and the error text.
\<close>

theorem log_core_writer_exact:
  assumes "length log_time = 20" "length msg < 2147483648"
  shows "log_core_writer log_time strerr stale err lv (Some msg) =
    (let line = log_time @ level_str lv @ (if err \<noteq> 0 then strerr @ '' - '' else []) @ msg @ [LF]
     in if length line \<le> LOG_CONTENT_MAX_LEN then Inr line else Inl (Out_of_bounds LOG_CONTENT_MAX_LEN))"
proof -
  have l: "length (level_str lv) \<le> 10" using length_level_str by blast
  have n: "to_size_t (int (length msg)) = length msg" using assms(2) by (simp add: to_size_t_def)
  show ?thesis
  proof (cases "length msg < 2047 - length (level_str lv)")
    case True
    then show ?thesis by (simp add: log_core_writer_def Let_def n)
  next
    case False
    then have "length (take (2047 - length (level_str lv) - 1) msg) = 2046 - length (level_str lv)" by simp
    moreover have "\<not> length (level_str lv) + k + length msg \<le> 2027" for k using False l by linarith
    moreover have "\<not> length (level_str lv) + (length strerr + length msg) \<le> 2024" using False l by linarith
    ultimately show ?thesis using False l assms(1) by (auto simp: log_core_writer_def Let_def n)
  qed
qed

theorem log_core_writer_exact_witness:
  "length (replicate 20 NUL) = 20 \<and> length (replicate 2020 (CHR ''x'')) < 2147483648 \<and>
   log_core_writer (replicate 20 NUL) [] (\<lambda>_. NUL) 0 LOG_LEVEL_INFO (Some (replicate 2020 (CHR ''x''))) =
     Inl (Out_of_bounds 2048)"
  using log_core_writer_exact [of "replicate 20 NUL" "replicate 2020 (CHR ''x'')" "[]" "\<lambda>_. NUL" 0 LOG_LEVEL_INFO]
  by (simp add: Let_def)

end
