(* ===== verification/OSWorld.thy ===== *)
theory OSWorld
  imports Logger
begin

text \<open>
  The operating system as the program sees it.  A world is a memory state together with the
  answers the kernel gives: \<open>os_answer\<close> and \<open>os_fail\<close> hold the return value and the
  \<open>errno\<close> of the n-th system call, \<open>os_input\<close> the bytes the n-th call delivers when it is a
  \<open>read\<close>.  Each call is recorded in \<open>os_trace\<close> with its arguments and its result.  The
  answers are arbitrary, so every theorem holds for every behaviour of the kernel that
  respects the range of results of the call (\<open>write\<close> never reports more bytes than it was
  given, \<open>read\<close> never delivers more than was asked for).
\<close>

section \<open>System calls\<close>

datatype syscall =
    Sys_open "byte list" u32 nat
  | Sys_lseek int int
  | Sys_read int nat
  | Sys_write int "byte list"
  | Sys_close int
  | Sys_socket
  | Sys_setsockopt int
  | Sys_bind int nat
  | Sys_listen int nat
  | Sys_accept int
  | Sys_getfl int
  | Sys_setfl int
  | Sys_epoll_create int
  | Sys_epoll_ctl int nat int u32 addr
  | Sys_epoll_wait int int
  | Sys_fork
  | Sys_setsid
  | Sys_dup2 int int
  | Sys_getpid
  | Sys_signal string
  | Sys_sigaction string
  | Sys_kill string

record world = cmem +
  os_answer :: "nat \<Rightarrow> int"
  os_fail :: "nat \<Rightarrow> int"
  os_input :: "nat \<Rightarrow> byte list"
  os_calls :: nat
  os_errno :: int
  os_trace :: "(syscall \<times> int) list"

abbreviation (input) EINTR :: int where "EINTR \<equiv> 4"
abbreviation (input) EAGAIN :: int where "EAGAIN \<equiv> 11"

text \<open>A call \<open>s\<close> whose result is \<open>r\<close>: one more call made, one more entry in the trace.\<close>

definition os_done :: "'a world_scheme \<Rightarrow> syscall \<Rightarrow> int \<Rightarrow> 'a world_scheme" where
  "os_done w s r =
     w\<lparr>os_calls := Suc (os_calls w), os_trace := os_trace w @ [(s, r)],
       os_errno := (if r = -1 then os_fail w (os_calls w) else os_errno w)\<rparr>"

text \<open>A call that returns a number of its own, or -1.\<close>

definition os_call :: "'a world_scheme \<Rightarrow> syscall \<Rightarrow> int \<times> 'a world_scheme" where
  "os_call w s = (let r = max (-1) (os_answer w (os_calls w)) in (r, os_done w s r))"

text \<open>\<open>write\<close>: some of the bytes are accepted, or -1.\<close>

definition os_write :: "'a world_scheme \<Rightarrow> int \<Rightarrow> byte list \<Rightarrow> int \<times> 'a world_scheme" where
  "os_write w fd bs =
     (let r = max (-1) (min (os_answer w (os_calls w)) (int (length bs)))
      in (r, os_done w (Sys_write fd bs) r))"

text \<open>\<open>read\<close>: up to \<open>n\<close> bytes, or -1; no bytes is the end of the input.\<close>

definition os_read :: "'a world_scheme \<Rightarrow> int \<Rightarrow> nat \<Rightarrow> byte list option \<times> 'a world_scheme" where
  "os_read w fd n =
     (let bs = take n (os_input w (os_calls w))
      in if os_answer w (os_calls w) < 0 then (None, os_done w (Sys_read fd n) (-1))
         else (Some bs, os_done w (Sys_read fd n) (int (length bs))))"

section \<open>Facts\<close>

lemma os_done_sel [frame_simps]:
  "cm_mem (os_done w s r) = cm_mem w" "cm_live (os_done w s r) = cm_live w"
  "cm_pick (os_done w s r) = cm_pick w" "cm_calls (os_done w s r) = cm_calls w"
  "cm_log (os_done w s r) = cm_log w"
  "os_answer (os_done w s r) = os_answer w" "os_fail (os_done w s r) = os_fail w"
  "os_input (os_done w s r) = os_input w" "os_calls (os_done w s r) = Suc (os_calls w)"
  "os_trace (os_done w s r) = os_trace w @ [(s, r)]"
  by (simp_all add: os_done_def)

lemma os_done_live_wf [simp]: "live_wf (os_done w s r) = live_wf w"
  by (simp add: live_wf_def frame_simps)

lemma os_write_range: "os_write w fd bs = (n, w1) \<Longrightarrow> -1 \<le> n \<and> n \<le> int (length bs)"
  by (auto simp: os_write_def Let_def)

text \<open>The bytes that the kernel has accepted on a descriptor, in order.\<close>

fun written_to :: "int \<Rightarrow> (syscall \<times> int) list \<Rightarrow> byte list" where
  "written_to fd [] = []"
| "written_to fd ((Sys_write fd' bs, n) # tr) =
     (if fd' = fd then take (nat n) bs else []) @ written_to fd tr"
| "written_to fd (_ # tr) = written_to fd tr"

lemma written_to_append [simp]: "written_to fd (tr @ tr') = written_to fd tr @ written_to fd tr'"
  by (induction fd tr rule: written_to.induct) auto

text \<open>A world to start from.\<close>

definition demo_world :: "(nat \<Rightarrow> int) \<Rightarrow> (nat \<Rightarrow> byte list) \<Rightarrow> world" where
  "demo_world answer input = cmem.extend demo_cmem
     \<lparr>os_answer = answer, os_fail = (\<lambda>_. EAGAIN), os_input = input, os_calls = 0, os_errno = 0, os_trace = []\<rparr>"

end
