(* ===== verification/Allocator.thy ===== *)
theory Allocator
  imports CRuntime
begin

text \<open>
  The contract between an allocator and its clients: an allocation keeps the allocator's
  invariant, and a block it returns is disjoint from everything handed out before.  The
  client's side, that a whole sequence of requests yields pairwise disjoint blocks, is proved
  once here; \<open>malloc\<close> fulfils the contract below, the pool allocator in its own theory.
\<close>

text \<open>A sequence of requests.\<close>

fun alloc_list :: "('s \<Rightarrow> nat \<Rightarrow> addr \<times> 's) \<Rightarrow> 's \<Rightarrow> nat list \<Rightarrow> addr list \<times> 's" where
  "alloc_list alloc s [] = ([], s)"
| "alloc_list alloc s (n # ns) =
     (let (a, s1) = alloc s n; (as, s2) = alloc_list alloc s1 ns in (a # as, s2))"

text \<open>The bytes of an answer of the given size: none for the null pointer.\<close>

definition cells :: "addr \<times> nat \<Rightarrow> addr set" where
  "cells b = (if fst b = NULL then {} else {fst b ..< fst b + snd b})"

definition disjoint_blocks :: "(addr \<times> nat) list \<Rightarrow> bool" where
  "disjoint_blocks bs \<longleftrightarrow> sorted_wrt (\<lambda>b c. cells b \<inter> cells c = {}) bs"

lemma disjoint_blocks_nth:
  "disjoint_blocks bs \<Longrightarrow> i < j \<Longrightarrow> j < length bs \<Longrightarrow> cells (bs ! i) \<inter> cells (bs ! j) = {}"
  unfolding disjoint_blocks_def by (drule sorted_wrt_nth_less)

locale allocator =
  fixes alloc :: "'s \<Rightarrow> nat \<Rightarrow> addr \<times> 's"
    and owned :: "'s \<Rightarrow> addr set"
    and inv :: "'s \<Rightarrow> bool"
    and fits :: "'s \<Rightarrow> nat \<Rightarrow> bool"
  assumes alloc_inv: "inv s \<Longrightarrow> fits s n \<Longrightarrow> alloc s n = (a, s') \<Longrightarrow> inv s'"
    and alloc_grows: "inv s \<Longrightarrow> fits s n \<Longrightarrow> alloc s n = (a, s') \<Longrightarrow> owned s \<subseteq> owned s'"
    and alloc_fresh: "inv s \<Longrightarrow> fits s n \<Longrightarrow> alloc s n = (a, s') \<Longrightarrow>
           cells (a, n) \<inter> owned s = {} \<and> cells (a, n) \<subseteq> owned s'"
    and fits_mono: "inv s \<Longrightarrow> fits s n \<Longrightarrow> alloc s n = (a, s') \<Longrightarrow> fits s m \<Longrightarrow> fits s' m"
begin

lemma alloc_list_spec:
  assumes "inv s" "list_all (fits s) ns" "alloc_list alloc s ns = (as, s')"
  shows "inv s' \<and> owned s \<subseteq> owned s' \<and> length as = length ns \<and> disjoint_blocks (zip as ns) \<and>
     (\<forall>b \<in> set (zip as ns). cells b \<inter> owned s = {} \<and> cells b \<subseteq> owned s')"
  using assms
proof (induction ns arbitrary: s as)
  case (Cons n ns)
  obtain a s1 where a: "alloc s n = (a, s1)" by fastforce
  obtain as1 where as1: "alloc_list alloc s1 ns = (as1, s')" and as: "as = a # as1"
    using Cons.prems(3) a by (auto split: prod.splits)
  have f: "fits s n" using Cons.prems(2) by simp
  note step = alloc_inv [OF Cons.prems(1) f a] alloc_grows [OF Cons.prems(1) f a]
    alloc_fresh [OF Cons.prems(1) f a]
  have "list_all (fits s1) ns"
    using Cons.prems(2) fits_mono [OF Cons.prems(1) f a] by (auto simp: list_all_iff)
  then have IH: "inv s'" "owned s1 \<subseteq> owned s'" "length as1 = length ns"
      "disjoint_blocks (zip as1 ns)"
      "\<forall>b \<in> set (zip as1 ns). cells b \<inter> owned s1 = {} \<and> cells b \<subseteq> owned s'"
    using Cons.IH [OF step(1) _ as1] by auto
  have "\<forall>b \<in> set (zip as1 ns). cells (a, n) \<inter> cells b = {}"
    using IH(5) step(3) by blast
  then have "disjoint_blocks (zip as (n # ns))"
    using IH(4) by (simp add: as disjoint_blocks_def)
  moreover have "\<forall>b \<in> set (zip as (n # ns)). cells b \<inter> owned s = {} \<and> cells b \<subseteq> owned s'"
    using IH(2,5) step(2,3) by (simp add: as) blast
  ultimately show ?case using IH(1-3) step(2) by (auto simp: as)
qed (simp add: disjoint_blocks_def)

end

interpretation heap: allocator malloc live_set live_wf "\<lambda>w n. True"
proof (unfold_locales, goal_cases)
  case (3 w n a w')
  have "cells (a, n) \<subseteq> extent (a, n)" by (auto simp: cells_def extent_def blk_end_def)
  then show ?case
    using malloc_fresh [OF 3(3)] by (cases "a = NULL") (auto simp: cells_def)
next
  case (2 w n a w')
  then show ?case using malloc_fresh(3) [OF 2(3)]
    by (cases "a = NULL") (auto elim!: malloc_cases simp: live_set_def)
qed (auto intro: malloc_live_wf)

end
