(* ===== verification/MemPool.thy ===== *)
theory MemPool
  imports Logger Allocator
begin

text \<open>
  \<open>mem_pool.h\<close> and \<open>mem_pool.c\<close>: the region allocator.  A pool is one \<open>malloc\<close> block whose
  head is the pool structure and whose rest is the first chunk; further chunks are \<open>malloc\<close>
  blocks chained behind it, and requests above \<open>max\<close> get a \<open>malloc\<close> block of their own,
  recorded in a list of headers that live inside the pool.  The chains of \<open>next\<close> pointers are
  lists in chain order (each node carries its own address), and \<open>current\<close> is the position of
  the chunk it points to.
\<close>

section \<open>Data\<close>

abbreviation (input) MAX_SIZE_OF_CHUNK :: nat where "MAX_SIZE_OF_CHUNK \<equiv> 4096"

definition sizeof_mem_pool_t :: nat where "sizeof_mem_pool_t = 88"
definition sizeof_mem_pool_chunk_t :: nat where "sizeof_mem_pool_chunk_t = 32"
definition sizeof_mem_pool_large_t :: nat where "sizeof_mem_pool_large_t = 16"
definition offsetof_chunk :: nat where "offsetof_chunk = 56"

declare sizeof_mem_pool_t_def [sizeof_defs] sizeof_mem_pool_chunk_t_def [sizeof_defs]
  sizeof_mem_pool_large_t_def [sizeof_defs] offsetof_chunk_def [sizeof_defs]

record mem_pool_large_t =
  lg_self :: addr
  lg_data :: addr

record mem_pool_chunk_t =
  ck_self :: addr
  ck_fail :: int
  ck_last :: addr
  ck_end :: addr

record mem_pool_t =
  mp_self :: addr
  mp_name :: string_t
  mp_total :: nat
  mp_max :: nat
  mp_current :: nat
  mp_large :: "mem_pool_large_t list"
  mp_logger :: "logger_t option"
  mp_chunks :: "mem_pool_chunk_t list"

section \<open>Operations\<close>

definition mem_pool_create ::
  "'a cmem_scheme \<Rightarrow> byte list \<Rightarrow> nat \<Rightarrow> logger_t option \<Rightarrow> mem_pool_t option \<times> 'a cmem_scheme" where
  "mem_pool_create w name sz logger =
     (let (pool, w1) = malloc w sz
      in if pool = NULL then (None, log_error w1 logger 0 ''create_mem_pool failed.'')
         else (Some \<lparr>mp_self = pool, mp_name = \<lparr>str_len = length (cstr name), str_data = name\<rparr>,
                 mp_total = sz,
                 mp_max = (if sz < MAX_SIZE_OF_CHUNK then sz else MAX_SIZE_OF_CHUNK),
                 mp_current = 0, mp_large = [], mp_logger = logger,
                 mp_chunks = [\<lparr>ck_self = pool + offsetof_chunk, ck_fail = 0,
                    ck_last = pool + sizeof_mem_pool_t, ck_end = pool + sz\<rparr>]\<rparr>, w1))"

text \<open>\<open>(u_char *) chunk->end - p\<close> compared with a \<open>size_t\<close>: the difference is converted.\<close>

definition chunk_room :: "mem_pool_chunk_t \<Rightarrow> nat" where
  "chunk_room c = to_size_t (int (ck_end c) - int (ck_last c))"

text \<open>The loop of \<open>pmalloc\<close> over the chunks from \<open>current\<close> on.\<close>

fun chunk_scan :: "nat \<Rightarrow> mem_pool_chunk_t list \<Rightarrow> (addr \<times> mem_pool_chunk_t list) option" where
  "chunk_scan sz [] = None"
| "chunk_scan sz (c # cs) =
     (if sz \<le> chunk_room c then Some (ck_last c, c\<lparr>ck_last := ck_last c + sz\<rparr> # cs)
      else map_option (\<lambda>(a, cs'). (a, c # cs')) (chunk_scan sz cs))"

text \<open>
  The loop of \<open>add_mem_chunk\<close> that counts a failure on every chunk from \<open>current\<close> on and
  moves \<open>current\<close> past the ones that have failed more than four times before; \<open>i\<close> is the
  position of the head of the list.
\<close>

fun count_fails :: "nat \<Rightarrow> nat \<Rightarrow> mem_pool_chunk_t list \<Rightarrow> nat \<times> mem_pool_chunk_t list" where
  "count_fails i cur [] = (cur, [])"
| "count_fails i cur [c] = (cur, [c\<lparr>ck_fail := ck_fail c + 1\<rparr>])"
| "count_fails i cur (c # d # cs) =
     (let cur1 = (if ck_fail c > 4 then Suc i else cur);
          (cur2, cs') = count_fails (Suc i) cur1 (d # cs)
      in (cur2, c\<lparr>ck_fail := ck_fail c + 1\<rparr> # cs'))"

definition add_mem_chunk ::
  "'a cmem_scheme \<Rightarrow> mem_pool_t \<Rightarrow> nat \<Rightarrow> addr \<times> 'a cmem_scheme \<times> mem_pool_t" where
  "add_mem_chunk w pool sz =
     (let alloc_size = (if sz > mp_total pool then sz else mp_total pool);
          (new_chunk, w1) = malloc w alloc_size
      in if new_chunk = NULL then (NULL, log_error w1 (mp_logger pool) 0 ''add_mem_chunk failed.'', pool)
         else
           let new = \<lparr>ck_self = new_chunk, ck_fail = 0,
                      ck_last = new_chunk + sizeof_mem_pool_chunk_t + sz,
                      ck_end = new_chunk + alloc_size\<rparr>;
               cur = mp_current pool;
               (cur1, rest) = count_fails cur cur (drop cur (mp_chunks pool))
           in (new_chunk + sizeof_mem_pool_chunk_t, w1,
               pool\<lparr>mp_total := (mp_total pool + alloc_size) mod size_mod, mp_current := cur1,
                    mp_chunks := take cur (mp_chunks pool) @ rest @ [new]\<rparr>))"

text \<open>\<open>pmalloc\<close> for a request that is not above \<open>max\<close>.\<close>

definition pmalloc_small ::
  "'a cmem_scheme \<Rightarrow> mem_pool_t \<Rightarrow> nat \<Rightarrow> addr \<times> 'a cmem_scheme \<times> mem_pool_t" where
  "pmalloc_small w pool sz =
     (let cur = mp_current pool
      in case chunk_scan sz (drop cur (mp_chunks pool)) of
           Some (p, rest) \<Rightarrow> (p, w, pool\<lparr>mp_chunks := take cur (mp_chunks pool) @ rest\<rparr>)
         | None \<Rightarrow> add_mem_chunk w pool sz)"

text \<open>
  The loop of \<open>alloc_large_mem\<close> that reuses a header whose data has been freed; it gives up
  after five headers.
\<close>

fun reuse_large :: "nat \<Rightarrow> addr \<Rightarrow> mem_pool_large_t list \<Rightarrow> mem_pool_large_t list option" where
  "reuse_large n p [] = None"
| "reuse_large n p (l # ls) =
     (if lg_data l = NULL then Some (l\<lparr>lg_data := p\<rparr> # ls)
      else if n > 3 then None else map_option (Cons l) (reuse_large (Suc n) p ls))"

text \<open>
  \<open>alloc_large_mem\<close>.  Its header is requested from \<open>pmalloc\<close> with a size that is never
  above \<open>max\<close>, which is the branch written here; \<open>pmalloc_rec\<close> below has the recursive call
  as the code has it, and the two agree (\<open>pmalloc_rec_eq\<close>).
\<close>

definition alloc_large_mem ::
  "'a cmem_scheme \<Rightarrow> mem_pool_t \<Rightarrow> nat \<Rightarrow> addr \<times> 'a cmem_scheme \<times> mem_pool_t" where
  "alloc_large_mem w pool sz =
     (let (p, w1) = malloc w sz
      in if p = NULL then (NULL, log_error w1 (mp_logger pool) 0 ''alloc_large_mem - data failed.'', pool)
         else case reuse_large 0 p (mp_large pool) of
           Some ls \<Rightarrow> (p, w1, pool\<lparr>mp_large := ls\<rparr>)
         | None \<Rightarrow>
             (case pmalloc_small w1 pool sizeof_mem_pool_large_t of
                (hdr, w2, pool2) \<Rightarrow>
                  if hdr = NULL
                  then (NULL, free_block (log_error w2 (mp_logger pool) 0
                         ''alloc_large_mem - header failed.'') p, pool2)
                  else (p, w2, pool2\<lparr>mp_large := \<lparr>lg_self = hdr, lg_data = p\<rparr> # mp_large pool2\<rparr>)))"

definition pmalloc ::
  "'a cmem_scheme \<Rightarrow> mem_pool_t \<Rightarrow> nat \<Rightarrow> addr \<times> 'a cmem_scheme \<times> mem_pool_t" where
  "pmalloc w pool sz =
     (if sz \<le> mp_max pool then pmalloc_small w pool sz else alloc_large_mem w pool sz)"

text \<open>
  The mutual recursion as the code has it: \<open>alloc_large_mem\<close> calls \<open>pmalloc\<close> for its header.
  \<open>None\<close> is a recursion that does not end.
\<close>

partial_function (option) pmalloc_rec ::
  "'a cmem_scheme \<Rightarrow> mem_pool_t \<Rightarrow> nat \<Rightarrow> (addr \<times> 'a cmem_scheme \<times> mem_pool_t) option" where
  "pmalloc_rec w pool sz =
     (if sz \<le> mp_max pool then Some (pmalloc_small w pool sz)
      else (let (p, w1) = malloc w sz
      in if p = NULL then Some (NULL, log_error w1 (mp_logger pool) 0 ''alloc_large_mem - data failed.'', pool)
         else case reuse_large 0 p (mp_large pool) of
           Some ls \<Rightarrow> Some (p, w1, pool\<lparr>mp_large := ls\<rparr>)
         | None \<Rightarrow>
             Option.bind (pmalloc_rec w1 pool sizeof_mem_pool_large_t) (\<lambda>(hdr, w2, pool2).
                  if hdr = NULL
                  then Some (NULL, free_block (log_error w2 (mp_logger pool) 0
                         ''alloc_large_mem - header failed.'') p, pool2)
                  else Some (p, w2, pool2\<lparr>mp_large := \<lparr>lg_self = hdr, lg_data = p\<rparr> # mp_large pool2\<rparr>))))"

definition pcalloc ::
  "'a cmem_scheme \<Rightarrow> mem_pool_t \<Rightarrow> nat \<Rightarrow> addr \<times> 'a cmem_scheme \<times> mem_pool_t" where
  "pcalloc w pool sz =
     (case pmalloc w pool sz of
        (p, w1, pool1) \<Rightarrow> if p \<noteq> NULL then (p, memset w1 p NUL sz, pool1) else (p, w1, pool1))"

text \<open>\<open>pfree_large\<close>: the return code and the new pool, or the undefined \<open>free\<close>.\<close>

fun pfree_scan :: "'a cmem_scheme \<Rightarrow> addr \<Rightarrow> mem_pool_large_t list \<Rightarrow>
    ub + (int \<times> 'a cmem_scheme \<times> mem_pool_large_t list)" where
  "pfree_scan w p [] = Inr (XPE_ERROR, w, [])"
| "pfree_scan w p (l # ls) =
     (if lg_data l = p
      then (case c_free w p of Inl e \<Rightarrow> Inl e
            | Inr w1 \<Rightarrow> Inr (XPE_OK, w1, l\<lparr>lg_data := NULL\<rparr> # ls))
      else (case pfree_scan w p ls of Inl e \<Rightarrow> Inl e
            | Inr (r, w1, ls1) \<Rightarrow> Inr (r, w1, l # ls1)))"

definition pfree_large ::
  "'a cmem_scheme \<Rightarrow> mem_pool_t \<Rightarrow> addr \<Rightarrow> ub + (int \<times> 'a cmem_scheme \<times> mem_pool_t)" where
  "pfree_large w pool p =
     (case pfree_scan w p (mp_large pool) of Inl e \<Rightarrow> Inl e
      | Inr (r, w1, ls) \<Rightarrow> Inr (r, w1, pool\<lparr>mp_large := ls\<rparr>))"

text \<open>The two loops of \<open>mem_pool_destroy\<close>, which unlink and free one node at a time.\<close>

fun free_larges :: "'a cmem_scheme \<Rightarrow> mem_pool_large_t list \<Rightarrow> ub + 'a cmem_scheme" where
  "free_larges w [] = Inr w"
| "free_larges w (l # ls) =
     (case c_free w (lg_self l) of Inl e \<Rightarrow> Inl e | Inr w1 \<Rightarrow> free_larges w1 ls)"

fun free_chunks :: "'a cmem_scheme \<Rightarrow> mem_pool_chunk_t list \<Rightarrow> ub + 'a cmem_scheme" where
  "free_chunks w [] = Inr w"
| "free_chunks w (c # cs) =
     (case c_free w (ck_self c) of Inl e \<Rightarrow> Inl e | Inr w1 \<Rightarrow> free_chunks w1 cs)"

definition mem_pool_destroy :: "'a cmem_scheme \<Rightarrow> mem_pool_t \<Rightarrow> ub + 'a cmem_scheme" where
  "mem_pool_destroy w pool =
     (case free_larges w (mp_large pool) of Inl e \<Rightarrow> Inl e
      | Inr w1 \<Rightarrow>
          (case free_chunks w1 (tl (mp_chunks pool)) of Inl e \<Rightarrow> Inl e
           | Inr w2 \<Rightarrow> c_free w2 (mp_self pool)))"

definition reset_chunk :: "mem_pool_chunk_t \<Rightarrow> mem_pool_chunk_t" where
  "reset_chunk c = c\<lparr>ck_fail := 0, ck_last := ck_self c + sizeof_mem_pool_chunk_t\<rparr>"

definition mem_pool_clear :: "'a cmem_scheme \<Rightarrow> mem_pool_t \<Rightarrow> ub + ('a cmem_scheme \<times> mem_pool_t)" where
  "mem_pool_clear w pool =
     (case free_larges w (mp_large pool) of Inl e \<Rightarrow> Inl e
      | Inr w1 \<Rightarrow>
          Inr (w1, pool\<lparr>mp_large := [], mp_current := 0,
                        mp_chunks := map reset_chunk (mp_chunks pool)\<rparr>))"

section \<open>Invariant\<close>

text \<open>The \<open>malloc\<close> blocks that hold the pool's chunks; the first one starts with the pool.\<close>

definition chunk_bounds :: "mem_pool_chunk_t \<Rightarrow> addr \<times> addr" where
  "chunk_bounds c = (ck_self c, ck_end c)"

definition blocks_of :: "addr \<Rightarrow> (addr \<times> addr) list \<Rightarrow> block list" where
  "blocks_of self bs = (self, snd (hd bs) - self) # map (\<lambda>(s, e). (s, e - s)) (tl bs)"

definition pool_blocks :: "mem_pool_t \<Rightarrow> block list" where
  "pool_blocks p = blocks_of (mp_self p) (map chunk_bounds (mp_chunks p))"

text \<open>The bytes a chunk has handed out, and those of all chunks.\<close>

definition chunk_used :: "mem_pool_chunk_t \<Rightarrow> addr set" where
  "chunk_used c = {ck_self c + sizeof_mem_pool_chunk_t ..< ck_last c}"

definition pool_used :: "mem_pool_t \<Rightarrow> addr set" where
  "pool_used p = (\<Union>c \<in> set (mp_chunks p). chunk_used c)"

text \<open>The live blocks of large requests, and everything the pool has handed out.\<close>

definition large_blocks :: "'a cmem_scheme \<Rightarrow> mem_pool_t \<Rightarrow> block set" where
  "large_blocks w p = {b \<in> set (cm_live w). fst b \<in> lg_data ` set (mp_large p)}"

definition pool_owned :: "'a cmem_scheme \<Rightarrow> mem_pool_t \<Rightarrow> addr set" where
  "pool_owned w p = pool_used p \<union> \<Union> (extent ` large_blocks w p)"

definition chunk_wf :: "mem_pool_chunk_t \<Rightarrow> bool" where
  "chunk_wf c \<longleftrightarrow> ck_self c + sizeof_mem_pool_chunk_t \<le> ck_last c \<and> ck_last c \<le> ck_end c"

definition chunks_wf :: "'a cmem_scheme \<Rightarrow> mem_pool_t \<Rightarrow> bool" where
  "chunks_wf w p \<longleftrightarrow>
     live_wf w \<and> mp_current p < length (mp_chunks p) \<and> list_all chunk_wf (mp_chunks p) \<and>
     ck_self (hd (mp_chunks p)) = mp_self p + offsetof_chunk \<and>
     set (pool_blocks p) \<subseteq> set (cm_live w) \<and> distinct (pool_blocks p) \<and>
     mp_total p = sum_list (map snd (pool_blocks p)) \<and>
     sizeof_mem_pool_t \<le> mp_max p \<and> mp_max p \<le> MAX_SIZE_OF_CHUNK \<and> mp_max p \<le> mp_total p"

definition large_ok :: "'a cmem_scheme \<Rightarrow> mem_pool_t \<Rightarrow> mem_pool_large_t \<Rightarrow> bool" where
  "large_ok w p l \<longleftrightarrow> 0 < lg_self l \<and>
     {lg_self l ..< lg_self l + sizeof_mem_pool_large_t} \<subseteq> pool_used p \<and>
     (lg_data l \<noteq> NULL \<longrightarrow>
        lg_data l \<in> fst ` set (cm_live w) \<and> lg_data l \<notin> fst ` set (pool_blocks p))"

definition larges_wf :: "'a cmem_scheme \<Rightarrow> mem_pool_t \<Rightarrow> bool" where
  "larges_wf w p \<longleftrightarrow> list_all (large_ok w p) (mp_large p) \<and>
     distinct (filter (\<lambda>a. a \<noteq> NULL) (map lg_data (mp_large p)))"

definition pool_wf :: "'a cmem_scheme \<Rightarrow> mem_pool_t \<Rightarrow> bool" where
  "pool_wf w p \<longleftrightarrow> chunks_wf w p \<and> larges_wf w p"

text \<open>
  A request that \<open>add_mem_chunk\<close> can serve inside the block it allocates: the chunk header
  and the request must fit \<open>total\<close> bytes.
\<close>

definition request_fits :: "mem_pool_t \<Rightarrow> nat \<Rightarrow> bool" where
  "request_fits p sz \<longleftrightarrow> (sz \<le> mp_max p \<longrightarrow> sz + sizeof_mem_pool_chunk_t \<le> mp_total p)"

section \<open>Chunks\<close>

lemma length_pool_blocks: "mp_chunks p \<noteq> [] \<Longrightarrow> length (pool_blocks p) = length (mp_chunks p)"
  by (cases "mp_chunks p") (auto simp: pool_blocks_def blocks_of_def)

lemma pool_blocks_nth:
  assumes "i < length (mp_chunks p)"
  shows "pool_blocks p ! i =
    (let c = mp_chunks p ! i; b = (if i = 0 then mp_self p else ck_self c) in (b, ck_end c - b))"
  using assms
  by (cases "mp_chunks p"; cases i) (auto simp: pool_blocks_def blocks_of_def chunk_bounds_def Let_def)

lemma pool_blocks_cong:
  "map chunk_bounds (mp_chunks p) = map chunk_bounds (mp_chunks q) \<Longrightarrow> mp_self p = mp_self q \<Longrightarrow>
   pool_blocks p = pool_blocks q"
  by (simp add: pool_blocks_def)

lemma chunk_bounds_upd [simp]:
  "chunk_bounds (c\<lparr>ck_last := a\<rparr>) = chunk_bounds c" "chunk_bounds (c\<lparr>ck_fail := f\<rparr>) = chunk_bounds c"
  "chunk_used (c\<lparr>ck_fail := f\<rparr>) = chunk_used c" "chunk_wf (c\<lparr>ck_fail := f\<rparr>) = chunk_wf c"
  by (simp_all add: chunk_bounds_def chunk_used_def chunk_wf_def)

lemma chunks_wfD:
  assumes "chunks_wf w p"
  shows "live_wf w" "mp_chunks p \<noteq> []" "mp_current p < length (mp_chunks p)"
    "c \<in> set (mp_chunks p) \<Longrightarrow> chunk_wf c"
    "set (pool_blocks p) \<subseteq> set (cm_live w)" "distinct (pool_blocks p)"
    "mp_total p = sum_list (map snd (pool_blocks p))"
    "sizeof_mem_pool_t \<le> mp_max p" "mp_max p \<le> MAX_SIZE_OF_CHUNK" "mp_max p \<le> mp_total p"
    "ck_self (hd (mp_chunks p)) = mp_self p + offsetof_chunk"
  using assms by (auto simp: chunks_wf_def list_all_iff)

text \<open>The data area of a chunk, from behind its header to its end, lies in its block.\<close>

lemma chunk_area:
  assumes "chunks_wf w p" "i < length (mp_chunks p)"
  shows "{ck_self (mp_chunks p ! i) + sizeof_mem_pool_chunk_t ..< ck_end (mp_chunks p ! i)}
      \<subseteq> extent (pool_blocks p ! i)"
    and "pool_blocks p ! i \<in> set (cm_live w)"
proof -
  note D = chunks_wfD [OF assms(1)]
  have i: "i < length (pool_blocks p)" using assms(2) D(2) by (simp add: length_pool_blocks)
  then show "pool_blocks p ! i \<in> set (cm_live w)" using D(5) nth_mem by blast
  have "chunk_wf (mp_chunks p ! i)" using D(4) assms(2) by simp
  moreover have "ck_self (mp_chunks p ! 0) = mp_self p + offsetof_chunk"
    using D(2,11) by (simp add: hd_conv_nth)
  ultimately show "{ck_self (mp_chunks p ! i) + sizeof_mem_pool_chunk_t ..< ck_end (mp_chunks p ! i)}
      \<subseteq> extent (pool_blocks p ! i)"
    using assms(2) by (auto simp: pool_blocks_nth Let_def extent_def blk_end_def chunk_wf_def)
qed

lemma chunk_areas_disjoint:
  assumes "chunks_wf w p" "i < length (mp_chunks p)" "j < length (mp_chunks p)" "i \<noteq> j"
  shows "extent (pool_blocks p ! i) \<inter> extent (pool_blocks p ! j) = {}"
proof -
  note D = chunks_wfD [OF assms(1)]
  have "pool_blocks p ! i \<noteq> pool_blocks p ! j"
    using D(2,6) assms(2-4) by (simp add: nth_eq_iff_index_eq length_pool_blocks)
  then show ?thesis
    using live_wfD(4) [OF D(1)] chunk_area(2) [OF assms(1)] assms(2,3) by blast
qed

lemma chunk_used_area: "chunk_wf c \<Longrightarrow> chunk_used c \<subseteq> {ck_self c + sizeof_mem_pool_chunk_t ..< ck_end c}"
  by (auto simp: chunk_used_def chunk_wf_def)

lemma pool_used_blocks: "chunks_wf w p \<Longrightarrow> pool_used p \<subseteq> \<Union> (extent ` set (pool_blocks p))"
proof
  fix x assume wf: "chunks_wf w p" and "x \<in> pool_used p"
  then obtain i where i: "i < length (mp_chunks p)" "x \<in> chunk_used (mp_chunks p ! i)"
    by (auto simp: pool_used_def in_set_conv_nth)
  then have "x \<in> extent (pool_blocks p ! i)"
    using chunk_area(1) [OF wf i(1)] chunk_used_area chunks_wfD(4) [OF wf] nth_mem by blast
  moreover have "pool_blocks p ! i \<in> set (pool_blocks p)"
    using i(1) chunks_wfD(2) [OF wf] by (simp add: length_pool_blocks)
  ultimately show "x \<in> \<Union> (extent ` set (pool_blocks p))" by blast
qed

lemma pool_used_live:
  assumes "chunks_wf w p"
  shows "pool_used p \<subseteq> live_set w"
  using pool_used_blocks [OF assms] chunks_wfD(5) [OF assms] unfolding live_set_def by blast

text \<open>Without overflow the converted pointer difference is the room left.\<close>

lemma chunk_room_eq:
  assumes "chunk_wf c" "ck_end c \<le> addr_top"
  shows "chunk_room c = ck_end c - ck_last c"
proof -
  have "0 \<le> int (ck_end c) - int (ck_last c)" "int (ck_end c) - int (ck_last c) < int size_mod"
    using assms by (auto simp: chunk_wf_def addr_top_def)
  then show ?thesis using assms(1) by (simp add: chunk_room_def to_size_t_nonneg chunk_wf_def)
qed

lemma chunk_scan_Some:
  assumes "chunk_scan sz cs = Some (a, cs')" "\<And>c. c \<in> set cs \<Longrightarrow> chunk_wf c \<and> ck_end c \<le> addr_top"
  shows "\<exists>i < length cs. a = ck_last (cs ! i) \<and> ck_last (cs ! i) + sz \<le> ck_end (cs ! i) \<and>
    cs' = cs[i := (cs ! i)\<lparr>ck_last := ck_last (cs ! i) + sz\<rparr>]"
  using assms
proof (induction cs arbitrary: cs')
  case (Cons c cs)
  have c: "chunk_wf c" "chunk_room c = ck_end c - ck_last c"
    using Cons.prems(2) [of c] chunk_room_eq by auto
  show ?case
  proof (cases "sz \<le> chunk_room c")
    case True
    with Cons.prems(1) c show ?thesis by (intro exI [of _ 0]) (auto simp: chunk_wf_def)
  next
    case False
    with Cons.prems(1) obtain cs1 where cs1: "chunk_scan sz cs = Some (a, cs1)" "cs' = c # cs1" by auto
    then obtain i where "i < length cs" "a = ck_last (cs ! i)" "ck_last (cs ! i) + sz \<le> ck_end (cs ! i)"
      "cs1 = cs[i := (cs ! i)\<lparr>ck_last := ck_last (cs ! i) + sz\<rparr>]"
      using Cons.IH [OF cs1(1)] Cons.prems(2) by auto
    then show ?thesis using cs1(2) by (intro exI [of _ "Suc i"]) auto
  qed
qed simp

lemma chunk_scan_None:
  "chunk_scan sz cs = None \<longleftrightarrow> (\<forall>c \<in> set cs. chunk_room c < sz)"
  by (induction cs) auto

lemma count_fails_spec:
  "count_fails i cur cs = (cur', cs') \<Longrightarrow>
   cs' = map (\<lambda>c. c\<lparr>ck_fail := ck_fail c + 1\<rparr>) cs \<and> (cur' = cur \<or> (i < cur' \<and> cur' < i + length cs))"
proof (induction i cur cs arbitrary: cur' cs' rule: count_fails.induct)
  case (3 i cur c d cs)
  obtain cur2 cs2 where r: "count_fails (Suc i) (if ck_fail c > 4 then Suc i else cur) (d # cs) = (cur2, cs2)"
    by fastforce
  with "3.IH" [OF refl r] "3.prems" show ?case by (auto simp: Let_def split: if_splits)
qed auto

lemma chunk_end_top:
  assumes "chunks_wf w p" "c \<in> set (mp_chunks p)"
  shows "ck_end c \<le> addr_top"
proof -
  obtain i where i: "i < length (mp_chunks p)" "c = mp_chunks p ! i"
    using assms(2) by (auto simp: in_set_conv_nth)
  have "blk_end (pool_blocks p ! i) \<le> addr_top"
    using live_wfD(3) [OF chunks_wfD(1) [OF assms(1)]] chunk_area(2) [OF assms(1) i(1)] by blast
  then show ?thesis using i by (auto simp: pool_blocks_nth Let_def blk_end_def split: if_splits)
qed

section \<open>Small requests\<close>

lemma pool_used_update:
  assumes "i < length cs" "chunk_wf (cs ! i)"
  shows "(\<Union>c \<in> set (cs[i := (cs ! i)\<lparr>ck_last := ck_last (cs ! i) + sz\<rparr>]). chunk_used c) =
    (\<Union>c \<in> set cs. chunk_used c) \<union> {ck_last (cs ! i) ..< ck_last (cs ! i) + sz}"
proof -
  let ?c = "(cs ! i)\<lparr>ck_last := ck_last (cs ! i) + sz\<rparr>"
  have u: "chunk_used ?c = chunk_used (cs ! i) \<union> {ck_last (cs ! i) ..< ck_last (cs ! i) + sz}"
    using assms(2) by (auto simp: chunk_used_def chunk_wf_def)
  have "set cs = insert (cs ! i) (set (take i cs) \<union> set (drop (Suc i) cs))"
    using id_take_nth_drop [OF assms(1)] by (metis Un_insert_right list.simps(15) set_append)
  moreover have "set (cs[i := ?c]) = insert ?c (set (take i cs) \<union> set (drop (Suc i) cs))"
    using assms(1) by (simp add: upd_conv_take_nth_drop)
  ultimately show ?thesis using u by auto
qed

text \<open>The bytes between \<open>last\<close> and \<open>end\<close> of a chunk are outside everything handed out.\<close>

lemma room_area:
  assumes wf: "chunks_wf w p" and j: "j < length (mp_chunks p)"
  defines "c \<equiv> mp_chunks p ! j"
  shows "{ck_last c ..< ck_end c} \<subseteq> extent (pool_blocks p ! j)"
  using chunk_area(1) [OF wf j] chunks_wfD(4) [OF wf, of c] j by (force simp: chunk_wf_def c_def)

lemma room_disjoint:
  assumes wf: "chunks_wf w p" and j: "j < length (mp_chunks p)"
  defines "c \<equiv> mp_chunks p ! j"
  shows "{ck_last c ..< ck_end c} \<inter> pool_used p = {}"
proof -
  have "{ck_last c ..< ck_end c} \<inter> chunk_used d = {}" if d: "d \<in> set (mp_chunks p)" for d
  proof -
    obtain k where k: "k < length (mp_chunks p)" "d = mp_chunks p ! k"
      using d by (auto simp: in_set_conv_nth)
    show ?thesis
    proof (cases "k = j")
      case True then show ?thesis using k by (auto simp: chunk_used_def c_def)
    next
      case False
      have "chunk_used d \<subseteq> extent (pool_blocks p ! k)"
        using chunk_area(1) [OF wf k(1)] chunk_used_area [of d] chunks_wfD(4) [OF wf d] k(2) by blast
      then show ?thesis
        using chunk_areas_disjoint [OF wf k(1) j False] room_area [OF wf j] c_def by blast
    qed
  qed
  then show ?thesis by (auto simp: pool_used_def)
qed

text \<open>Moving \<open>last\<close> of one chunk up within its end.\<close>

lemma bump_last_wf:
  assumes wf: "chunks_wf w p" and j: "j < length (mp_chunks p)"
    and fits: "ck_last (mp_chunks p ! j) + sz \<le> ck_end (mp_chunks p ! j)"
    and p': "p' = p\<lparr>mp_chunks := (mp_chunks p)[j := (mp_chunks p ! j)\<lparr>ck_last := ck_last (mp_chunks p ! j) + sz\<rparr>]\<rparr>"
  shows "chunks_wf w p' \<and> pool_blocks p' = pool_blocks p"
proof -
  let ?cs = "mp_chunks p" and ?c = "mp_chunks p ! j"
  note D = chunks_wfD [OF wf]
  have "map chunk_bounds (mp_chunks p') = map chunk_bounds ?cs"
    using j by (simp add: p' map_update list_update_same_conv)
  then have blocks: "pool_blocks p' = pool_blocks p" by (intro pool_blocks_cong) (simp_all add: p')
  have "chunk_wf ?c" using D(4) j by simp
  then have "chunk_wf (?c\<lparr>ck_last := ck_last ?c + sz\<rparr>)" using fits by (simp add: chunk_wf_def)
  then have all: "list_all chunk_wf (mp_chunks p')"
    using D(4) by (auto simp: p' list_all_iff dest!: set_update_subset_insert [THEN subsetD])
  have hd: "ck_self (hd (mp_chunks p')) = ck_self (hd ?cs)"
    using D(2) j by (cases ?cs; cases j) (auto simp: p')
  have "length (mp_chunks p') = length ?cs" "mp_current p' = mp_current p" "mp_self p' = mp_self p"
    "mp_total p' = mp_total p" "mp_max p' = mp_max p" by (simp_all add: p')
  with wf all hd blocks show ?thesis by (simp add: chunks_wf_def)
qed

text \<open>
  A request served from an existing chunk: one chunk's \<open>last\<close> moves up by the size, within
  its end, and the bytes are outside everything handed out before.
\<close>

definition grants :: "'a cmem_scheme \<Rightarrow> mem_pool_t \<Rightarrow> addr \<Rightarrow> nat \<Rightarrow> 'a cmem_scheme \<Rightarrow> mem_pool_t \<Rightarrow> bool" where
  "grants w p a sz w' p' \<longleftrightarrow> 0 < a \<and> chunks_wf w' p' \<and> pool_used p' = pool_used p \<union> {a ..< a + sz} \<and>
     {a ..< a + sz} \<inter> pool_used p = {} \<and> {a ..< a + sz} \<subseteq> live_set w' \<and>
     set (cm_live w) \<subseteq> set (cm_live w') \<and>
     (\<forall>b \<in> set (pool_blocks p') - set (pool_blocks p). extent b \<inter> live_set w = {}) \<and>
     mp_total p \<le> mp_total p' \<and> mp_max p' = mp_max p \<and> mp_large p' = mp_large p"

lemma scan_spec:
  assumes wf: "chunks_wf w p"
    and scan: "chunk_scan sz (drop (mp_current p) (mp_chunks p)) = Some (a, rest)"
    and p': "p' = p\<lparr>mp_chunks := take (mp_current p) (mp_chunks p) @ rest\<rparr>"
  shows "grants w p a sz w p'"
proof -
  let ?cs = "mp_chunks p" and ?cur = "mp_current p"
  note D = chunks_wfD [OF wf]
  have "chunk_wf c \<and> ck_end c \<le> addr_top" if "c \<in> set (drop ?cur ?cs)" for c
    using that D(4) chunk_end_top [OF wf] by (auto dest: in_set_dropD)
  then obtain i where i: "i < length (drop ?cur ?cs)" "a = ck_last (drop ?cur ?cs ! i)"
    "ck_last (drop ?cur ?cs ! i) + sz \<le> ck_end (drop ?cur ?cs ! i)"
    "rest = (drop ?cur ?cs)[i := (drop ?cur ?cs ! i)\<lparr>ck_last := ck_last (drop ?cur ?cs ! i) + sz\<rparr>]"
    using chunk_scan_Some [OF scan] by auto
  define j where "j = ?cur + i"
  have j: "j < length ?cs" and nth: "drop ?cur ?cs ! i = ?cs ! j"
    using i(1) D(3) by (auto simp: j_def)
  have p'2: "p' = p\<lparr>mp_chunks := ?cs[j := (?cs ! j)\<lparr>ck_last := ck_last (?cs ! j) + sz\<rparr>]\<rparr>"
    using i(4) D(3) by (simp add: p' nth j_def take_drop_update)
  have a: "a = ck_last (?cs ! j)" and fits: "ck_last (?cs ! j) + sz \<le> ck_end (?cs ! j)"
    using i(2,3) nth by auto
  have cwf: "chunk_wf (?cs ! j)" using D(4) j by simp
  have sub: "{a ..< a + sz} \<subseteq> {ck_last (?cs ! j) ..< ck_end (?cs ! j)}" using a fits by auto
  have "pool_used p' = pool_used p \<union> {a ..< a + sz}"
    using pool_used_update [OF j cwf] by (simp add: pool_used_def p'2 a)
  moreover have "{a ..< a + sz} \<subseteq> live_set w"
    using sub room_area [OF wf j] chunk_area(2) [OF wf j] unfolding live_set_def by blast
  moreover have "0 < a" using cwf a by (auto simp: chunk_wf_def sizeof_defs)
  moreover have "{a ..< a + sz} \<inter> pool_used p = {}" using sub room_disjoint [OF wf j] by blast
  moreover have "mp_total p' = mp_total p" "mp_max p' = mp_max p" "mp_large p' = mp_large p"
    by (simp_all add: p')
  ultimately show ?thesis
    using bump_last_wf [OF wf j fits p'2] by (auto simp: grants_def)
qed

text \<open>A request that needs a new chunk.\<close>

lemma blocks_of_snoc: "bs \<noteq> [] \<Longrightarrow> blocks_of s (bs @ [(a, e)]) = blocks_of s bs @ [(a, e - a)]"
  by (simp add: blocks_of_def)

lemma sorted_wrt_apart_subset:
  "distinct bs \<Longrightarrow> set bs \<subseteq> set cs \<Longrightarrow> sorted_wrt apart cs \<Longrightarrow> sorted_wrt apart bs"
  by (induction bs) (auto dest: sorted_wrt_apartD)

lemma pool_total_bound:
  assumes "live_wf w" "distinct bs" "set bs \<subseteq> set (cm_live w)"
  shows "sum_list (map snd bs) \<le> addr_top"
proof (rule sum_sizes_bounded)
  show "sorted_wrt apart bs"
    using sorted_wrt_apart_subset [OF assms(2,3)] live_wfD(1) [OF assms(1)] by simp
  show "\<forall>b \<in> set bs. blk_end b \<le> addr_top" using assms(3) live_wfD(3) [OF assms(1)] by blast
qed

text \<open>The chunks after \<open>add_mem_chunk\<close> has counted a failure on each one from position \<open>k\<close> on.\<close>

definition fail_from :: "nat \<Rightarrow> mem_pool_chunk_t list \<Rightarrow> mem_pool_chunk_t list" where
  "fail_from k cs = take k cs @ map (\<lambda>c. c\<lparr>ck_fail := ck_fail c + 1\<rparr>) (drop k cs)"

lemma fail_from_frame:
  "length (fail_from k cs) = length cs"
  "map chunk_bounds (fail_from k cs) = map chunk_bounds cs"
  "(\<Union>c \<in> set (fail_from k cs). chunk_used c) = (\<Union>c \<in> set cs. chunk_used c)"
  "list_all chunk_wf (fail_from k cs) = list_all chunk_wf cs"
  "cs \<noteq> [] \<Longrightarrow> ck_self (hd (fail_from k cs)) = ck_self (hd cs)"
proof -
  have split: "set cs = set (take k cs) \<union> set (drop k cs)"
    by (metis append_take_drop_id set_append)
  show "length (fail_from k cs) = length cs" by (simp add: fail_from_def)
  show "map chunk_bounds (fail_from k cs) = map chunk_bounds cs"
    using map_append [of chunk_bounds "take k cs" "drop k cs"] by (simp add: fail_from_def comp_def)
  show "(\<Union>c \<in> set (fail_from k cs). chunk_used c) = (\<Union>c \<in> set cs. chunk_used c)"
    unfolding split by (simp add: fail_from_def)
  show "list_all chunk_wf (fail_from k cs) = list_all chunk_wf cs"
    unfolding list_all_iff split by (simp add: fail_from_def ball_Un)
  show "cs \<noteq> [] \<Longrightarrow> ck_self (hd (fail_from k cs)) = ck_self (hd cs)"
    by (cases cs; cases k) (auto simp: fail_from_def)
qed

definition new_chunk :: "addr \<Rightarrow> nat \<Rightarrow> nat \<Rightarrow> mem_pool_chunk_t" where
  "new_chunk a sz t = \<lparr>ck_self = a, ck_fail = 0, ck_last = a + sizeof_mem_pool_chunk_t + sz,
     ck_end = a + t\<rparr>"

text \<open>What \<open>add_mem_chunk\<close> does when \<open>malloc\<close> succeeds and the request is not above \<open>total\<close>.\<close>

lemma add_mem_chunk_cases:
  assumes "add_mem_chunk w p sz = (a, w', p')" "sz \<le> mp_total p" "mp_current p < length (mp_chunks p)"
  obtains (fail) "a = NULL" "p' = p" "cm_live w' = cm_live w" "cm_mem w' = cm_mem w"
  | (ok) nc cur where "malloc w (mp_total p) = (nc, w')" "nc \<noteq> NULL" "a = nc + sizeof_mem_pool_chunk_t"
      "mp_current p \<le> cur" "cur < length (mp_chunks p)"
      "p' = p\<lparr>mp_total := (mp_total p + mp_total p) mod size_mod, mp_current := cur,
         mp_chunks := fail_from (mp_current p) (mp_chunks p) @ [new_chunk nc sz (mp_total p)]\<rparr>"
proof -
  let ?cur = "mp_current p" and ?cs = "mp_chunks p"
  obtain nc w1 where m: "malloc w (mp_total p) = (nc, w1)" by fastforce
  obtain cur rest where cf: "count_fails ?cur ?cur (drop ?cur ?cs) = (cur, rest)" by fastforce
  note cf_spec = count_fails_spec [OF cf]
  show ?thesis
  proof (cases "nc = NULL")
    case True
    with assms(1,2) m show ?thesis
      by (intro fail) (auto simp: add_mem_chunk_def Let_def frame_simps elim!: malloc_cases)
  next
    case False
    with assms(1,2) m cf cf_spec show ?thesis
      by (intro ok [of nc cur])
        (use assms(3) in \<open>auto simp: add_mem_chunk_def Let_def new_chunk_def fail_from_def\<close>)
  qed
qed

lemma add_chunk_view:
  assumes "mp_chunks p \<noteq> []"
    and p': "p' = p\<lparr>mp_total := t', mp_current := cur,
      mp_chunks := fail_from k (mp_chunks p) @ [new_chunk nc sz t]\<rparr>"
  shows "pool_blocks p' = pool_blocks p @ [(nc, t)]"
    "pool_used p' = pool_used p \<union> {nc + sizeof_mem_pool_chunk_t ..< nc + sizeof_mem_pool_chunk_t + sz}"
    "list_all chunk_wf (mp_chunks p) \<Longrightarrow> sz + sizeof_mem_pool_chunk_t \<le> t \<Longrightarrow> list_all chunk_wf (mp_chunks p')"
    "ck_self (hd (mp_chunks p')) = ck_self (hd (mp_chunks p))"
    "length (mp_chunks p') = Suc (length (mp_chunks p))"
proof -
  have bounds: "map chunk_bounds (mp_chunks p') = map chunk_bounds (mp_chunks p) @ [(nc, nc + t)]"
    by (simp add: p' fail_from_frame new_chunk_def) (simp add: chunk_bounds_def)
  show "pool_blocks p' = pool_blocks p @ [(nc, t)]"
    using assms(1) by (simp add: pool_blocks_def bounds blocks_of_snoc) (simp add: p')
  show "pool_used p' = pool_used p \<union> {nc + sizeof_mem_pool_chunk_t ..< nc + sizeof_mem_pool_chunk_t + sz}"
    by (simp add: pool_used_def p' fail_from_frame) (auto simp: new_chunk_def chunk_used_def)
  show "list_all chunk_wf (mp_chunks p) \<Longrightarrow> sz + sizeof_mem_pool_chunk_t \<le> t \<Longrightarrow> list_all chunk_wf (mp_chunks p')"
    by (simp add: p' fail_from_frame) (simp add: new_chunk_def chunk_wf_def)
  show "ck_self (hd (mp_chunks p')) = ck_self (hd (mp_chunks p))"
    using assms(1) fail_from_frame(5) [OF assms(1), of k] fail_from_frame(1) [of k "mp_chunks p"]
    by (cases "fail_from k (mp_chunks p)") (auto simp: p')
  show "length (mp_chunks p') = Suc (length (mp_chunks p))" by (simp add: p' fail_from_frame)
qed

lemma add_mem_chunk_spec:
  assumes wf: "chunks_wf w p" and sz: "sz + sizeof_mem_pool_chunk_t \<le> mp_total p"
    and add: "add_mem_chunk w p sz = (a, w', p')"
  shows "(a = NULL \<and> p' = p \<and> cm_live w' = cm_live w \<and> cm_mem w' = cm_mem w) \<or> grants w p a sz w' p'"
proof -
  note D = chunks_wfD [OF wf]
  have sz1: "sz \<le> mp_total p" using sz by simp
  from add sz1 D(3) show ?thesis
  proof (cases rule: add_mem_chunk_cases)
    case fail
    then show ?thesis by simp
  next
    case (ok nc cur)
    let ?t = "mp_total p"
    note F = malloc_fresh [OF ok(1,2)] and M = malloc_frame [OF ok(1)]
    note V = add_chunk_view [OF D(2) ok(6)]
    have "(nc, ?t) \<notin> set (cm_live w)" using F(2) by (auto simp: live_set_def)
    then have live: "live_wf w'" "set (pool_blocks p') \<subseteq> set (cm_live w')" "distinct (pool_blocks p')"
      using malloc_live_wf [OF D(1) ok(1)] D(5,6) M(4) F(1) by (auto simp: V(1))
    then have "?t + ?t \<le> addr_top"
      using pool_total_bound [OF live(1,3,2)] D(7) by (simp add: V(1))
    then have total: "mp_total p' = ?t + ?t" by (simp add: ok(6) addr_top_def)
    have sel: "mp_self p' = mp_self p" "mp_max p' = mp_max p" "mp_large p' = mp_large p"
      "mp_current p' < length (mp_chunks p')"
      using ok(5) V(5) by (simp_all add: ok(6))
    have "chunks_wf w' p'"
      using live V(3,4) sz sel D(7-11) total wf by (auto simp: chunks_wf_def V(1))
    moreover have sub: "{a ..< a + sz} \<subseteq> extent (nc, ?t)"
      using sz by (auto simp: ok(3) extent_def blk_end_def)
    moreover have "{a ..< a + sz} \<inter> pool_used p = {}"
      using sub F(2) pool_used_live [OF wf] by blast
    moreover have "0 < a" using ok(2,3) by simp
    ultimately have "grants w p a sz w' p'"
      using F(2,3) M(4) V(2) total sel(2,3) by (auto simp: grants_def V(1) ok(3))
    then show ?thesis ..
  qed
qed

lemma pmalloc_small_spec:
  assumes "chunks_wf w p" "sz + sizeof_mem_pool_chunk_t \<le> mp_total p" "pmalloc_small w p sz = (a, w', p')"
  shows "(a = NULL \<and> p' = p \<and> cm_live w' = cm_live w \<and> cm_mem w' = cm_mem w) \<or> grants w p a sz w' p'"
proof (cases "chunk_scan sz (drop (mp_current p) (mp_chunks p))")
  case None
  with assms show ?thesis by (intro add_mem_chunk_spec) (auto simp: pmalloc_small_def Let_def)
next
  case (Some r)
  then obtain rest where "r = (a, rest)" "w' = w"
    "p' = p\<lparr>mp_chunks := take (mp_current p) (mp_chunks p) @ rest\<rparr>"
    using assms(3) by (auto simp: pmalloc_small_def Let_def split: prod.splits)
  with scan_spec [OF assms(1)] Some show ?thesis by blast
qed

section \<open>Large requests\<close>

lemma distinct_filter_update:
  "distinct (filter P xs) \<Longrightarrow> d \<notin> set xs \<Longrightarrow> distinct (filter P (xs[i := d]))"
proof (induction xs arbitrary: i)
  case (Cons x xs)
  then show ?case
    by (cases i) (auto split: if_splits dest!: set_update_subset_insert [THEN subsetD])
qed simp

lemma reuse_large_Some:
  "reuse_large n d ls = Some ls' \<Longrightarrow>
   \<exists>i < length ls. lg_data (ls ! i) = NULL \<and> ls' = ls[i := (ls ! i)\<lparr>lg_data := d\<rparr>]"
proof (induction n d ls arbitrary: ls' rule: reuse_large.induct)
  case (2 n d l ls)
  show ?case
  proof (cases "lg_data l = NULL")
    case True
    with "2.prems" show ?thesis by (intro exI [of _ 0]) auto
  next
    case False
    with "2.prems" obtain ls1 where "reuse_large (Suc n) d ls = Some ls1" "ls' = l # ls1" "\<not> n > 3"
      by (auto split: if_splits)
    with "2.IH" False obtain i where "i < length ls" "lg_data (ls ! i) = NULL"
      "ls1 = ls[i := (ls ! i)\<lparr>lg_data := d\<rparr>]" by auto
    with \<open>ls' = l # ls1\<close> show ?thesis by (intro exI [of _ "Suc i"]) auto
  qed
qed simp

lemma larges_wfD:
  assumes "larges_wf w p" "l \<in> set (mp_large p)"
  shows "0 < lg_self l" "{lg_self l ..< lg_self l + sizeof_mem_pool_large_t} \<subseteq> pool_used p"
    "lg_data l \<noteq> NULL \<Longrightarrow> lg_data l \<in> fst ` set (cm_live w)"
    "lg_data l \<noteq> NULL \<Longrightarrow> lg_data l \<notin> fst ` set (pool_blocks p)"
  using assms by (auto simp: larges_wf_def large_ok_def list_all_iff)

lemma live_baseD: "a \<in> fst ` set (cm_live w) \<Longrightarrow> a \<in> live_set w"
  by (auto simp: live_set_def)

lemma large_ok_mono:
  assumes "large_ok w p l" "set (cm_live w) \<subseteq> set (cm_live w')" "pool_used p \<subseteq> pool_used p'"
    "fst ` set (pool_blocks p') \<inter> fst ` set (cm_live w) \<subseteq> fst ` set (pool_blocks p)"
  shows "large_ok w' p' l"
  unfolding large_ok_def
proof (intro conjI impI)
  show "0 < lg_self l" using assms(1) by (simp add: large_ok_def)
  show "{lg_self l ..< lg_self l + sizeof_mem_pool_large_t} \<subseteq> pool_used p'"
    using assms(1,3) unfolding large_ok_def by (meson order_trans)
  assume "lg_data l \<noteq> NULL"
  then have "lg_data l \<in> fst ` set (cm_live w)" "lg_data l \<notin> fst ` set (pool_blocks p)"
    using assms(1) by (simp_all add: large_ok_def)
  then show "lg_data l \<in> fst ` set (cm_live w')" "lg_data l \<notin> fst ` set (pool_blocks p')"
    using assms(2,4) by blast+
qed

lemma larges_wf_mono:
  assumes "larges_wf w p" "set (cm_live w) \<subseteq> set (cm_live w')" "pool_used p \<subseteq> pool_used p'"
    "fst ` set (pool_blocks p') \<inter> fst ` set (cm_live w) \<subseteq> fst ` set (pool_blocks p)"
    "mp_large p' = mp_large p"
  shows "larges_wf w' p'"
  using assms large_ok_mono [of w p _ w' p'] by (simp add: larges_wf_def list_all_iff)

lemma larges_wf_grants:
  assumes L: "larges_wf w p" and G: "grants w p a sz w' p'"
  shows "larges_wf w' p'"
proof (rule larges_wf_mono [OF L])
  have g: "b \<in> set (pool_blocks p)" if "b \<in> set (pool_blocks p')" "fst b \<in> live_set w" for b
    using G that base_in_extent [of b] unfolding grants_def by blast
  then show "fst ` set (pool_blocks p') \<inter> fst ` set (cm_live w) \<subseteq> fst ` set (pool_blocks p)"
    using live_baseD by blast
qed (use G in \<open>auto simp: grants_def\<close>)

lemma large_used_disjoint:
  assumes "pool_wf w p"
  shows "\<Union> (extent ` large_blocks w p) \<inter> pool_used p = {}"
proof -
  have wf: "chunks_wf w p" and L: "larges_wf w p" using assms by (auto simp: pool_wf_def)
  note D = chunks_wfD [OF wf]
  have "extent b \<inter> extent c = {}" if bc: "b \<in> large_blocks w p" "c \<in> set (pool_blocks p)" for b c
  proof -
    obtain l where l: "l \<in> set (mp_large p)" "fst b = lg_data l" "b \<in> set (cm_live w)"
      using bc(1) by (auto simp: large_blocks_def)
    then have "lg_data l \<noteq> NULL" using live_wfD(2) [OF D(1)] by fastforce
    then have "b \<noteq> c" using larges_wfD(4) [OF L l(1)] l(2) bc(2) by (metis imageI)
    then show ?thesis using live_wfD(4) [OF D(1) l(3)] bc(2) D(5) by blast
  qed
  then show ?thesis using pool_used_blocks [OF wf] by blast
qed

lemma pool_owned_live: "pool_wf w p \<Longrightarrow> pool_owned w p \<subseteq> live_set w"
  using pool_used_live by (auto simp: pool_wf_def pool_owned_def live_set_def large_blocks_def)

text \<open>What one call of the allocator does to a well-formed pool.\<close>

definition pool_step :: "'a cmem_scheme \<Rightarrow> mem_pool_t \<Rightarrow> addr \<Rightarrow> nat \<Rightarrow> 'a cmem_scheme \<Rightarrow> mem_pool_t \<Rightarrow> bool" where
  "pool_step w p a sz w' p' \<longleftrightarrow> pool_wf w' p' \<and> pool_owned w p \<subseteq> pool_owned w' p' \<and>
     cells (a, sz) \<inter> pool_owned w p = {} \<and> cells (a, sz) \<subseteq> pool_owned w' p' \<and>
     set (cm_live w) \<subseteq> set (cm_live w') \<and>
     mp_total p \<le> mp_total p' \<and> mp_max p' = mp_max p"

lemma grants_pool_step:
  assumes wf: "pool_wf w p" and G: "grants w p a sz w' p'"
  shows "pool_step w p a sz w' p'"
proof -
  have wf': "pool_wf w' p'"
    using wf larges_wf_grants [OF _ G] G by (simp add: pool_wf_def) (simp add: grants_def)
  have lb: "large_blocks w p \<subseteq> large_blocks w' p'"
    using G by (auto simp: large_blocks_def grants_def)
  have used: "pool_used p' = pool_used p \<union> cells (a, sz)" "cells (a, sz) \<inter> pool_used p = {}"
    using G by (auto simp: grants_def cells_def)
  have "cells (a, sz) \<inter> \<Union> (extent ` large_blocks w p) = {}"
    using large_used_disjoint [OF wf'] lb used(1) by blast
  then have "cells (a, sz) \<inter> pool_owned w p = {}" using used(2) by (auto simp: pool_owned_def)
  moreover have "pool_owned w p \<subseteq> pool_owned w' p'" "cells (a, sz) \<subseteq> pool_owned w' p'"
    using lb used(1) by (auto simp: pool_owned_def)
  ultimately show ?thesis using wf' G by (simp add: pool_step_def grants_def)
qed

lemma pool_wf_mono:
  assumes "pool_wf w p" "set (cm_live w) \<subseteq> set (cm_live w')" "live_wf w'"
  shows "pool_wf w' p"
proof -
  have "larges_wf w p" using assms(1) by (simp add: pool_wf_def)
  then have "larges_wf w' p" using assms(2) by (rule larges_wf_mono) auto
  moreover have "chunks_wf w' p" using assms by (simp add: pool_wf_def chunks_wf_def) blast
  ultimately show ?thesis by (simp add: pool_wf_def)
qed

lemma null_pool_step:
  assumes "pool_wf w p" "cm_live w' = cm_live w"
  shows "pool_step w p NULL sz w' p"
proof -
  have "live_wf w'" using assms chunks_wfD(1) by (auto simp: pool_wf_def live_wf_def)
  then show ?thesis
    using assms pool_wf_mono [of w p w']
    by (auto simp: pool_step_def cells_def pool_owned_def large_blocks_def)
qed

text \<open>The block of a large request that \<open>malloc\<close> has just returned, recorded in the pool.\<close>

lemma fresh_base:
  assumes "malloc w sz = (d, w1)" "d \<noteq> NULL"
  shows "d \<notin> fst ` set (cm_live w)"
  using malloc_fresh(2) [OF assms] live_baseD [of d w] base_in_extent [of "(d, sz)"] by auto

lemma large_data_fresh:
  assumes "larges_wf w p" "d \<notin> fst ` set (cm_live w)" "d \<noteq> NULL"
  shows "d \<notin> lg_data ` set (mp_large p)"
  using assms larges_wfD(3) [OF assms(1)] by fastforce

lemma pool_wf_malloc:
  assumes "pool_wf w p" "malloc w sz = (d, w1)"
  shows "pool_wf w1 p"
proof -
  have "live_wf w" using assms(1) by (simp add: pool_wf_def chunks_wf_def)
  then show ?thesis
    using pool_wf_mono [OF assms(1) malloc_frame(4) [OF assms(2)]] malloc_live_wf [OF _ assms(2)] by simp
qed

lemma large_blocks_add:
  assumes "live_wf w" "(d, sz) \<in> set (cm_live w)"
    and data: "\<And>a. a \<noteq> NULL \<Longrightarrow>
      a \<in> lg_data ` set (mp_large p') \<longleftrightarrow> a = d \<or> a \<in> lg_data ` set (mp_large p)"
  shows "large_blocks w p' = large_blocks w p \<union> {(d, sz)}"
proof -
  have "b = (d, sz) \<longleftrightarrow> fst b = d" if "b \<in> set (cm_live w)" for b
    using live_base_unique [OF assms(1) that assms(2)] base_in_extent [of "(d, sz)"] by auto
  moreover have "fst b \<noteq> NULL" if "b \<in> set (cm_live w)" for b
    using live_wfD(2) [OF assms(1) that] by simp
  ultimately have "b \<in> large_blocks w p' \<longleftrightarrow> b \<in> large_blocks w p \<or> b = (d, sz)" for b
    using data [of "fst b"] assms(2) by (cases "b \<in> set (cm_live w)") (simp_all add: large_blocks_def disj_commute, blast)
  then show ?thesis by blast
qed

lemma add_large_step:
  assumes wf: "pool_wf w p" and m: "malloc w sz = (d, w1)" "d \<noteq> NULL" and sz: "0 < sz"
    and S: "set (cm_live w1) \<subseteq> set (cm_live w2)" "pool_owned w1 p \<subseteq> pool_owned w2 p2"
      "mp_total p \<le> mp_total p2" "mp_max p2 = mp_max p"
    and wf': "pool_wf w2 p'" and lb: "large_blocks w2 p' = large_blocks w2 p2 \<union> {(d, sz)}"
    and p': "pool_used p' = pool_used p2" "mp_total p' = mp_total p2" "mp_max p' = mp_max p2"
  shows "pool_step w p d sz w2 p'"
proof -
  have live: "set (cm_live w) \<subseteq> set (cm_live w1)" by (rule malloc_frame(4) [OF m(1)])
  have ext: "cells (d, sz) = extent (d, sz)"
    using m(2) sz by (simp add: cells_def extent_def blk_end_def)
  have own: "pool_owned w2 p' = pool_owned w2 p2 \<union> extent (d, sz)"
    by (auto simp: pool_owned_def lb p'(1))
  have "pool_owned w p \<subseteq> pool_owned w1 p"
    using live by (auto simp: pool_owned_def large_blocks_def)
  moreover have "cells (d, sz) \<inter> pool_owned w p = {}"
    using malloc_fresh(2) [OF m] pool_owned_live [OF wf] ext by blast
  ultimately show ?thesis using S wf' live own ext p' by (auto simp: pool_step_def)
qed

text \<open>Two ways to record it: in a header whose data was freed, or in a new header.\<close>

lemma recorded_large_ok:
  assumes "pool_wf w p" "malloc w sz = (d, w1)" "d \<noteq> NULL" "large_ok w1 p l"
  shows "large_ok w1 p (l\<lparr>lg_data := d\<rparr>)"
proof -
  have "d \<notin> fst ` set (pool_blocks p)"
    using fresh_base [OF assms(2,3)] chunks_wfD(5) [of w p] assms(1) unfolding pool_wf_def by blast
  moreover have "d \<in> fst ` set (cm_live w1)"
    using malloc_fresh(1) [OF assms(2,3)] by (metis fst_conv imageI)
  ultimately show ?thesis using assms(4) by (simp add: large_ok_def)
qed

lemma reuse_large_wf:
  assumes wf: "pool_wf w p" and m: "malloc w sz = (d, w1)" "d \<noteq> NULL"
    and i: "i < length (mp_large p)" "lg_data (mp_large p ! i) = NULL"
    and p': "p' = p\<lparr>mp_large := (mp_large p)[i := (mp_large p ! i)\<lparr>lg_data := d\<rparr>]\<rparr>"
  shows "pool_wf w1 p'" "large_blocks w1 p' = large_blocks w1 p \<union> {(d, sz)}"
proof -
  have wf1: "pool_wf w1 p" by (rule pool_wf_malloc [OF wf m(1)])
  then have C: "chunks_wf w1 p" and L: "larges_wf w1 p" by (auto simp: pool_wf_def)
  have new: "d \<notin> lg_data ` set (mp_large p)"
    using large_data_fresh [OF _ fresh_base [OF m] m(2)] wf by (simp add: pool_wf_def)
  let ?l = "(mp_large p ! i)\<lparr>lg_data := d\<rparr>"
  have ul: "pool_used p' = pool_used p" "pool_blocks p' = pool_blocks p"
    by (simp_all add: p' pool_used_def pool_blocks_def)
  then have ok: "large_ok w1 p' = large_ok w1 p" by (intro ext) (simp add: large_ok_def)
  have "large_ok w1 p (mp_large p ! i)" using L i(1) by (simp add: larges_wf_def list_all_length)
  then have "large_ok w1 p ?l" by (rule recorded_large_ok [OF wf m])
  then have "list_all (large_ok w1 p') (mp_large p')"
    unfolding ok using L
    by (auto simp: larges_wf_def list_all_iff p' dest!: set_update_subset_insert [THEN subsetD])
  moreover have "distinct (filter (\<lambda>a. a \<noteq> NULL) (map lg_data (mp_large p')))"
    using L new by (simp add: p' map_update distinct_filter_update larges_wf_def)
  ultimately have "larges_wf w1 p'" by (simp add: larges_wf_def)
  moreover have "chunks_wf w1 p'" using C ul by (simp add: chunks_wf_def) (simp add: p')
  ultimately show "pool_wf w1 p'" by (simp add: pool_wf_def)
  have dl: "map lg_data (mp_large p') = (map lg_data (mp_large p))[i := d]" by (simp add: p' map_update)
  have "a \<in> set (map lg_data (mp_large p')) \<longleftrightarrow> a = d \<or> a \<in> set (map lg_data (mp_large p))"
    if "a \<noteq> NULL" for a
    unfolding dl using i that by (intro set_update_iff) simp_all
  then show "large_blocks w1 p' = large_blocks w1 p \<union> {(d, sz)}"
    by (intro large_blocks_add [OF chunks_wfD(1) [OF C] malloc_fresh(1) [OF m]]) simp
qed

lemma new_large_wf:
  assumes wf: "pool_wf w p" and m: "malloc w sz = (d, w1)" "d \<noteq> NULL"
    and G: "grants w1 p hdr sizeof_mem_pool_large_t w2 p2"
    and p': "p' = p2\<lparr>mp_large := \<lparr>lg_self = hdr, lg_data = d\<rparr> # mp_large p2\<rparr>"
  shows "pool_wf w2 p'" "large_blocks w2 p' = large_blocks w2 p2 \<union> {(d, sz)}"
proof -
  have wf1: "pool_wf w1 p" by (rule pool_wf_malloc [OF wf m(1)])
  have L2: "larges_wf w2 p2" using larges_wf_grants [OF _ G] wf1 by (simp add: pool_wf_def)
  have C2: "chunks_wf w2 p2" and lg: "mp_large p2 = mp_large p" and hdr: "0 < hdr"
      "{hdr ..< hdr + sizeof_mem_pool_large_t} \<subseteq> pool_used p2"
      "set (cm_live w1) \<subseteq> set (cm_live w2)"
      "\<And>b. b \<in> set (pool_blocks p2) - set (pool_blocks p) \<Longrightarrow> extent b \<inter> live_set w1 = {}"
    using G by (auto simp: grants_def)
  have ul: "pool_used p' = pool_used p2" "pool_blocks p' = pool_blocks p2"
    by (simp_all add: p' pool_used_def pool_blocks_def)
  then have ok: "large_ok w2 p' = large_ok w2 p2" by (intro ext) (simp add: large_ok_def)
  have d: "(d, sz) \<in> set (cm_live w1)" by (rule malloc_fresh(1) [OF m])
  have d1: "d \<in> fst ` set (cm_live w1)" using d by (metis fst_conv imageI)
  then have dl: "d \<in> live_set w1" "d \<in> fst ` set (cm_live w2)" using hdr(3) live_baseD by blast+
  have "d \<notin> fst ` set (pool_blocks p)"
    using fresh_base [OF m] chunks_wfD(5) [of w p] wf unfolding pool_wf_def by blast
  then have db: "d \<notin> fst ` set (pool_blocks p2)"
    using hdr(4) dl(1) base_in_extent by blast
  have new: "d \<notin> lg_data ` set (mp_large p2)"
    using large_data_fresh [OF _ fresh_base [OF m] m(2)] wf lg by (simp add: pool_wf_def)
  have "large_ok w2 p2 \<lparr>lg_self = hdr, lg_data = d\<rparr>"
    using hdr(1,2) dl(2) db by (simp add: large_ok_def)
  then have "larges_wf w2 p'"
    using L2 new unfolding larges_wf_def ok by (auto simp: p')
  moreover have "chunks_wf w2 p'" using C2 ul by (simp add: chunks_wf_def) (simp add: p')
  ultimately show "pool_wf w2 p'" by (simp add: pool_wf_def)
  show "large_blocks w2 p' = large_blocks w2 p2 \<union> {(d, sz)}"
    using d hdr(3) by (intro large_blocks_add [OF chunks_wfD(1) [OF C2]]) (auto simp: p')
qed

lemma alloc_large_spec:
  assumes wf: "pool_wf w p" and sz: "mp_max p < sz" and r: "alloc_large_mem w p sz = (a, w', p')"
  shows "pool_step w p a sz w' p'"
proof -
  obtain d w1 where m: "malloc w sz = (d, w1)" by fastforce
  have wf1: "pool_wf w1 p" by (rule pool_wf_malloc [OF wf m])
  have C1: "chunks_wf w1 p" using wf1 by (simp add: pool_wf_def)
  note D = chunks_wfD [OF C1]
  have pos: "0 < sz" using sz by simp
  consider (fail) "d = NULL" | (reuse) ls where "d \<noteq> NULL" "reuse_large 0 d (mp_large p) = Some ls"
    | (new) "d \<noteq> NULL" "reuse_large 0 d (mp_large p) = None" by fastforce
  then show ?thesis
  proof cases
    case fail
    with r m have "a = NULL" "p' = p" "cm_live w' = cm_live w"
      by (auto simp: alloc_large_mem_def frame_simps elim!: malloc_cases)
    then show ?thesis using null_pool_step [OF wf] by simp
  next
    case reuse
    then have eq: "a = d" "w' = w1" "p' = p\<lparr>mp_large := ls\<rparr>"
      using r m by (auto simp: alloc_large_mem_def)
    obtain i where i: "i < length (mp_large p)" "lg_data (mp_large p ! i) = NULL"
      "ls = (mp_large p)[i := (mp_large p ! i)\<lparr>lg_data := d\<rparr>]"
      using reuse_large_Some [OF reuse(2)] by blast
    note R = reuse_large_wf [OF wf m reuse(1) i(1,2) eq(3) [unfolded i(3)]]
    show ?thesis unfolding eq(1,2)
      by (rule add_large_step [OF wf m reuse(1) pos _ _ _ _ R])
        (simp_all add: eq(3) pool_used_def)
  next
    case new
    obtain hdr w2 p2 where h: "pmalloc_small w1 p sizeof_mem_pool_large_t = (hdr, w2, p2)"
      using prod_cases3 by blast
    have "sizeof_mem_pool_large_t + sizeof_mem_pool_chunk_t \<le> mp_total p"
      using D(8,10) by (simp add: sizeof_defs)
    then consider (nohdr) "hdr = NULL" "p2 = p" "cm_live w2 = cm_live w1"
      | (hdr) "grants w1 p hdr sizeof_mem_pool_large_t w2 p2"
      using pmalloc_small_spec [OF C1 _ h] by blast
    then show ?thesis
    proof cases
      case nohdr
      then have "a = NULL" "p' = p" "cm_live w' = cm_live (free_block w1 d)"
        using r m h new by (auto simp: alloc_large_mem_def frame_simps)
      then show ?thesis
        using null_pool_step [OF wf, of w' sz] free_malloc(2) [OF _ m new(1)] wf
        by (simp add: pool_wf_def chunks_wf_def)
    next
      case hdr
      then have "hdr \<noteq> NULL" by (simp add: grants_def)
      then have eq: "a = d" "w' = w2" "p' = p2\<lparr>mp_large := \<lparr>lg_self = hdr, lg_data = d\<rparr> # mp_large p2\<rparr>"
        using r m h new by (auto simp: alloc_large_mem_def)
      have S: "pool_step w1 p hdr sizeof_mem_pool_large_t w2 p2" by (rule grants_pool_step [OF wf1 hdr])
      show ?thesis unfolding eq(1,2)
        by (rule add_large_step [OF wf m new(1) pos _ _ _ _ new_large_wf [OF wf m new(1) hdr eq(3)]])
          (use S in \<open>simp_all add: eq(3) pool_used_def pool_step_def\<close>)
    qed
  qed
qed

text \<open>The contract of \<open>pmalloc\<close>.\<close>

lemma pmalloc_spec:
  assumes wf: "pool_wf w p" and f: "request_fits p sz" and r: "pmalloc w p sz = (a, w', p')"
  shows "pool_step w p a sz w' p'"
proof (cases "sz \<le> mp_max p")
  case True
  have C: "chunks_wf w p" using wf by (simp add: pool_wf_def)
  from True f r have "(a = NULL \<and> p' = p \<and> cm_live w' = cm_live w \<and> cm_mem w' = cm_mem w) \<or> grants w p a sz w' p'"
    by (intro pmalloc_small_spec [OF C]) (auto simp: pmalloc_def request_fits_def)
  then show ?thesis using null_pool_step [OF wf] grants_pool_step [OF wf] by blast
next
  case False
  with r show ?thesis by (intro alloc_large_spec [OF wf]) (auto simp: pmalloc_def)
qed

lemma request_fits_mono: "request_fits p n \<Longrightarrow> pool_step w p a m w' p' \<Longrightarrow> request_fits p' n"
  by (auto simp: request_fits_def pool_step_def)

text \<open>The pool as an allocator: its state is the memory and the pool.\<close>

definition pmalloc_on :: "'a cmem_scheme \<times> mem_pool_t \<Rightarrow> nat \<Rightarrow> addr \<times> 'a cmem_scheme \<times> mem_pool_t" where
  "pmalloc_on s n = pmalloc (fst s) (snd s) n"

interpretation pool: allocator pmalloc_on "\<lambda>s. pool_owned (fst s) (snd s)"
  "\<lambda>s. pool_wf (fst s) (snd s)" "\<lambda>s. request_fits (snd s)"
proof (unfold_locales, goal_cases)
  case (1 s n a s')
  then show ?case using pmalloc_spec [of "fst s" "snd s" n a "fst s'" "snd s'"]
    by (simp add: pmalloc_on_def pool_step_def)
next
  case (2 s n a s')
  then show ?case using pmalloc_spec [of "fst s" "snd s" n a "fst s'" "snd s'"]
    by (simp add: pmalloc_on_def pool_step_def)
next
  case (3 s n a s')
  then show ?case using pmalloc_spec [of "fst s" "snd s" n a "fst s'" "snd s'"]
    by (simp add: pmalloc_on_def pool_step_def)
next
  case (4 s n a s' m)
  then show ?case using pmalloc_spec [of "fst s" "snd s" n a "fst s'" "snd s'"] request_fits_mono
    by (fastforce simp: pmalloc_on_def)
qed

section \<open>Creating and destroying\<close>

lemma mem_pool_create_Some:
  assumes "mem_pool_create w name sz lg = (Some p, w')"
  shows "malloc w sz = (mp_self p, w')" "mp_self p \<noteq> NULL" "mp_total p = sz"
    "mp_max p = min sz MAX_SIZE_OF_CHUNK" "mp_current p = 0" "mp_large p = []" "mp_logger p = lg"
    "mp_chunks p = [\<lparr>ck_self = mp_self p + offsetof_chunk, ck_fail = 0,
        ck_last = mp_self p + sizeof_mem_pool_t, ck_end = mp_self p + sz\<rparr>]"
  using assms by (auto simp: mem_pool_create_def Let_def min_def split: prod.splits if_splits)

lemma create_wf:
  assumes "live_wf w" "sizeof_mem_pool_t \<le> sz" "mem_pool_create w name sz lg = (Some p, w')"
  shows "pool_wf w' p" "pool_owned w' p = {}" "pool_blocks p = [(mp_self p, sz)]"
    "set (cm_live w') = insert (mp_self p, sz) (set (cm_live w))"
proof -
  note C = mem_pool_create_Some [OF assms(3)]
  show blocks: "pool_blocks p = [(mp_self p, sz)]"
    by (simp add: pool_blocks_def blocks_of_def C(8) chunk_bounds_def)
  show "set (cm_live w') = insert (mp_self p, sz) (set (cm_live w))"
    using C(1,2) by (auto elim!: malloc_cases)
  then have "chunks_wf w' p"
    using assms(2) malloc_live_wf [OF assms(1) C(1)] C
    by (simp add: chunks_wf_def blocks chunk_wf_def sizeof_defs)
  then show "pool_wf w' p" by (simp add: pool_wf_def larges_wf_def C(6))
  show "pool_owned w' p = {}"
    by (simp add: pool_owned_def pool_used_def chunk_used_def large_blocks_def C(6,8) sizeof_defs)
qed

lemma free_chunks_ok:
  assumes "live_wf w" "distinct (map ck_self cs)" "ck_self ` set cs \<subseteq> fst ` set (cm_live w)"
  shows "free_chunks w cs = Inr (w\<lparr>cm_live := filter (\<lambda>b. fst b \<notin> ck_self ` set cs) (cm_live w)\<rparr>)"
  using assms
proof (induction cs arbitrary: w)
  case (Cons c cs)
  let ?w1 = "free_block w (ck_self c)"
  have c: "c_free w (ck_self c) = Inr ?w1"
    using Cons.prems(1,3) c_free_live [of _ w] by auto
  have "ck_self ` set cs \<subseteq> fst ` set (cm_live ?w1)"
  proof
    fix x assume x: "x \<in> ck_self ` set cs"
    then have "x \<noteq> ck_self c" using Cons.prems(2) by (metis distinct.simps(2) list.simps(9) set_map)
    moreover have "x \<in> fst ` set (cm_live w)" using x Cons.prems(3) by auto
    ultimately show "x \<in> fst ` set (cm_live ?w1)" by (auto simp: frame_simps)
  qed
  then have "free_chunks ?w1 cs = Inr (?w1\<lparr>cm_live := filter (\<lambda>b. fst b \<notin> ck_self ` set cs) (cm_live ?w1)\<rparr>)"
    using Cons.prems by (intro Cons.IH) auto
  then show ?case using c by (simp add: free_block_def conj_commute)
qed simp

text \<open>The bases of the blocks behind the first one are the addresses of the other chunks.\<close>

lemma pool_block_bases: "map fst (pool_blocks p) = mp_self p # map ck_self (tl (mp_chunks p))"
  by (simp add: pool_blocks_def blocks_of_def chunk_bounds_def map_tl comp_def)

lemma live_subset_bases_distinct:
  "live_wf w \<Longrightarrow> distinct bs \<Longrightarrow> set bs \<subseteq> set (cm_live w) \<Longrightarrow> distinct (map fst bs)"
  using sorted_wrt_apart_subset sorted_wrt_apart_distinct live_wfD(1) by blast

lemma filter_bases:
  assumes "live_wf w" "set bs \<subseteq> set (cm_live w)"
  shows "set (filter (\<lambda>b. fst b \<notin> fst ` set bs) (cm_live w)) = set (cm_live w) - set bs"
proof -
  have "b = c" if "b \<in> set (cm_live w)" "c \<in> set bs" "fst b = fst c" for b c
    using live_base_unique [OF assms(1) that(1), of c] assms(2) that(2,3) base_in_extent [of c] by auto
  then show ?thesis by auto
qed

text \<open>A header of a large block lies strictly inside a block of the pool: it is no live base.\<close>

lemma used_no_base:
  assumes wf: "chunks_wf w p" and x: "x \<in> pool_used p"
  shows "x \<notin> fst ` set (cm_live w)"
proof
  assume "x \<in> fst ` set (cm_live w)"
  then obtain b where b: "b \<in> set (cm_live w)" "fst b = x" by auto
  obtain i where i: "i < length (mp_chunks p)" "x \<in> chunk_used (mp_chunks p ! i)"
    using x by (auto simp: pool_used_def in_set_conv_nth)
  let ?c = "mp_chunks p ! i"
  have "x \<in> extent (pool_blocks p ! i)"
    using chunk_area(1) [OF wf i(1)] chunk_used_area [of ?c] chunks_wfD(4) [OF wf] nth_mem [OF i(1)] i(2)
    by blast
  then have "b = pool_blocks p ! i"
    using live_base_unique [OF chunks_wfD(1) [OF wf] b(1) chunk_area(2) [OF wf i(1)]] b(2) by simp
  moreover have "fst (pool_blocks p ! i) \<le> ck_self ?c"
    using chunks_wfD(11) [OF wf] i(1) chunks_wfD(2) [OF wf]
    by (auto simp: pool_blocks_nth Let_def hd_conv_nth)
  moreover have "ck_self ?c < x" using i(2) by (auto simp: chunk_used_def sizeof_defs)
  ultimately show False using b(2) by simp
qed

text \<open>Allocating moves pointers and writes no byte of the memory.\<close>

lemma pmalloc_small_mem: "pmalloc_small w p sz = (a, w', p') \<Longrightarrow> cm_mem w' = cm_mem w"
  by (auto simp: pmalloc_small_def add_mem_chunk_def Let_def frame_simps
      split: option.splits prod.splits if_splits dest!: malloc_frame(1))

lemma pmalloc_mem:
  assumes "pmalloc w p sz = (a, w', p')"
  shows "cm_mem w' = cm_mem w"
proof (cases "sz \<le> mp_max p")
  case True
  with assms show ?thesis by (auto simp: pmalloc_def dest: pmalloc_small_mem)
next
  case False
  obtain d w1 where m: "malloc w sz = (d, w1)" by fastforce
  obtain h w2 p2 where h: "pmalloc_small w1 p sizeof_mem_pool_large_t = (h, w2, p2)"
    using prod_cases3 by blast
  show ?thesis using False assms m h malloc_frame(1) [OF m] pmalloc_small_mem [OF h]
    by (auto simp: pmalloc_def alloc_large_mem_def frame_simps split: if_splits option.splits)
qed

lemma pfree_scan_miss: "a \<notin> lg_data ` set ls \<Longrightarrow> pfree_scan w a ls = Inr (XPE_ERROR, w, ls)"
  by (induction ls) auto

lemma pfree_scan_hit:
  assumes "a \<in> lg_data ` set ls" "c_free w a = Inr w1"
  shows "\<exists>i < length ls. lg_data (ls ! i) = a \<and>
    pfree_scan w a ls = Inr (XPE_OK, w1, ls[i := (ls ! i)\<lparr>lg_data := NULL\<rparr>])"
  using assms(1)
proof (induction ls)
  case (Cons l ls)
  show ?case
  proof (cases "lg_data l = a")
    case True
    with assms(2) show ?thesis by (intro exI [of _ 0]) simp
  next
    case False
    with Cons obtain i where "i < length ls" "lg_data (ls ! i) = a"
      "pfree_scan w a ls = Inr (XPE_OK, w1, ls[i := (ls ! i)\<lparr>lg_data := NULL\<rparr>])" by auto
    with False show ?thesis by (intro exI [of _ "Suc i"]) simp
  qed
qed simp

lemma distinct_filter_clear:
  assumes "distinct (filter (\<lambda>a. a \<noteq> z) xs)" "i < length xs" "xs ! i \<noteq> z"
  shows "distinct (filter (\<lambda>a. a \<noteq> z) (xs[i := z]))" "xs ! i \<notin> set (xs[i := z])"
proof -
  have eq: "xs = take i xs @ xs ! i # drop (Suc i) xs" by (rule id_take_nth_drop [OF assms(2)])
  have up: "xs[i := z] = take i xs @ z # drop (Suc i) xs" using assms(2) by (rule upd_conv_take_nth_drop)
  have d: "distinct (filter (\<lambda>a. a \<noteq> z) (take i xs @ xs ! i # drop (Suc i) xs))" using assms(1) eq by metis
  show "distinct (filter (\<lambda>a. a \<noteq> z) (xs[i := z]))" using d assms(3) by (auto simp: up)
  show "xs ! i \<notin> set (xs[i := z])" using d assms(3) by (auto simp: up)
qed

text \<open>Taking one large block out of a well-formed pool.\<close>

lemma drop_large_wf:
  assumes wf: "pool_wf w p" and i: "i < length (mp_large p)" "lg_data (mp_large p ! i) = a" "a \<noteq> NULL"
    and p': "p' = p\<lparr>mp_large := (mp_large p)[i := (mp_large p ! i)\<lparr>lg_data := NULL\<rparr>]\<rparr>"
  shows "pool_wf (free_block w a) p'" "a \<notin> lg_data ` set (mp_large p')"
proof -
  have C: "chunks_wf w p" and L: "larges_wf w p" using wf by (auto simp: pool_wf_def)
  note D = chunks_wfD [OF C]
  have ml: "map lg_data (mp_large p') = (map lg_data (mp_large p))[i := NULL]" by (simp add: p' map_update)
  have dist: "distinct (filter (\<lambda>a. a \<noteq> NULL) (map lg_data (mp_large p')))"
    and gone: "a \<notin> set (map lg_data (mp_large p'))"
    unfolding ml using distinct_filter_clear [of NULL "map lg_data (mp_large p)" i] L i
    by (simp_all add: larges_wf_def)
  then show a': "a \<notin> lg_data ` set (mp_large p')" by simp
  have ul: "pool_used p' = pool_used p" "pool_blocks p' = pool_blocks p"
    by (simp_all add: p' pool_used_def pool_blocks_def)
  have nb: "a \<notin> fst ` set (pool_blocks p)" using larges_wfD(4) [OF L, of "mp_large p ! i"] i by simp
  have "large_ok (free_block w a) p' l" if l: "l \<in> set (mp_large p')" for l
  proof -
    have "l \<in> set (mp_large p) \<or> l = (mp_large p ! i)\<lparr>lg_data := NULL\<rparr>"
      using l set_update_subset_insert by (fastforce simp: p')
    moreover have "large_ok w p (mp_large p ! i)" using L i(1) by (simp add: larges_wf_def list_all_length)
    then have "large_ok w p ((mp_large p ! i)\<lparr>lg_data := NULL\<rparr>)" by (simp add: large_ok_def)
    ultimately have "large_ok w p l" using L by (auto simp: larges_wf_def list_all_iff)
    moreover have "lg_data l \<noteq> a" using a' l by (metis imageI)
    ultimately show ?thesis by (auto simp: large_ok_def ul frame_simps)
  qed
  then have "larges_wf (free_block w a) p'" using dist by (simp add: larges_wf_def list_all_iff)
  moreover have "set (pool_blocks p) \<subseteq> set (cm_live (free_block w a))"
    using D(5) nb by (force simp: frame_simps)
  then have "chunks_wf (free_block w a) p'"
    using C free_block_live_wf [OF D(1)] by (simp add: chunks_wf_def ul) (simp add: p')
  ultimately show "pool_wf (free_block w a) p'" by (simp add: pool_wf_def)
qed

section \<open>Nothing beyond the memory changes\<close>

text \<open>What a state has besides the memory is left alone by every operation of the allocator.\<close>

lemma log_more [frame_simps]:
  "cmem.more (log_error w lg e f) = cmem.more w" "cmem.more (log_warn w lg e f) = cmem.more w"
  "cmem.more (log_info w lg e f) = cmem.more w"
  by (simp_all add: log_error_def log_warn_def log_info_def log_emit_def split: option.splits)

lemma mem_more [frame_simps]:
  "cmem.more (free_block w a) = cmem.more w" "cmem.more (write_bytes w a bs) = cmem.more w"
  "cmem.more (memset w a c n) = cmem.more w"
  by (simp_all add: free_block_def write_bytes_def memset_def)

lemma malloc_more: "malloc w n = (a, w') \<Longrightarrow> cmem.more w' = cmem.more w"
  by (auto simp: malloc_def Let_def split: if_splits)

lemma mem_pool_create_more: "mem_pool_create w name n lg = (p, w') \<Longrightarrow> cmem.more w' = cmem.more w"
  by (auto simp: mem_pool_create_def Let_def frame_simps dest: malloc_more split: prod.splits if_splits)

lemma add_mem_chunk_more: "add_mem_chunk w p n = (a, w', p') \<Longrightarrow> cmem.more w' = cmem.more w"
  by (auto simp: add_mem_chunk_def Let_def frame_simps dest: malloc_more split: prod.splits if_splits)

lemma pmalloc_small_more: "pmalloc_small w p n = (a, w', p') \<Longrightarrow> cmem.more w' = cmem.more w"
  by (auto simp: pmalloc_small_def Let_def dest: add_mem_chunk_more split: option.splits)

lemma pmalloc_more: "pmalloc w p n = (a, w', p') \<Longrightarrow> cmem.more w' = cmem.more w"
  by (auto simp: pmalloc_def alloc_large_mem_def Let_def frame_simps
      dest!: malloc_more pmalloc_small_more split: prod.splits if_splits option.splits)

lemma pcalloc_more: "pcalloc w p n = (a, w', p') \<Longrightarrow> cmem.more w' = cmem.more w"
  by (auto simp: pcalloc_def frame_simps dest: pmalloc_more split: prod.splits if_splits)

lemma c_free_more: "c_free w a = Inr w' \<Longrightarrow> cmem.more w' = cmem.more w"
  by (auto simp: c_free_def frame_simps split: if_splits)

lemma free_larges_more: "free_larges w ls = Inr w' \<Longrightarrow> cmem.more w' = cmem.more w"
  by (induction w ls rule: free_larges.induct) (auto dest: c_free_more split: sum.splits)

lemma free_chunks_more: "free_chunks w cs = Inr w' \<Longrightarrow> cmem.more w' = cmem.more w"
  by (induction w cs rule: free_chunks.induct) (auto dest: c_free_more split: sum.splits)

lemma mem_pool_destroy_more: "mem_pool_destroy w p = Inr w' \<Longrightarrow> cmem.more w' = cmem.more w"
  by (auto simp: mem_pool_destroy_def dest!: free_larges_more free_chunks_more c_free_more split: sum.splits)

section \<open>Properties\<close>

text \<open>
  C5: a sequence of \<open>pmalloc\<close> requests, small and large in any order, on a well-formed pool
  keeps the pool well-formed and returns blocks that are pairwise disjoint, disjoint from
  everything handed out before, and inside memory obtained from \<open>malloc\<close>; a failed request
  returns the null pointer and disturbs nothing.  Each request must leave room for the chunk
  header in a new chunk (\<open>request_fits\<close>; \<open>add_mem_chunk_overflow\<close> shows what happens otherwise).
\<close>

theorem pmalloc_sequence_disjoint:
  assumes "pool_wf w p" "list_all (request_fits p) ns"
    "alloc_list pmalloc_on (w, p) ns = (as, w', p')"
  shows "pool_wf w' p' \<and> disjoint_blocks (zip as ns) \<and> pool_owned w p \<subseteq> pool_owned w' p' \<and>
    (\<forall>b \<in> set (zip as ns). cells b \<inter> pool_owned w p = {} \<and> cells b \<subseteq> live_set w')"
proof -
  have S: "pool_wf w' p'" "disjoint_blocks (zip as ns)" "pool_owned w p \<subseteq> pool_owned w' p'"
    "\<forall>b \<in> set (zip as ns). cells b \<inter> pool_owned w p = {} \<and> cells b \<subseteq> pool_owned w' p'"
    using pool.alloc_list_spec [of "(w, p)" ns as "(w', p')"] assms by simp_all
  then show ?thesis using pool_owned_live [OF S(1)] by blast
qed

text \<open>A pool of 1024 bytes in the memory \<open>demo_cmem\<close>, to evaluate on.\<close>

definition demo_w :: cmem where
  "demo_w = snd (mem_pool_create demo_cmem ''demo'' 1024 None)"

definition demo_pool :: mem_pool_t where
  "demo_pool = the (fst (mem_pool_create demo_cmem ''demo'' 1024 None))"

lemma demo_create: "mem_pool_create demo_cmem ''demo'' 1024 None = (Some demo_pool, demo_w)"
  by (simp add: demo_pool_def demo_w_def mem_pool_create_def malloc_def demo_cmem_def fresh_block_def
      blk_end_def addr_top_def Let_def)

lemma demo_pool_wf: "pool_wf demo_w demo_pool"
  by (rule create_wf(1) [OF _ _ demo_create])
    (simp_all add: live_wf_def demo_cmem_def sizeof_defs)

lemmas demo_eval = demo_pool_def demo_w_def mem_pool_create_def malloc_def demo_cmem_def
  fresh_block_def blk_end_def addr_top_def Let_def sizeof_defs

lemmas pmalloc_eval = pmalloc_def pmalloc_small_def add_mem_chunk_def alloc_large_mem_def
  chunk_room_def to_size_t_def apart_def

theorem pmalloc_sequence_disjoint_witness:
  "fst (alloc_list pmalloc_on (demo_w, demo_pool) [10, 512, 5000]) = [16777304, 16777314, 33554432] \<and>
   disjoint_blocks (zip [16777304, 16777314, 33554432] [10, 512, 5000])"
proof -
  obtain as w' p' where r: "alloc_list pmalloc_on (demo_w, demo_pool) [10, 512, 5000] = (as, w', p')"
    using prod_cases3 by blast
  have v: "fst (alloc_list pmalloc_on (demo_w, demo_pool) [10, 512, 5000]) = [16777304, 16777314, 33554432]"
    by (simp add: pmalloc_on_def pmalloc_eval demo_eval)
  have "list_all (request_fits demo_pool) [10, 512, 5000]"
    by (simp add: request_fits_def demo_eval)
  from pmalloc_sequence_disjoint [OF demo_pool_wf this r] v show ?thesis using r by simp
qed

text \<open>
  C27: a pool created with room for its own header is well-formed and owns nothing yet; it
  occupies exactly one new block of memory, and \<open>total\<close> and \<open>max\<close> are the size and the
  size capped at 4096.  When \<open>malloc\<close> fails there is no pool and no memory is held.
\<close>

theorem mem_pool_create_correct:
  assumes "live_wf w" "sizeof_mem_pool_t \<le> sz"
  shows "case mem_pool_create w name sz lg of
      (None, w') \<Rightarrow> cm_live w' = cm_live w
    | (Some p, w') \<Rightarrow> pool_wf w' p \<and> pool_owned w' p = {} \<and>
        set (cm_live w') = insert (mp_self p, sz) (set (cm_live w)) \<and>
        (mp_self p, sz) \<notin> set (cm_live w) \<and>
        mp_total p = sz \<and> mp_max p = min sz MAX_SIZE_OF_CHUNK"
proof -
  obtain po w' where r: "mem_pool_create w name sz lg = (po, w')" by fastforce
  show ?thesis
  proof (cases po)
    case None
    with r have "cm_live w' = cm_live w"
      by (auto simp: mem_pool_create_def Let_def frame_simps split: prod.splits if_splits elim!: malloc_cases)
    then show ?thesis using r None by simp
  next
    case (Some p)
    note r' = r [unfolded Some] and C = mem_pool_create_Some [OF r [unfolded Some]]
    have "(mp_self p, sz) \<notin> set (cm_live w)"
      using fresh_base [OF C(1,2)] by (metis fst_conv imageI)
    then show ?thesis using create_wf [OF assms r'] C(3,4) r Some by simp
  qed
qed

theorem mem_pool_create_correct_witness:
  "pool_wf demo_w demo_pool \<and> set (cm_live demo_w) = {(16777216, 1024)} \<and> mp_max demo_pool = 1024"
proof -
  have l: "live_wf demo_cmem" by (simp add: live_wf_def demo_cmem_def)
  have s: "sizeof_mem_pool_t \<le> 1024" by (simp add: sizeof_defs)
  have "mp_self demo_pool = 16777216" "cm_live demo_cmem = []" by (simp_all add: demo_eval)
  then show ?thesis
    using mem_pool_create_correct [OF l s, of "''demo''" None] demo_create by simp
qed

text \<open>
  C28: the recursion of \<open>pmalloc\<close> through \<open>alloc_large_mem\<close> always ends, and after one level:
  on every well-formed pool the recursive code returns, with the result of the definition
  the rest of the development uses.
\<close>

theorem pmalloc_rec_eq:
  assumes "pool_wf w p"
  shows "pmalloc_rec w p sz = Some (pmalloc w p sz)"
proof -
  have "sizeof_mem_pool_large_t \<le> mp_max p"
    using assms chunks_wfD(8) by (fastforce simp: pool_wf_def sizeof_defs)
  then have hdr: "pmalloc_rec w1 p sizeof_mem_pool_large_t = Some (pmalloc_small w1 p sizeof_mem_pool_large_t)"
    for w1 :: "'a cmem_scheme"
    by (simp add: pmalloc_rec.simps)
  show ?thesis
    by (subst pmalloc_rec.simps)
      (simp add: hdr pmalloc_def alloc_large_mem_def split: prod.splits option.splits)
qed

theorem pmalloc_rec_eq_witness:
  "map_option fst (pmalloc_rec demo_w demo_pool 5000) = Some 33554432"
  using pmalloc_rec_eq [OF demo_pool_wf, of 5000] by (simp add: pmalloc_eval demo_eval)

text \<open>
  C18: destroying a well-formed pool that has served no large request frees without error, and
  frees exactly the pool's own blocks: nothing leaks and no other block is touched.
\<close>

theorem mem_pool_destroy_exact:
  assumes "pool_wf w p" "mp_large p = []"
  shows "\<exists>w'. mem_pool_destroy w p = Inr w' \<and> live_wf w' \<and> cm_mem w' = cm_mem w \<and>
    set (cm_live w') = set (cm_live w) - set (pool_blocks p)"
proof -
  have wf: "chunks_wf w p" using assms(1) by (simp add: pool_wf_def)
  note D = chunks_wfD [OF wf]
  let ?tl = "tl (mp_chunks p)"
  let ?w1 = "w\<lparr>cm_live := filter (\<lambda>b. fst b \<notin> ck_self ` set ?tl) (cm_live w)\<rparr>"
  have dist: "distinct (mp_self p # map ck_self ?tl)"
    using live_subset_bases_distinct [OF D(1,6,5)] by (simp add: pool_block_bases)
  have bases: "fst ` set (pool_blocks p) = insert (mp_self p) (ck_self ` set ?tl)"
    using arg_cong [OF pool_block_bases, of set p] by simp
  then have sub: "insert (mp_self p) (ck_self ` set ?tl) \<subseteq> fst ` set (cm_live w)"
    using D(5) by (metis image_mono)
  have fc: "free_chunks w ?tl = Inr ?w1"
    using dist sub by (intro free_chunks_ok [OF D(1)]) auto
  have self: "mp_self p \<in> fst ` set (cm_live ?w1)" "mp_self p \<noteq> NULL"
    using sub dist live_wfD(2) [OF D(1)] by auto
  have w': "mem_pool_destroy w p = Inr (free_block ?w1 (mp_self p))"
    using assms(2) fc self by (simp add: mem_pool_destroy_def c_free_def)
  have live: "cm_live (free_block ?w1 (mp_self p)) = filter (\<lambda>b. fst b \<notin> fst ` set (pool_blocks p)) (cm_live w)"
    by (simp add: frame_simps bases conj_commute)
  then have "live_wf (free_block ?w1 (mp_self p))"
    using D(1) by (auto simp: live_wf_def list_all_iff sorted_wrt_filter)
  then show ?thesis
    using w' live filter_bases [OF D(1,5)] by (simp add: frame_simps)
qed

theorem mem_pool_destroy_exact_witness:
  "\<exists>w'. mem_pool_destroy demo_w demo_pool = Inr w' \<and> set (cm_live w') = {}"
proof -
  have l: "mp_large demo_pool = []" "set (cm_live demo_w) - set (pool_blocks demo_pool) = {}"
    by (simp_all add: demo_eval pool_blocks_def blocks_of_def chunk_bounds_def)
  show ?thesis using mem_pool_destroy_exact [OF demo_pool_wf l(1)] l(2) by auto
qed

text \<open>The header of a large block lies inside the pool, so \<open>malloc\<close> has not returned it.\<close>

lemma large_header_free:
  assumes "pool_wf w p" "mp_large p = l # ls"
  shows "mem_pool_destroy w p = Inl (Invalid_free (lg_self l)) \<and>
    mem_pool_clear w p = Inl (Invalid_free (lg_self l))"
proof -
  have wf: "chunks_wf w p" and L: "larges_wf w p" using assms(1) by (auto simp: pool_wf_def)
  have "lg_self l \<in> pool_used p" "0 < lg_self l"
    using larges_wfD(1,2) [OF L, of l] assms(2) by (auto simp: sizeof_defs)
  then have "c_free w (lg_self l) = Inl (Invalid_free (lg_self l))"
    using used_no_base [OF wf] by (simp add: c_free_def)
  then show ?thesis using assms(2) by (simp add: mem_pool_destroy_def mem_pool_clear_def)
qed

text \<open>
  C23: destroying or clearing a pool that holds a large block passes the address of the block's
  header to \<open>free\<close>.  The header lies inside a chunk of the pool, so this is never an address
  \<open>malloc\<close> returned: the first call is an invalid \<open>free\<close>, for every such pool.  (The header's
  \<open>data\<close>, which \<open>malloc\<close> did return, is not freed.)
\<close>

theorem destroy_large_invalid_free:
  assumes "pool_wf w p" "mp_large p = l # ls"
  shows "mem_pool_destroy w p = Inl (Invalid_free (lg_self l)) \<and>
    mem_pool_clear w p = Inl (Invalid_free (lg_self l))"
  using large_header_free [OF assms] .

text \<open>The demonstration pool after one large request.\<close>

definition demo_large :: "cmem \<times> mem_pool_t" where
  "demo_large = snd (pmalloc demo_w demo_pool 5000)"

lemma demo_large_wf: "pool_wf (fst demo_large) (snd demo_large)"
  using pmalloc_spec [OF demo_pool_wf, of 5000 "fst (pmalloc demo_w demo_pool 5000)" "fst demo_large" "snd demo_large"]
  by (simp add: demo_large_def pool_step_def request_fits_def demo_eval)

theorem destroy_large_invalid_free_witness:
  "mem_pool_destroy (fst demo_large) (snd demo_large) = Inl (Invalid_free 16777304)"
proof -
  have "mp_large (snd demo_large) = [\<lparr>lg_self = 16777304, lg_data = 33554432\<rparr>]"
    by (simp add: demo_large_def pmalloc_eval demo_eval)
  from destroy_large_invalid_free [OF demo_large_wf this] show ?thesis by simp
qed

text \<open>
  C26: clearing a well-formed pool without large blocks succeeds, keeps it well-formed with the
  same blocks, and gives all its memory back to the pool: nothing is owned any more, every
  failure count is 0 and allocation starts at the first chunk again.
\<close>

theorem mem_pool_clear_empties:
  assumes "pool_wf w p" "mp_large p = []"
  shows "\<exists>p'. mem_pool_clear w p = Inr (w, p') \<and> pool_wf w p' \<and> pool_owned w p' = {} \<and>
    pool_blocks p' = pool_blocks p \<and> mp_current p' = 0 \<and> list_all (\<lambda>c. ck_fail c = 0) (mp_chunks p')"
proof -
  let ?p = "p\<lparr>mp_large := [], mp_current := 0, mp_chunks := map reset_chunk (mp_chunks p)\<rparr>"
  have wf: "chunks_wf w p" using assms(1) by (simp add: pool_wf_def)
  note D = chunks_wfD [OF wf]
  have cl: "mem_pool_clear w p = Inr (w, ?p)" using assms(2) by (simp add: mem_pool_clear_def)
  have "map chunk_bounds (map reset_chunk (mp_chunks p)) = map chunk_bounds (mp_chunks p)"
    by (simp add: reset_chunk_def chunk_bounds_def)
  then have blocks: "pool_blocks ?p = pool_blocks p" by (intro pool_blocks_cong) simp_all
  have "list_all chunk_wf (map reset_chunk (mp_chunks p))"
    using D(4) by (force simp: list_all_iff reset_chunk_def chunk_wf_def)
  moreover have "ck_self (hd (map reset_chunk (mp_chunks p))) = ck_self (hd (mp_chunks p))"
    using D(2) by (simp add: hd_map reset_chunk_def)
  moreover have "0 < length (mp_chunks p)" using D(2) by simp
  ultimately have "chunks_wf w ?p" using wf blocks by (simp add: chunks_wf_def)
  then have "pool_wf w ?p" by (simp add: pool_wf_def larges_wf_def)
  moreover have "pool_owned w ?p = {}"
    by (simp add: pool_owned_def pool_used_def large_blocks_def chunk_used_def reset_chunk_def)
  moreover have "list_all (\<lambda>c. ck_fail c = 0) (map reset_chunk (mp_chunks p))"
    by (simp add: list_all_iff reset_chunk_def)
  ultimately show ?thesis using cl blocks by simp
qed

theorem mem_pool_clear_empties_witness:
  "\<exists>p'. mem_pool_clear demo_w demo_pool = Inr (demo_w, p') \<and> pool_owned demo_w p' = {}"
  using mem_pool_clear_empties [OF demo_pool_wf] by (auto simp: demo_eval)

text \<open>
  C24: \<open>add_mem_chunk\<close> allocates \<open>total\<close> bytes but hands out the request behind a header of 32
  bytes.  A small request above \<open>total - 32\<close> that no chunk can serve therefore returns a block
  that ends beyond the memory \<open>malloc\<close> returned for it, and leaves a chunk with \<open>last\<close> above
  \<open>end\<close>; its converted room then exceeds every small request, so all later requests that reach
  the chunk are served out of bounds too.
\<close>

theorem add_mem_chunk_overflow:
  assumes wf: "pool_wf w p" and sz: "sz \<le> mp_max p" "mp_total p < sz + sizeof_mem_pool_chunk_t"
    and full: "chunk_scan sz (drop (mp_current p) (mp_chunks p)) = None"
    and m: "malloc w (mp_total p) = (nc, w1)" "nc \<noteq> NULL"
  shows "\<exists>p'. pmalloc w p sz = (nc + sizeof_mem_pool_chunk_t, w1, p') \<and>
    nc + mp_total p < nc + sizeof_mem_pool_chunk_t + sz \<and>
    ck_end (last (mp_chunks p')) < ck_last (last (mp_chunks p')) \<and>
    (\<forall>n \<le> mp_max p'. n \<le> chunk_room (last (mp_chunks p')))"
proof -
  have C: "chunks_wf w p" using wf by (simp add: pool_wf_def)
  note D = chunks_wfD [OF C]
  let ?nc = "new_chunk nc sz (mp_total p)"
  obtain a w' p' where add: "add_mem_chunk w p sz = (a, w', p')" using prod_cases3 by blast
  have szt: "sz \<le> mp_total p" using sz(1) D(10) by simp
  from add szt D(3) have r: "a = nc + sizeof_mem_pool_chunk_t" "w' = w1"
      "last (mp_chunks p') = ?nc" "mp_max p' = mp_max p"
    using m(2) by (auto simp: m(1) add_mem_chunk_def Let_def new_chunk_def split: prod.splits)
  have room: "chunk_room ?nc = size_mod + mp_total p - (sizeof_mem_pool_chunk_t + sz)"
    using sz D(9,10)
    by (simp add: chunk_room_def new_chunk_def to_size_t_neg sizeof_defs nat_diff_distrib nat_add_distrib)
  have "n \<le> chunk_room ?nc" if "n \<le> mp_max p" for n
    using that D(9) sz(1) by (simp add: room sizeof_defs)
  then show ?thesis
    using add full sz r by (auto simp: pmalloc_def pmalloc_small_def Let_def new_chunk_def)
qed

theorem add_mem_chunk_overflow_witness:
  "\<exists>w' p'. pmalloc demo_w demo_pool 1024 = (33554464, w', p') \<and>
     33554432 + 1024 < 33554464 + (1024 :: nat) \<and> 1024 \<le> chunk_room (last (mp_chunks p'))"
proof -
  have a: "1024 \<le> mp_max demo_pool" "mp_total demo_pool < 1024 + sizeof_mem_pool_chunk_t"
    "chunk_scan 1024 (drop (mp_current demo_pool) (mp_chunks demo_pool)) = None"
    "malloc demo_w (mp_total demo_pool) = (33554432, snd (malloc demo_w (mp_total demo_pool)))"
    by (simp_all add: demo_eval pmalloc_eval)
  from add_mem_chunk_overflow [OF demo_pool_wf a] obtain p' where
    "pmalloc demo_w demo_pool 1024 = (33554432 + sizeof_mem_pool_chunk_t, snd (malloc demo_w (mp_total demo_pool)), p')"
    "\<forall>n \<le> mp_max p'. n \<le> chunk_room (last (mp_chunks p'))" by auto
  moreover have "mp_max (snd (snd (pmalloc demo_w demo_pool 1024))) = 1024"
    by (simp add: demo_eval pmalloc_eval)
  ultimately show ?thesis by (auto simp: sizeof_defs)
qed

text \<open>
  C19: \<open>pcalloc\<close> returns a zeroed block under the same contract as \<open>pmalloc\<close>, and clearing it
  changes no byte that was handed out before.
\<close>

theorem pcalloc_zeroed:
  assumes "pool_wf w p" "request_fits p sz" "pcalloc w p sz = (a, w', p')"
  shows "pool_step w p a sz w' p' \<and> (\<forall>x \<in> pool_owned w p. cm_mem w' x = cm_mem w x) \<and>
    (a \<noteq> NULL \<longrightarrow> mem_bytes (cm_mem w') a sz = replicate sz NUL)"
proof -
  obtain w1 where r: "pmalloc w p sz = (a, w1, p')"
    and w': "w' = (if a \<noteq> NULL then memset w1 a NUL sz else w1)"
    using assms(3) by (auto simp: pcalloc_def split: prod.splits if_splits)
  note S = pmalloc_spec [OF assms(1,2) r]
  have live: "cm_live w' = cm_live w1" by (simp add: w' frame_simps)
  have "live_wf w1" using S by (simp add: pool_step_def pool_wf_def chunks_wf_def)
  then have "live_wf w'" using live by (simp add: live_wf_def)
  then have S': "pool_step w p a sz w' p'"
    using S pool_wf_mono [of w1 p' w'] live by (simp add: pool_step_def pool_owned_def large_blocks_def)
  have "cm_mem w1 = cm_mem w" by (rule pmalloc_mem [OF r])
  then have "\<forall>x \<in> pool_owned w p. cm_mem w' x = cm_mem w x"
    using S by (auto simp: w' memset_def pool_step_def cells_def)
  then show ?thesis using S' mem_bytes_memset [of w1 a NUL sz] by (simp add: w')
qed

theorem pcalloc_zeroed_witness:
  "mem_bytes (cm_mem (fst (snd (pcalloc demo_w demo_pool 4)))) 16777304 4 = replicate 4 NUL"
proof -
  obtain a w' p' where r: "pcalloc demo_w demo_pool 4 = (a, w', p')" using prod_cases3 by blast
  have "fst (pcalloc demo_w demo_pool 4) = 16777304" by (simp add: pcalloc_def pmalloc_eval demo_eval)
  moreover have "request_fits demo_pool 4" by (simp add: request_fits_def demo_eval)
  ultimately show ?thesis using pcalloc_zeroed [OF demo_pool_wf _ r] r by simp
qed

text \<open>
  C25: \<open>pfree_large\<close> on the address of a live large block frees exactly that block, keeps the
  pool well-formed and leaves a header that no longer refers to it; on any other address it
  returns the error code and changes nothing.
\<close>

theorem pfree_large_correct:
  assumes wf: "pool_wf w p" and a: "a \<noteq> NULL"
  shows "if a \<in> lg_data ` set (mp_large p)
    then \<exists>p'. pfree_large w p a = Inr (XPE_OK, free_block w a, p') \<and> pool_wf (free_block w a) p' \<and>
         a \<notin> lg_data ` set (mp_large p') \<and> length (mp_large p') = length (mp_large p)
    else pfree_large w p a = Inr (XPE_ERROR, w, p)"
proof (cases "a \<in> lg_data ` set (mp_large p)")
  case True
  have L: "larges_wf w p" using wf by (simp add: pool_wf_def)
  have "a \<in> fst ` set (cm_live w)" using True larges_wfD(3) [OF L] a by auto
  then have "c_free w a = Inr (free_block w a)" using a by (simp add: c_free_def)
  with pfree_scan_hit [OF True] obtain i where i: "i < length (mp_large p)" "lg_data (mp_large p ! i) = a"
    "pfree_scan w a (mp_large p) = Inr (XPE_OK, free_block w a, (mp_large p)[i := (mp_large p ! i)\<lparr>lg_data := NULL\<rparr>])"
    by blast
  show ?thesis using True i(3) drop_large_wf [OF wf i(1,2) a refl] by (simp add: pfree_large_def)
next
  case False
  then show ?thesis by (simp add: pfree_large_def pfree_scan_miss)
qed

theorem pfree_large_correct_witness:
  "(\<exists>w' p'. pfree_large (fst demo_large) (snd demo_large) 33554432 = Inr (0, w', p') \<and> pool_wf w' p') \<and>
   pfree_large (fst demo_large) (snd demo_large) 7 = Inr (- 1, fst demo_large, snd demo_large)"
proof -
  have l: "lg_data ` set (mp_large (snd demo_large)) = {33554432}"
    by (simp add: demo_large_def pmalloc_eval demo_eval)
  show ?thesis
    using pfree_large_correct [OF demo_large_wf, of 33554432] pfree_large_correct [OF demo_large_wf, of 7]
    by (auto simp: l)
qed

end
