(* ===== verification/XFile.thy ===== *)
theory XFile
  imports OSWorld MemPool
begin

text \<open>
  \<open>xfile.c\<close> (open, read and write of files) and \<open>log_create\<close> of \<open>logger.c\<close>.  The loop of
  \<open>file_write\<close> goes on until everything has been accepted, so it is a partial function:
  \<open>None\<close> stands for a loop that never ends.
\<close>

definition sizeof_file_t :: nat where "sizeof_file_t = 32"
definition sizeof_logger_t :: nat where "sizeof_logger_t = 16"

declare sizeof_file_t_def [sizeof_defs] sizeof_logger_t_def [sizeof_defs]

section \<open>Operations\<close>

text \<open>The field \<open>offset\<close>, eight bytes into the structure, keeps what its memory holds.\<close>

definition file_open :: "'a world_scheme \<Rightarrow> mem_pool_t \<Rightarrow> byte list \<Rightarrow>
    file_t option \<times> 'a world_scheme \<times> mem_pool_t" where
  "file_open w pool name =
     (case pmalloc w pool sizeof_file_t of
        (file, w1, pool1) \<Rightarrow>
          if file = NULL then (None, w1, pool1)
          else (case os_call w1 (Sys_open name FL_RDONLY 420) of
             (fd, w2) \<Rightarrow>
               if fd = FL_INVALID_FD then (None, w2, pool1)
               else (Some \<lparr>fl_fd = fd, fl_offset = mem_long (cm_mem w2) (file + 8), fl_name = xstring name\<rparr>, w2, pool1)))"

text \<open>The move to another offset that a read or a write begins with.\<close>

definition file_seek :: "'a world_scheme \<Rightarrow> file_t \<Rightarrow> int \<Rightarrow> bool \<times> file_t \<times> 'a world_scheme" where
  "file_seek w f offset =
     (if offset \<noteq> FL_DEFAULT_OFFSET \<and> offset \<noteq> fl_offset f then
        (case os_call w (Sys_lseek (fl_fd f) offset) of
           (r, w1) \<Rightarrow> if r = -1 then (False, f, w1) else (True, f\<lparr>fl_offset := offset\<rparr>, w1))
      else (True, f, w))"

definition file_read :: "'a world_scheme \<Rightarrow> file_t \<Rightarrow> nat \<Rightarrow> int \<Rightarrow>
    byte list option \<times> file_t \<times> 'a world_scheme" where
  "file_read w f sz offset =
     (case file_seek w f offset of
        (ok, f1, w1) \<Rightarrow>
          if \<not> ok then (None, f1, w1)
          else (case os_read w1 (fl_fd f1) sz of
             (None, w2) \<Rightarrow> (None, f1, w2)
           | (Some bs, w2) \<Rightarrow> (Some bs, f1\<lparr>fl_offset := fl_offset f1 + int (length bs)\<rparr>, w2)))"

partial_function (option) write_loop :: "'a world_scheme \<Rightarrow> file_t \<Rightarrow> byte list \<Rightarrow> int \<Rightarrow>
    (int \<times> file_t \<times> 'a world_scheme) option" where
  "write_loop w f rest written =
     (let (n, w1) = os_write w (fl_fd f) rest
      in if n = -1 then Some (XPE_ERROR, f, w1)
         else let f1 = f\<lparr>fl_offset := fl_offset f + n\<rparr>
              in if n = int (length rest) then Some (written + n, f1, w1)
                 else write_loop w1 f1 (drop (nat n) rest) (written + n))"

definition file_write :: "'a world_scheme \<Rightarrow> file_t \<Rightarrow> byte list \<Rightarrow> int \<Rightarrow>
    (int \<times> file_t \<times> 'a world_scheme) option" where
  "file_write w f buf offset =
     (case file_seek w f offset of
        (ok, f1, w1) \<Rightarrow> if \<not> ok then Some (XPE_ERROR, f1, w1) else write_loop w1 f1 buf 0)"

definition log_create :: "'a world_scheme \<Rightarrow> mem_pool_t \<Rightarrow> log_level \<Rightarrow> file_t \<Rightarrow>
    logger_t option \<times> 'a world_scheme \<times> mem_pool_t" where
  "log_create w pool level file =
     (case pmalloc w pool sizeof_logger_t of
        (p, w1, pool1) \<Rightarrow>
          if p = NULL then (None, log_error w1 (mp_logger pool1) 0 ''pmalloc failed'', pool1)
          else (Some \<lparr>lg_level = level, lg_file = Some file\<rparr>, w1, pool1))"

section \<open>What a write leaves in a file\<close>

text \<open>
  The content of a file that held \<open>old\<close> after it has been opened with the given flags and \<open>bs\<close>
  has been written to it.
\<close>

definition file_after :: "u32 \<Rightarrow> byte list \<Rightarrow> byte list \<Rightarrow> byte list" where
  "file_after flags old bs =
     (let kept = (if flags AND O_TRUNC \<noteq> 0 then [] else old)
      in if flags AND O_APPEND \<noteq> 0 then kept @ bs else bs @ drop (length bs) kept)"

lemma file_after_append: "file_after (FL_APPEND OR FL_CREATE) old bs = old @ bs"
  by (simp add: file_after_def open_flags)

lemma file_after_overwrite: "file_after (FL_WRONLY OR FL_CREATE) old bs = bs @ drop (length bs) old"
  by (simp add: file_after_def open_flags)

section \<open>Facts\<close>

text \<open>
  What the write loop has done when it returns: it has handed a prefix of the bytes to the
  kernel, on its own descriptor only, advanced the offset by its length, and reports success
  only for all of them and an error only after a failed call.
\<close>

definition wrote :: "'a world_scheme \<Rightarrow> file_t \<Rightarrow> byte list \<Rightarrow> int \<Rightarrow> int \<times> file_t \<times> 'a world_scheme \<Rightarrow> bool" where
  "wrote w f bs written res \<longleftrightarrow> (case res of (r, f', w') \<Rightarrow>
     os_answer w' = os_answer w \<and> (\<exists>tr k. os_trace w' = os_trace w @ tr \<and> k \<le> length bs \<and>
       (\<forall>fd. written_to fd tr = (if fd = fl_fd f then take k bs else [])) \<and>
       f' = f\<lparr>fl_offset := fl_offset f + int k\<rparr> \<and>
       (r = XPE_ERROR \<and> (\<exists>s. (s, -1) \<in> set tr) \<or> r = written + int (length bs) \<and> k = length bs)))"

lemma wrote_step:
  assumes n: "0 \<le> n" "n \<le> int (length bs)"
    and r: "wrote (os_done w (Sys_write (fl_fd f) bs) n) (f\<lparr>fl_offset := fl_offset f + n\<rparr>) (drop (nat n) bs) (written + n) res"
  shows "wrote w f bs written res"
proof -
  obtain r0 f' w' where res: "res = (r0, f', w')" by (cases res)
  with r obtain tr k where h: "os_answer w' = os_answer w" "os_trace w' = os_trace (os_done w (Sys_write (fl_fd f) bs) n) @ tr"
    "k \<le> length (drop (nat n) bs)"
    "\<forall>fd. written_to fd tr = (if fd = fl_fd f then take k (drop (nat n) bs) else [])"
    "f' = f\<lparr>fl_offset := fl_offset f + n + int k\<rparr>"
    "r0 = XPE_ERROR \<and> (\<exists>s. (s, -1) \<in> set tr) \<or>
     r0 = written + n + int (length (drop (nat n) bs)) \<and> k = length (drop (nat n) bs)"
    by (auto simp: wrote_def frame_simps)
  have "take (nat n + k) bs = take (nat n) bs @ take k (drop (nat n) bs)" by (simp add: take_add)
  with h n show ?thesis unfolding wrote_def res prod.case
    by (intro conjI exI [of _ "(Sys_write (fl_fd f) bs, n) # tr"] exI [of _ "nat n + k"])
      (auto simp: frame_simps algebra_simps)
qed

text \<open>
  A kernel that never answers a \<open>write\<close> of at least one byte with 0: POSIX allows 0 only when
  nothing was to be written.
\<close>

definition write_progress :: "'a world_scheme \<Rightarrow> bool" where
  "write_progress w \<longleftrightarrow> (\<forall>k. os_answer w k \<noteq> 0)"

lemma write_loop_total:
  "write_progress w \<Longrightarrow> \<exists>res. write_loop w f bs written = Some res \<and> wrote w f bs written res"
proof (induction "length bs" arbitrary: w f bs written rule: less_induct)
  case less
  define n where "n = max (-1) (min (os_answer w (os_calls w)) (int (length bs)))"
  define w1 where "w1 = os_done w (Sys_write (fl_fd f) bs) n"
  define f1 where "f1 = f\<lparr>fl_offset := fl_offset f + n\<rparr>"
  have o: "os_write w (fl_fd f) bs = (n, w1)" by (simp add: os_write_def Let_def n_def w1_def)
  have p: "write_progress w1" using less.prems by (simp add: write_progress_def w1_def frame_simps)
  have n: "-1 \<le> n" "n \<le> int (length bs)" by (auto simp: n_def)
  consider (err) "n = -1" | (all) "0 \<le> n" "n = int (length bs)" | (part) "0 \<le> n" "n < int (length bs)"
    using n by linarith
  then show ?case
  proof cases
    case err
    have "wrote w f bs written (XPE_ERROR, f, w1)"
      unfolding wrote_def prod.case
      by (intro conjI exI [of _ "[(Sys_write (fl_fd f) bs, n)]"] exI [of _ 0]) (simp_all add: w1_def frame_simps err)
    with o err show ?thesis by (subst write_loop.simps) simp
  next
    case all
    then have "wrote w f bs written (written + n, f1, w1)"
      unfolding wrote_def prod.case
      by (intro conjI exI [of _ "[(Sys_write (fl_fd f) bs, n)]"] exI [of _ "length bs"]) (simp_all add: w1_def f1_def frame_simps)
    with o all show ?thesis by (subst write_loop.simps) (simp add: f1_def)
  next
    case part
    have "os_answer w (os_calls w) \<noteq> 0" using less.prems by (simp add: write_progress_def)
    with part have "0 < n" by (auto simp: n_def)
    then have "length (drop (nat n) bs) < length bs" using part by simp
    from less.hyps [OF this p, of f1 "written + n"] obtain res where
      r: "write_loop w1 f1 (drop (nat n) bs) (written + n) = Some res"
      "wrote w1 f1 (drop (nat n) bs) (written + n) res" by blast
    with wrote_step [OF part(1), of bs w f written res] n have "wrote w f bs written res"
      by (simp add: w1_def f1_def)
    with r o part show ?thesis by (subst write_loop.simps) (simp add: f1_def)
  qed
qed

section \<open>Properties\<close>

text \<open>
  C20: \<open>file_write\<close> returns, and writes all or reports an error.  When the kernel never answers
  a nonempty write with 0, the loop ends; the bytes the kernel accepted are a prefix of the
  buffer in order, the offset has moved by their number, and the result is the size of the
  buffer only when all bytes were accepted, and the error code otherwise.
\<close>

theorem file_write_complete:
  assumes "write_progress w"
  shows "\<exists>r f' w' tr k. file_write w f buf FL_DEFAULT_OFFSET = Some (r, f', w') \<and>
     os_trace w' = os_trace w @ tr \<and> k \<le> length buf \<and> written_to (fl_fd f) tr = take k buf \<and>
     fl_offset f' = fl_offset f + int k \<and>
     (r = XPE_ERROR \<or> r = int (length buf) \<and> k = length buf)"
proof -
  obtain res where r: "write_loop w f buf 0 = Some res" "wrote w f buf 0 res"
    using write_loop_total [OF assms, of f buf 0] by blast
  obtain r0 f' w' where res: "res = (r0, f', w')" by (cases res)
  from r(2) obtain tr k where "os_trace w' = os_trace w @ tr" "k \<le> length buf"
    "\<forall>fd. written_to fd tr = (if fd = fl_fd f then take k buf else [])" "f' = f\<lparr>fl_offset := fl_offset f + int k\<rparr>"
    "r0 = XPE_ERROR \<or> r0 = int (length buf) \<and> k = length buf"
    unfolding wrote_def res prod.case by auto
  then show ?thesis using r(1) unfolding res
    by (intro exI [of _ r0] exI [of _ f'] exI [of _ w'] exI [of _ tr] exI [of _ k])
      (auto simp: file_write_def file_seek_def)
qed

text \<open>A file on descriptor 3, and a kernel that takes two bytes at a time.\<close>

definition demo_file :: file_t where
  "demo_file = \<lparr>fl_fd = 3, fl_offset = 0, fl_name = xstring ''log/xpipe.log''\<rparr>"

theorem file_write_complete_witness:
  "write_progress (demo_world (\<lambda>_. 2) (\<lambda>_. [])) \<and>
   (\<exists>f' w'. file_write (demo_world (\<lambda>_. 2) (\<lambda>_. [])) demo_file ''hello'' FL_DEFAULT_OFFSET = Some (5, f', w') \<and>
     fl_offset f' = 5)"
proof -
  have p: "write_progress (demo_world (\<lambda>_. 2) (\<lambda>_. []))"
    by (simp add: write_progress_def demo_world_def cmem.defs)
  have e: "\<exists>f' w'. file_write (demo_world (\<lambda>_. 2) (\<lambda>_. [])) demo_file ''hello'' FL_DEFAULT_OFFSET = Some (5, f', w')"
    by (simp add: file_write_def file_seek_def write_loop.simps os_write_def Let_def demo_world_def cmem.defs
        os_done_def demo_file_def)
  with file_write_complete [OF p, of demo_file "''hello''"] p show ?thesis
    by (auto simp: demo_file_def split: if_splits)
qed

end
