(* ===== verification/DynArray.thy ===== *)
theory DynArray
  imports MemPool
begin

text \<open>
  \<open>dynamic_array.h\<close> and \<open>dynamic_array.c\<close>: a growing array whose elements live in a pool.
  The elements are structures and pointers, so their memory is kept with the array as a partial
  function from addresses to values (\<open>None\<close> where nothing has been written).  The functions
  compute addresses as the code does, a caller reads and writes at the address it was given
  (\<open>da_load\<close>, \<open>da_store\<close>), and the \<open>memcpy\<close> of a growing array copies by address.  The array's
  \<open>pool\<close> pointer is the pool argument.
\<close>

section \<open>Data\<close>

abbreviation (input) uint_mod :: nat where "uint_mod \<equiv> 4294967296"

definition sizeof_dynamic_array_t :: nat where "sizeof_dynamic_array_t = 32"

declare sizeof_dynamic_array_t_def [sizeof_defs]

record 'e dynamic_array_t =
  da_elts :: addr
  da_size :: nat
  da_nelts :: nat
  da_nalloc :: nat
  da_cells :: "addr \<rightharpoonup> 'e"

section \<open>Operations\<close>

text \<open>\<open>memcpy(dst, src, n)\<close> on the memory of elements.\<close>

definition copy_cells :: "(addr \<rightharpoonup> 'e) \<Rightarrow> addr \<Rightarrow> addr \<Rightarrow> nat \<Rightarrow> addr \<rightharpoonup> 'e" where
  "copy_cells m dst src n = (\<lambda>x. if dst \<le> x \<and> x < dst + n then m (src + (x - dst)) else m x)"

definition dynamic_array_create :: "'a cmem_scheme \<Rightarrow> mem_pool_t \<Rightarrow> nat \<Rightarrow> nat \<Rightarrow>
    'e dynamic_array_t option \<times> 'a cmem_scheme \<times> mem_pool_t" where
  "dynamic_array_create w pool n sz =
     (case pmalloc w pool sizeof_dynamic_array_t of
        (a, w1, pool1) \<Rightarrow>
          if a = NULL then (None, log_error w1 (mp_logger pool1) 0 ''create array failed'', pool1)
          else (case pmalloc w1 pool1 (n * sz mod uint_mod) of
             (elts, w2, pool2) \<Rightarrow>
               if elts = NULL
               then (None, log_error w2 (mp_logger pool2) 0 ''create array's elts failed'', pool2)
               else (Some \<lparr>da_elts = elts, da_size = sz, da_nelts = 0, da_nalloc = n,
                           da_cells = Map.empty\<rparr>, w2, pool2)))"

definition dynamic_array_init :: "'a cmem_scheme \<Rightarrow> mem_pool_t \<Rightarrow> nat \<Rightarrow> nat \<Rightarrow>
    'e dynamic_array_t option \<times> 'a cmem_scheme \<times> mem_pool_t" where
  "dynamic_array_init w pool n sz =
     (case pmalloc w pool (n * sz mod size_mod) of
        (elts, w1, pool1) \<Rightarrow>
          if elts = NULL then (None, w1, pool1)
          else (Some \<lparr>da_elts = elts, da_size = sz, da_nelts = 0, da_nalloc = n,
                      da_cells = Map.empty\<rparr>, w1, pool1))"

definition dynamic_array_push :: "'a cmem_scheme \<Rightarrow> mem_pool_t \<Rightarrow> 'e dynamic_array_t \<Rightarrow>
    addr \<times> 'a cmem_scheme \<times> mem_pool_t \<times> 'e dynamic_array_t" where
  "dynamic_array_push w pool array =
     (let slot = (\<lambda>w pool (array :: 'e dynamic_array_t).
            (da_elts array + da_nelts array * da_size array, w, pool,
             array\<lparr>da_nelts := Suc (da_nelts array) mod uint_mod\<rparr>))
      in if da_nelts array = da_nalloc array then
           let size1 = da_size array * da_nalloc array mod size_mod
           in (case pmalloc w pool (2 * size1 mod size_mod) of
                 (new, w1, pool1) \<Rightarrow>
                   if new = NULL
                   then (NULL, log_error w1 (mp_logger pool1) 0 ''extend array failed'', pool1, array)
                   else slot w1 pool1
                     (array\<lparr>da_cells := copy_cells (da_cells array) new (da_elts array) size1,
                            da_nalloc := da_nalloc array * 2 mod uint_mod, da_elts := new\<rparr>))
         else slot w pool array)"

definition dynamic_array_push_ix :: "'a cmem_scheme \<Rightarrow> mem_pool_t \<Rightarrow> 'e dynamic_array_t \<Rightarrow> nat \<Rightarrow>
    addr \<times> 'a cmem_scheme" where
  "dynamic_array_push_ix w pool array index =
     (if index \<ge> da_nalloc array
      then (NULL, log_error w (mp_logger pool) 0 ''index out of array length'')
      else (da_elts array + index * da_size array, w))"

definition dynamic_array_get_ix :: "'a cmem_scheme \<Rightarrow> mem_pool_t \<Rightarrow> 'e dynamic_array_t \<Rightarrow> nat \<Rightarrow>
    addr \<times> 'a cmem_scheme" where
  "dynamic_array_get_ix w pool array index =
     (if index \<ge> da_nelts array
      then (NULL, log_error w (mp_logger pool) 0 ''index out of array elements'')
      else (da_elts array + index * da_size array, w))"

text \<open>Both have an empty body: the memory goes with the pool.\<close>

definition dynamic_array_destroy :: "'e dynamic_array_t \<Rightarrow> 'e dynamic_array_t" where
  "dynamic_array_destroy array = array"

definition dynamic_array_clear :: "'e dynamic_array_t \<Rightarrow> 'e dynamic_array_t" where
  "dynamic_array_clear array = array"

text \<open>Writing and reading through a returned pointer.\<close>

definition da_store :: "'e dynamic_array_t \<Rightarrow> addr \<Rightarrow> 'e \<Rightarrow> 'e dynamic_array_t" where
  "da_store array p x = array\<lparr>da_cells := (da_cells array)(p \<mapsto> x)\<rparr>"

definition da_load :: "'e dynamic_array_t \<Rightarrow> addr \<Rightarrow> 'e option" where
  "da_load array p = da_cells array p"

text \<open>Push one element: the pointer of the new slot, then the caller's write through it.\<close>

definition da_push_value :: "'a cmem_scheme \<Rightarrow> mem_pool_t \<Rightarrow> 'e dynamic_array_t \<Rightarrow> 'e \<Rightarrow>
    addr \<times> 'a cmem_scheme \<times> mem_pool_t \<times> 'e dynamic_array_t" where
  "da_push_value w pool array x =
     (case dynamic_array_push w pool array of
        (p, w1, pool1, array1) \<Rightarrow>
          if p = NULL then (p, w1, pool1, array1)
          else (p, w1, pool1, da_store array1 p x))"

section \<open>Invariant and abstraction\<close>

text \<open>The address of element \<open>i\<close>.\<close>

definition elt_addr :: "'e dynamic_array_t \<Rightarrow> nat \<Rightarrow> addr" where
  "elt_addr a i = da_elts a + i * da_size a"

text \<open>The counters fit together; and moreover every element has been written.\<close>

definition array_shape :: "'e dynamic_array_t \<Rightarrow> bool" where
  "array_shape a \<longleftrightarrow> 0 < da_nalloc a \<and> da_nelts a \<le> da_nalloc a \<and> da_nalloc a < uint_mod \<and> 0 < da_elts a"

definition array_wf :: "'e dynamic_array_t \<Rightarrow> bool" where
  "array_wf a \<longleftrightarrow> array_shape a \<and> 0 < da_size a \<and> da_size a < uint_mod \<and>
     list_all (\<lambda>i. da_cells a (elt_addr a i) \<noteq> None) [0..<da_nelts a]"

text \<open>The elements of the array, in order: what the memory holds at their addresses.\<close>

definition elems :: "'e dynamic_array_t \<Rightarrow> 'e list" where
  "elems a = map (\<lambda>i. the (da_cells a (elt_addr a i))) [0..<da_nelts a]"

text \<open>The bytes of the array's block.\<close>

definition array_area :: "'e dynamic_array_t \<Rightarrow> addr set" where
  "array_area a = {da_elts a ..< da_elts a + da_nalloc a * da_size a}"

section \<open>The contract of a growing array\<close>

text \<open>Pushing the elements of a list one after the other, up to the first failure.\<close>

fun push_seq :: "('s \<Rightarrow> 'e \<Rightarrow> bool \<times> 's) \<Rightarrow> 's \<Rightarrow> 'e list \<Rightarrow> bool \<times> 's" where
  "push_seq push s [] = (True, s)"
| "push_seq push s (x # xs) =
     (case push s x of (ok, s1) \<Rightarrow> if ok then push_seq push s1 xs else (False, s1))"

locale growing_array =
  fixes push :: "'s \<Rightarrow> 'e \<Rightarrow> bool \<times> 's"
    and get :: "'s \<Rightarrow> nat \<Rightarrow> 'e option"
    and list :: "'s \<Rightarrow> 'e list"
    and inv :: "'s \<Rightarrow> bool"
    and cap :: nat
  assumes push_inv: "inv s \<Longrightarrow> length (list s) < cap \<Longrightarrow> push s x = (ok, s') \<Longrightarrow> inv s'"
    and push_list: "inv s \<Longrightarrow> length (list s) < cap \<Longrightarrow> push s x = (ok, s') \<Longrightarrow>
          list s' = (if ok then list s @ [x] else list s)"
    and get_list: "inv s \<Longrightarrow> get s i = (if i < length (list s) then Some (list s ! i) else None)"
begin

lemma push_seq_list:
  assumes "inv s" "length (list s) + length xs \<le> cap" "push_seq push s xs = (True, s')"
  shows "inv s' \<and> list s' = list s @ xs"
  using assms
proof (induction xs arbitrary: s)
  case (Cons x xs)
  obtain s1 where p: "push s x = (True, s1)" "push_seq push s1 xs = (True, s')"
    using Cons.prems(3) by (auto split: prod.splits if_splits)
  have c: "length (list s) < cap" using Cons.prems(2) by simp
  have "inv s1" "list s1 = list s @ [x]"
    using push_inv [OF Cons.prems(1) c p(1)] push_list [OF Cons.prems(1) c p(1)] by auto
  then show ?case using Cons.IH [OF _ _ p(2)] Cons.prems(2) by auto
qed auto

lemma push_seq_get:
  assumes "inv s" "length (list s) + length xs \<le> cap" "push_seq push s xs = (True, s')"
    "i < length (list s) + length xs"
  shows "get s' i = Some ((list s @ xs) ! i)"
  using push_seq_list [OF assms(1-3)] get_list assms(4) by simp

end

section \<open>Facts\<close>

lemma array_shapeD:
  assumes "array_shape a"
  shows "0 < da_nalloc a" "da_nelts a \<le> da_nalloc a" "da_nalloc a < uint_mod" "0 < da_elts a"
  using assms by (simp_all add: array_shape_def)

lemma array_wfD:
  assumes "array_wf a"
  shows "0 < da_nalloc a" "da_nelts a \<le> da_nalloc a" "da_nalloc a < uint_mod"
    "0 < da_size a" "0 < da_elts a" "da_size a < uint_mod"
  using assms by (auto simp: array_wf_def array_shape_def)

lemma length_elems [simp]: "array_wf a \<Longrightarrow> length (elems a) = da_nelts a"
  by (simp add: elems_def array_wf_def array_shape_def)

lemma elems_nth: "array_wf a \<Longrightarrow> i < da_nelts a \<Longrightarrow> da_load a (da_elts a + i * da_size a) = Some (elems a ! i)"
  by (force simp: elems_def da_load_def array_wf_def array_shape_def elt_addr_def list_all_iff)

text \<open>The outcomes of a push: failure leaves the array alone, success yields the next slot.\<close>

definition grown :: "'e dynamic_array_t \<Rightarrow> addr \<Rightarrow> 'e dynamic_array_t" where
  "grown a new = a\<lparr>da_cells := copy_cells (da_cells a) new (da_elts a) (da_size a * da_nalloc a mod size_mod),
     da_nalloc := da_nalloc a * 2 mod uint_mod, da_elts := new\<rparr>"

definition next_slot :: "'e dynamic_array_t \<Rightarrow> 'e dynamic_array_t" where
  "next_slot a = a\<lparr>da_nelts := Suc (da_nelts a) mod uint_mod\<rparr>"

definition grow_request :: "'e dynamic_array_t \<Rightarrow> nat" where
  "grow_request a = 2 * (da_size a * da_nalloc a mod size_mod) mod size_mod"

lemma push_cases:
  assumes "dynamic_array_push w pool a = (p, w', pool', a')"
  obtains (room) "da_nelts a \<noteq> da_nalloc a" "p = da_elts a + da_nelts a * da_size a"
      "w' = w" "pool' = pool" "a' = next_slot a"
  | (fail) w1 where "da_nelts a = da_nalloc a" "p = NULL"
      "pmalloc w pool (grow_request a) = (NULL, w1, pool')" "a' = a"
      "w' = log_error w1 (mp_logger pool') 0 ''extend array failed''"
  | (grow) new where "da_nelts a = da_nalloc a" "pmalloc w pool (grow_request a) = (new, w', pool')"
      "new \<noteq> NULL" "p = new + da_nelts a * da_size a" "a' = next_slot (grown a new)"
  using assms unfolding grow_request_def
  by (auto simp: dynamic_array_push_def Let_def next_slot_def grown_def
      split: if_splits prod.splits)

lemma elt_addr_eq: "0 < da_size a \<Longrightarrow> elt_addr a i = elt_addr a j \<longleftrightarrow> i = j"
  by (simp add: elt_addr_def)

text \<open>Writing the next element at its address.\<close>

lemma store_next_slot:
  fixes x :: 'e
  assumes "array_wf a" "da_nelts a < da_nalloc a"
  defines "a' \<equiv> da_store (next_slot a) (da_elts a + da_nelts a * da_size a) x"
  shows "array_wf a'" "elems a' = elems a @ [x]"
proof -
  note D = array_wfD [OF assms(1)]
  have n: "da_nelts a' = Suc (da_nelts a)" using D(3) assms(2) by (simp add: a'_def da_store_def next_slot_def)
  have e: "elt_addr a' i = elt_addr a i" "da_nalloc a' = da_nalloc a" "da_elts a' = da_elts a" "da_size a' = da_size a" for i
    by (simp_all add: a'_def da_store_def next_slot_def elt_addr_def)
  have c: "da_cells a' (elt_addr a i) = (if i = da_nelts a then Some x else da_cells a (elt_addr a i))" for i
    using elt_addr_eq [OF D(4), of i "da_nelts a"] by (simp add: a'_def da_store_def next_slot_def elt_addr_def)
  show "array_wf a'" using assms(1,2) by (auto simp: array_wf_def array_shape_def n e c list_all_iff)
  show "elems a' = elems a @ [x]" by (simp add: elems_def n e c)
qed

text \<open>A grown array has its elements at the new addresses.\<close>

lemma copy_cells_elt:
  assumes "i < k" "0 < (sz :: nat)"
  shows "copy_cells m dst src (sz * k) (dst + i * sz) = m (src + i * sz)"
proof -
  have "i * sz < k * sz" using assms by simp
  then show ?thesis by (simp add: copy_cells_def mult.commute)
qed

lemma grown_wf:
  assumes "array_wf a" "da_nelts a = da_nalloc a" "da_nalloc a < 2147483648" "0 < new"
  shows "array_wf (grown a new)" "elems (grown a new) = elems a"
    "da_nelts (grown a new) = da_nelts a" "da_nalloc (grown a new) = 2 * da_nalloc a"
proof -
  note D = array_wfD [OF assms(1)]
  have "da_size a * da_nalloc a < uint_mod * 2147483648" using D(6) assms(3) by (intro mult_strict_mono) auto
  then have s: "da_size a * da_nalloc a mod size_mod = da_size a * da_nalloc a" by simp
  have c: "da_cells (grown a new) (elt_addr (grown a new) i) = da_cells a (elt_addr a i)" if "i < da_nelts a" for i
    using that copy_cells_elt [OF _ D(4), of i "da_nalloc a"] assms(2) unfolding grown_def s by (simp add: elt_addr_def)
  show n: "da_nelts (grown a new) = da_nelts a" "da_nalloc (grown a new) = 2 * da_nalloc a"
    using assms(3) by (simp_all add: grown_def)
  show "array_wf (grown a new)"
    using assms(1-4) D c by (simp add: array_wf_def array_shape_def list_all_iff n) (simp add: grown_def)
  show "elems (grown a new) = elems a" using c by (simp add: elems_def n)
qed

lemma da_push_value_spec:
  assumes "array_wf a" "da_nelts a < 2147483648" "da_push_value w pool a x = (p, w', pool', a')"
  shows "array_wf a' \<and> elems a' = (if p \<noteq> NULL then elems a @ [x] else elems a)"
proof -
  note D = array_wfD [OF assms(1)]
  obtain a1 where r: "dynamic_array_push w pool a = (p, w', pool', a1)"
    and a': "a' = (if p = NULL then a1 else da_store a1 p x)"
    using assms(3) by (auto simp: da_push_value_def split: prod.splits if_splits)
  from r show ?thesis
  proof (cases rule: push_cases)
    case room
    then show ?thesis using store_next_slot [OF assms(1), of x] D by (simp add: a')
  next
    case fail
    then show ?thesis using assms(1) by (simp add: a')
  next
    case (grow new)
    note G = grown_wf [OF assms(1) grow(1) _ grow(3) [THEN bot_nat_0.not_eq_extremum [THEN iffD1]]]
    have "da_nelts (grown a new) < da_nalloc (grown a new)" using G assms(2) grow(1) D(1) by simp
    moreover have "p = da_elts (grown a new) + da_nelts (grown a new) * da_size (grown a new)" using grow(4) by (simp add: grown_def)
    moreover have "p \<noteq> NULL" using grow(3,4) by simp
    moreover from this have "a' = da_store (next_slot (grown a new)) p x" using grow(5) by (simp add: a')
    ultimately show ?thesis
      using store_next_slot [OF G(1), of x] G(2) assms(2) grow(1) by (simp only: if_True not_False_eq_True)
  qed
qed

text \<open>The array with the memory and the pool it lives in, as the state of the contract.\<close>

type_synonym ('a, 'e) array_state = "'a cmem_scheme \<times> mem_pool_t \<times> 'e dynamic_array_t"

definition array_push :: "('a, 'e) array_state \<Rightarrow> 'e \<Rightarrow> bool \<times> ('a, 'e) array_state" where
  "array_push s x = (case s of (w, pool, a) \<Rightarrow>
     (case da_push_value w pool a x of (p, s') \<Rightarrow> (p \<noteq> NULL, s')))"

definition array_get :: "('a, 'e) array_state \<Rightarrow> nat \<Rightarrow> 'e option" where
  "array_get s i = (case s of (w, pool, a) \<Rightarrow>
     case dynamic_array_get_ix w pool a i of (p, _) \<Rightarrow> if p = NULL then None else da_load a p)"

lemma array_push_spec:
  assumes "array_wf a" "da_nelts a < 2147483648" "array_push (w, pool, a) x = (ok, w', pool', a')"
  shows "array_wf a' \<and> elems a' = (if ok then elems a @ [x] else elems a)"
proof -
  obtain p where p: "da_push_value w pool a x = (p, w', pool', a')" "ok = (p \<noteq> NULL)"
    using assms(3) by (auto simp: array_push_def split: prod.splits)
  show ?thesis using da_push_value_spec [OF assms(1,2) p(1)] p(2) by simp
qed

interpretation arr: growing_array array_push array_get "\<lambda>s. elems (snd (snd s))"
  "\<lambda>s. array_wf (snd (snd s))" 2147483648
proof (unfold_locales, goal_cases)
  case (1 s x ok s')
  then show ?case using array_push_spec [of "snd (snd s)" "fst s" "fst (snd s)" x ok "fst s'" "fst (snd s')" "snd (snd s')"]
    by simp
next
  case (2 s x ok s')
  then show ?case using array_push_spec [of "snd (snd s)" "fst s" "fst (snd s)" x ok "fst s'" "fst (snd s')" "snd (snd s')"]
    by simp
next
  case (3 s i)
  then show ?case
    by (cases s) (auto simp: array_get_def dynamic_array_get_ix_def elems_nth array_wf_def array_shape_def)
qed

lemma live_set_top:
  assumes "live_wf w" "x \<in> live_set w"
  shows "x < addr_top"
proof -
  obtain b where b: "b \<in> set (cm_live w)" "x \<in> extent b" using assms(2) by (auto simp: live_set_def)
  have "blk_end b \<le> addr_top" by (rule live_wfD(3) [OF assms(1) b(1)])
  then show ?thesis using b(2) by (simp add: extent_def)
qed

lemma interval_bound:
  assumes "live_wf w" "{a ..< a + n} \<subseteq> live_set w"
  shows "n \<le> addr_top"
proof (cases "n = 0")
  case False
  then have "a + n - 1 \<in> {a ..< a + n}" by auto
  then have "a + n - 1 < addr_top" using assms live_set_top by blast
  then show ?thesis by simp
qed simp

lemma pool_step_log_error: "pool_step w p a sz w' p' \<Longrightarrow> pool_step w p a sz (log_error w' lg e f) p'"
  unfolding pool_step_def pool_owned_def large_blocks_def
  using pool_wf_mono [of w' p' "log_error w' lg e f"] by (simp add: frame_simps pool_wf_def chunks_wf_def)

lemma grow_request_eq:
  assumes "pool_wf w pool" "array_area a \<subseteq> pool_owned w pool"
  shows "grow_request a = 2 * (da_nalloc a * da_size a)"
proof -
  have "live_wf w" using assms(1) by (simp add: pool_wf_def chunks_wf_def)
  moreover have "{da_elts a ..< da_elts a + da_nalloc a * da_size a} \<subseteq> live_set w"
    using assms pool_owned_live unfolding array_area_def by blast
  ultimately have "da_nalloc a * da_size a \<le> addr_top" by (rule interval_bound)
  then show ?thesis by (simp add: grow_request_def addr_top_def mult.commute)
qed

lemma slot_in_block:
  assumes "i < n"
  shows "{e + i * s ..< e + i * s + s} \<subseteq> {e ..< e + n * s :: nat}"
proof -
  have "Suc i * s \<le> n * s" using assms by (intro mult_le_mono1) simp
  then show ?thesis by auto
qed

lemma create_array_wf:
  assumes wf: "pool_wf w pool" and f: "request_fits pool sizeof_dynamic_array_t" "request_fits pool (n * sz)"
    and n: "0 < n" "n < uint_mod" "n * sz < uint_mod" "0 < sz"
    and r: "dynamic_array_create w pool n sz = (Some a, w', pool')"
  shows "pool_wf w' pool' \<and> array_wf a \<and> elems a = [] \<and> array_area a \<subseteq> pool_owned w' pool' \<and>
    array_area a \<inter> pool_owned w pool = {} \<and> pool_owned w pool \<subseteq> pool_owned w' pool' \<and>
    da_size a = sz \<and> da_nalloc a = n"
proof -
  obtain h w1 pool1 where h: "pmalloc w pool sizeof_dynamic_array_t = (h, w1, pool1)" "h \<noteq> NULL"
    and e: "pmalloc w1 pool1 (n * sz) = (da_elts a, w', pool')" "da_elts a \<noteq> NULL"
    and a: "a = \<lparr>da_elts = da_elts a, da_size = sz, da_nelts = 0, da_nalloc = n, da_cells = Map.empty\<rparr>"
    using r n(3) by (auto simp: dynamic_array_create_def split: prod.splits if_splits)
  note S1 = pmalloc_spec [OF wf f(1) h(1)]
  then have wf1: "pool_wf w1 pool1" by (simp add: pool_step_def)
  note S2 = pmalloc_spec [OF wf1 request_fits_mono [OF f(2) S1] e(1)]
  have "array_area a = cells (da_elts a, n * sz)"
    using e(2) a by (simp add: array_area_def cells_def) (metis dynamic_array_t.select_convs(2,4))
  moreover have "sz < uint_mod" using n(1,3) by (metis le_less_trans mult.commute mult_le_mono2 nat_mult_1_right One_nat_def Suc_leI)
  then have "array_wf a \<and> elems a = [] \<and> da_size a = sz \<and> da_nalloc a = n"
    using n e(2) by (subst (1 2 3 4) a) (simp add: array_wf_def array_shape_def elems_def)
  ultimately show ?thesis using S1 S2 unfolding pool_step_def by blast
qed

section \<open>Properties\<close>

text \<open>
  C15: the array refines a list.  Pushing the values \<open>xs\<close> one after the other, each written
  through the pointer that \<open>dynamic_array_push\<close> returns, with every growth that this takes,
  leaves an array whose memory holds the old elements followed by \<open>xs\<close> (each reallocation copies
  all of them), and reading through the pointer of \<open>dynamic_array_get_ix\<close> finds element \<open>i\<close> of
  that list for every \<open>i\<close> below its length; beyond it there is no pointer.
\<close>

theorem dynamic_array_refines_list:
  assumes "array_wf a" "da_nelts a + length xs \<le> 2147483648"
    "push_seq array_push (w, pool, a) xs = (True, w', pool', a')"
  shows "array_wf a' \<and> elems a' = elems a @ xs \<and>
    (\<forall>i. array_get (w', pool', a') i =
       (if i < da_nelts a + length xs then Some ((elems a @ xs) ! i) else None))"
proof -
  have S: "array_wf a'" "elems a' = elems a @ xs"
    using arr.push_seq_list [of "(w, pool, a)" xs "(w', pool', a')"] assms by simp_all
  then have "array_get (w', pool', a') i =
       (if i < da_nelts a + length xs then Some ((elems a @ xs) ! i) else None)" for i
    using arr.get_list [of "(w', pool', a')" i] assms(1) by simp
  with S show ?thesis by blast
qed

text \<open>
  C16: a push on an array in a well-formed pool keeps the pool well-formed and the array inside
  memory the pool owns; the slot it returns lies inside the array's block, and a block that
  growth allocates is disjoint from everything handed out before.
\<close>

theorem dynamic_array_push_safe:
  assumes wf: "pool_wf w pool" and a: "array_shape a" "da_nelts a < 2147483648"
    and area: "array_area a \<subseteq> pool_owned w pool" and fits: "request_fits pool (grow_request a)"
    and push: "dynamic_array_push w pool a = (p, w', pool', a')"
  shows "pool_wf w' pool' \<and> pool_owned w pool \<subseteq> pool_owned w' pool' \<and>
    array_area a' \<subseteq> pool_owned w' pool' \<and>
    (array_area a' = array_area a \<or> array_area a' \<inter> pool_owned w pool = {}) \<and>
    (p \<noteq> NULL \<longrightarrow> {p ..< p + da_size a} \<subseteq> array_area a')"
  using push
proof (cases rule: push_cases)
  case room
  then have "da_nelts a < da_nalloc a" using array_shapeD(2) [OF a(1)] by simp
  then show ?thesis
    using wf area room slot_in_block [of "da_nelts a" "da_nalloc a" "da_elts a" "da_size a"]
    by (simp add: array_area_def next_slot_def)
next
  case (fail w1)
  have "pool_step w pool NULL (grow_request a) w' pool'"
    unfolding fail(5) by (rule pool_step_log_error [OF pmalloc_spec [OF wf fits fail(3)]])
  then show ?thesis using fail area by (auto simp: pool_step_def)
next
  case (grow new)
  have S: "pool_step w pool new (grow_request a) w' pool'" by (rule pmalloc_spec [OF wf fits grow(2)])
  have n: "da_nalloc a' = 2 * da_nalloc a"
    using a(2) grow(1) by (simp add: grow(5) next_slot_def grown_def)
  have "array_area a' = cells (new, grow_request a)"
    using grow(3) grow_request_eq [OF wf area] n
    by (simp add: array_area_def cells_def grow(5) next_slot_def grown_def mult.assoc)
  moreover have "da_nelts a < 2 * da_nalloc a" using grow(1) array_shapeD(1) [OF a(1)] by simp
  then have "{p ..< p + da_size a} \<subseteq> array_area a'"
    using slot_in_block [of "da_nelts a" "2 * da_nalloc a" new "da_size a"] n
    by (simp add: array_area_def grow(4,5) next_slot_def grown_def)
  ultimately show ?thesis using S unfolding pool_step_def by blast
qed

text \<open>A one-element array in the demonstration pool.\<close>

definition demo_array :: "cmem \<times> mem_pool_t \<times> nat dynamic_array_t" where
  "demo_array = (case dynamic_array_create demo_w demo_pool 1 8 of (a, w, p) \<Rightarrow> (w, p, the a))"

lemmas array_eval = demo_array_def dynamic_array_create_def dynamic_array_push_def da_push_value_def
  da_store_def array_push_def pmalloc_eval demo_eval
  sizeof_dynamic_array_t_def

lemma demo_array_wf: "array_wf (snd (snd demo_array))" "array_shape (snd (snd demo_array))"
  by (simp_all add: array_wf_def array_shape_def array_eval)

theorem dynamic_array_refines_list_witness:
  "\<exists>s. push_seq array_push demo_array [3, 1, 4] = (True, s) \<and> elems (snd (snd s)) = [3, 1, 4] \<and>
     array_get s 2 = Some 4 \<and> array_get s 3 = None"
proof -
  let ?a = "snd (snd demo_array)"
  obtain ok w' pool' a' where r: "push_seq array_push demo_array [3, 1, 4] = (ok, w', pool', a')"
    using prod_cases4 by blast
  have "fst (push_seq array_push demo_array [3, 1, 4])" by (simp add: array_eval)
  then have r': "push_seq array_push (fst demo_array, fst (snd demo_array), ?a) [3, 1, 4] = (True, w', pool', a')"
    using r by (simp del: push_seq.simps)
  have n: "elems ?a = []" "da_nelts ?a = 0" by (simp_all add: elems_def array_eval)
  have "elems a' = [3, 1, 4]" "array_get (w', pool', a') 2 = Some 4" "array_get (w', pool', a') 3 = None"
    using dynamic_array_refines_list [OF demo_array_wf(1) _ r'] n by simp_all
  then show ?thesis using r' by (intro exI [of _ "(w', pool', a')"]) (simp del: push_seq.simps)
qed

lemma demo_array_area:
  "pool_wf (fst demo_array) (fst (snd demo_array))"
  "array_area (snd (snd demo_array)) \<subseteq> pool_owned (fst demo_array) (fst (snd demo_array))"
proof -
  obtain a :: "nat dynamic_array_t option" and w p
    where d: "dynamic_array_create demo_w demo_pool 1 8 = (a, w, p)" using prod_cases3 by blast
  have "fst (dynamic_array_create demo_w demo_pool 1 8) = Some (snd (snd demo_array))"
    by (simp add: array_eval)
  then have a: "a = Some (snd (snd demo_array))" "w = fst demo_array" "p = fst (snd demo_array)"
    using d by (simp_all add: demo_array_def)
  have "request_fits demo_pool sizeof_dynamic_array_t" "request_fits demo_pool (1 * 8)"
    by (simp_all add: request_fits_def demo_eval sizeof_defs)
  from create_array_wf [OF demo_pool_wf this _ _ _ _ d [unfolded a(1)]] a(2,3)
  show "pool_wf (fst demo_array) (fst (snd demo_array))"
    "array_area (snd (snd demo_array)) \<subseteq> pool_owned (fst demo_array) (fst (snd demo_array))" by simp_all
qed

theorem dynamic_array_push_safe_witness:
  "\<exists>p w' pool' a'. dynamic_array_push (fst demo_array) (fst (snd demo_array)) (snd (snd demo_array)) = (p, w', pool', a') \<and>
     p = 16777336 \<and> {p ..< p + 8} \<subseteq> array_area a'"
proof -
  let ?w = "fst demo_array" and ?p = "fst (snd demo_array)" and ?a = "snd (snd demo_array)"
  obtain p w' pool' a' where r: "dynamic_array_push ?w ?p ?a = (p, w', pool', a')" using prod_cases4 by blast
  have v: "fst (dynamic_array_push ?w ?p ?a) = 16777336" "da_nelts ?a = 0" "da_size ?a = 8"
    by (simp_all add: array_eval)
  have "request_fits ?p (grow_request ?a)"
    by (simp add: request_fits_def grow_request_def array_eval)
  from dynamic_array_push_safe [OF demo_array_area(1) demo_array_wf(2) _ demo_array_area(2) this r] v r
  show ?thesis by simp
qed

text \<open>
  C32: the two indexed accesses stay inside the array's block: below the number of elements
  (for \<open>dynamic_array_get_ix\<close>) or of allocated slots (for \<open>dynamic_array_push_ix\<close>) they return
  the address of that slot without any effect; from there on they return the null pointer and
  log one error.
\<close>

theorem dynamic_array_index_bounds:
  assumes "array_shape a"
  shows "(if i < da_nelts a
      then \<exists>p. dynamic_array_get_ix w pool a i = (p, w) \<and> p \<noteq> NULL \<and> {p ..< p + da_size a} \<subseteq> array_area a
      else \<exists>m. dynamic_array_get_ix w pool a i = (NULL, log_error w (mp_logger pool) 0 m))
    \<and> (if i < da_nalloc a
      then \<exists>p. dynamic_array_push_ix w pool a i = (p, w) \<and> p \<noteq> NULL \<and> {p ..< p + da_size a} \<subseteq> array_area a
      else \<exists>m. dynamic_array_push_ix w pool a i = (NULL, log_error w (mp_logger pool) 0 m))"
proof -
  note D = array_shapeD [OF assms]
  have "{da_elts a + i * da_size a ..< da_elts a + i * da_size a + da_size a} \<subseteq> array_area a"
    if "i < da_nalloc a"
    using slot_in_block [OF that] by (simp add: array_area_def)
  then show ?thesis
    using D(2,4) by (auto simp: dynamic_array_get_ix_def dynamic_array_push_ix_def)
qed

theorem dynamic_array_index_bounds_witness:
  "\<exists>p. dynamic_array_push_ix demo_w demo_pool (snd (snd demo_array)) 0 = (p, demo_w) \<and> p \<noteq> NULL"
proof -
  have "da_nalloc (snd (snd demo_array)) = 1" by (simp add: array_eval)
  then show ?thesis
    using dynamic_array_index_bounds [OF demo_array_wf(2), of 0 demo_w demo_pool] by auto
qed

end
