(* ===== verification/Modules.thy ===== *)
theory Modules
  imports XFile DynArray
begin

text \<open>
  The modules of the program and their configuration: the types of \<open>conf_file.h\<close> and
  \<open>mod_manager.h\<close>, the configuration records, and the commands and constructors that
  \<open>xpipe.c\<close> (module main) and \<open>network.c\<close> (module net) register.  Function pointers are the
  constructors of enumeration types.  The install directory, which \<open>configure\<close> writes into a
  generated header, is a field of the state.
\<close>

abbreviation (input) CONF_OK :: int where "CONF_OK \<equiv> 0"
abbreviation (input) CONF_ERROR :: int where "CONF_ERROR \<equiv> -1"
abbreviation (input) MOD_OK :: int where "MOD_OK \<equiv> 0"
abbreviation (input) MOD_ERROR :: int where "MOD_ERROR \<equiv> -1"

section \<open>Commands and modules\<close>

datatype cmd_set_fp = cmd_daemon | cmd_pid | cmd_log | cmd_listen | cmd_connections | cmd_nodelay
  | cmd_request_buffer_size

record conf_command_t =
  cc_mod :: nat
  cc_name :: string_t
  cc_set :: cmd_set_fp

record xpipe_main_mod_conf_t =
  mc_daemon :: nat
  mc_pid_file :: file_t
  mc_log :: string_t

record xpipe_net_mod_conf_t =
  nc_port :: nat
  nc_conns :: nat
  nc_nodelay :: int
  nc_request_buffer_size :: nat
  nc_netwk :: addr

datatype mod_conf = Main_conf xpipe_main_mod_conf_t | Net_conf xpipe_net_mod_conf_t

datatype create_mod_conf_fp = create_main | create_net
datatype init_mod_fp = init_main | init_network
datatype process_mod_fp = process_network
datatype finish_mod_fp = finish_network

record system_module_t =
  sm_name :: string_t
  sm_commands :: "conf_command_t list"
  sm_create :: create_mod_conf_fp
  sm_init :: "init_mod_fp option"
  sm_process :: "process_mod_fp option"
  sm_finish :: "finish_mod_fp option"
  sm_index :: int
  sm_conf :: "mod_conf option"
  sm_pool :: "mem_pool_t option"
  sm_logger :: "logger_t option"

text \<open>The tables; the entry that ends a command table is the end of the list.\<close>

definition main_commands :: "conf_command_t list" where
  "main_commands = [\<lparr>cc_mod = 0, cc_name = xstring ''daemon'', cc_set = cmd_daemon\<rparr>,
     \<lparr>cc_mod = 0, cc_name = xstring ''pid'', cc_set = cmd_pid\<rparr>,
     \<lparr>cc_mod = 1, cc_name = xstring ''log'', cc_set = cmd_log\<rparr>]"

definition net_commands :: "conf_command_t list" where
  "net_commands = [\<lparr>cc_mod = 0, cc_name = xstring ''listen'', cc_set = cmd_listen\<rparr>,
     \<lparr>cc_mod = 0, cc_name = xstring ''connections'', cc_set = cmd_connections\<rparr>,
     \<lparr>cc_mod = 0, cc_name = xstring ''nodelay'', cc_set = cmd_nodelay\<rparr>,
     \<lparr>cc_mod = 0, cc_name = xstring ''request_buffer_size'', cc_set = cmd_request_buffer_size\<rparr>]"

definition sys_main_module :: system_module_t where
  "sys_main_module = \<lparr>sm_name = xstring ''main'', sm_commands = main_commands, sm_create = create_main,
     sm_init = Some init_main, sm_process = None, sm_finish = None, sm_index = -1, sm_conf = None,
     sm_pool = None, sm_logger = None\<rparr>"

definition sys_net_module :: system_module_t where
  "sys_net_module = \<lparr>sm_name = xstring ''net'', sm_commands = net_commands, sm_create = create_net,
     sm_init = Some init_network, sm_process = Some process_network, sm_finish = Some finish_network,
     sm_index = -1, sm_conf = None, sm_pool = None, sm_logger = None\<rparr>"

definition sys_modules :: "system_module_t list" where
  "sys_modules = [sys_main_module, sys_net_module]"

definition sizeof_main_conf :: nat where "sizeof_main_conf = 56"
definition sizeof_net_conf :: nat where "sizeof_net_conf = 24"
definition sizeof_network_t :: nat where "sizeof_network_t = 16"
definition sizeof_string_t :: nat where "sizeof_string_t = 16"
definition sizeof_ptr :: nat where "sizeof_ptr = 8"

declare sizeof_main_conf_def [sizeof_defs] sizeof_net_conf_def [sizeof_defs] sizeof_network_t_def [sizeof_defs]
  sizeof_string_t_def [sizeof_defs] sizeof_ptr_def [sizeof_defs]

section \<open>The state of the program before the network is up\<close>

text \<open>
  \<open>pg_mods\<close> are the modules of \<open>sys_modules\<close> with their mutable fields, the fields \<open>cf_\<close> are
  those of the \<open>conf_file_t\<close>, and the fields \<open>rs_\<close> those of \<open>xpipe_resource\<close>.
\<close>

record prog = world +
  pg_install_dir :: "byte list"
  pg_mods :: "system_module_t list"
  cf_file :: file_t
  cf_blocks :: nat
  cf_mod_cmds :: "conf_command_t dynamic_array_t"
  cf_mod_cfs :: "addr dynamic_array_t"
  cf_pool :: mem_pool_t
  rs_stop :: int
  rs_sys_mod_num :: nat
  rs_main_logger :: "logger_t option"
  rs_log_stdout :: "logger_t option"
  rs_default_logger :: "logger_t option"

definition conf_pmalloc :: "prog \<Rightarrow> nat \<Rightarrow> addr \<times> prog" where
  "conf_pmalloc s n = (case pmalloc s (cf_pool s) n of (p, s1, pool1) \<Rightarrow> (p, s1\<lparr>cf_pool := pool1\<rparr>))"

definition conf_pcalloc :: "prog \<Rightarrow> nat \<Rightarrow> addr \<times> prog" where
  "conf_pcalloc s n = (case pcalloc s (cf_pool s) n of (p, s1, pool1) \<Rightarrow> (p, s1\<lparr>cf_pool := pool1\<rparr>))"

definition pool_log :: "prog \<Rightarrow> int \<Rightarrow> string \<Rightarrow> prog" where
  "pool_log s err fmt = log_error s (mp_logger (cf_pool s)) err fmt"

definition upd_mod :: "nat \<Rightarrow> (system_module_t \<Rightarrow> system_module_t) \<Rightarrow> prog \<Rightarrow> prog" where
  "upd_mod i f s = s\<lparr>pg_mods := (pg_mods s)[i := f (pg_mods s ! i)]\<rparr>"

definition map_main :: "(xpipe_main_mod_conf_t \<Rightarrow> xpipe_main_mod_conf_t) \<Rightarrow> mod_conf \<Rightarrow> mod_conf" where
  "map_main f c = (case c of Main_conf m \<Rightarrow> Main_conf (f m) | Net_conf n \<Rightarrow> Net_conf n)"

definition map_net :: "(xpipe_net_mod_conf_t \<Rightarrow> xpipe_net_mod_conf_t) \<Rightarrow> mod_conf \<Rightarrow> mod_conf" where
  "map_net f c = (case c of Main_conf m \<Rightarrow> Main_conf m | Net_conf n \<Rightarrow> Net_conf (f n))"

definition upd_main :: "nat \<Rightarrow> (xpipe_main_mod_conf_t \<Rightarrow> xpipe_main_mod_conf_t) \<Rightarrow> prog \<Rightarrow> prog" where
  "upd_main i f s = upd_mod i (\<lambda>m. m\<lparr>sm_conf := map_option (map_main f) (sm_conf m)\<rparr>) s"

definition upd_net :: "nat \<Rightarrow> (xpipe_net_mod_conf_t \<Rightarrow> xpipe_net_mod_conf_t) \<Rightarrow> prog \<Rightarrow> prog" where
  "upd_net i f s = upd_mod i (\<lambda>m. m\<lparr>sm_conf := map_option (map_net f) (sm_conf m)\<rparr>) s"

section \<open>Constructors of the configurations\<close>

definition default_pid_file_full_path :: "prog \<Rightarrow> byte list" where
  "default_pid_file_full_path s = pg_install_dir s @ ''/log/xpipe.pid''"

definition default_logger_full_path :: "prog \<Rightarrow> byte list" where
  "default_logger_full_path s = pg_install_dir s @ ''/log/xpipe.log''"

definition create_main_loc_conf :: "prog \<Rightarrow> (addr \<times> mod_conf) option \<times> prog" where
  "create_main_loc_conf s =
     (let (cf, s1) = conf_pcalloc s sizeof_main_conf
      in if cf = NULL then (None, pool_log s1 (os_errno s1) ''Create main module config error.'')
         else (Some (cf, Main_conf \<lparr>mc_daemon = 0,
                 mc_pid_file = \<lparr>fl_fd = FL_INVALID_FD, fl_offset = 0, fl_name = xstring (default_pid_file_full_path s)\<rparr>,
                 mc_log = string_null\<rparr>), s1))"

definition create_net_mod_conf :: "prog \<Rightarrow> (addr \<times> mod_conf) option \<times> prog" where
  "create_net_mod_conf s =
     (let (cf, s1) = conf_pcalloc s sizeof_net_conf
      in if cf = NULL then (None, pool_log s1 0 ''create net module config error.'')
         else
           let (netwk, s2) = conf_pmalloc s1 sizeof_network_t
           in if netwk = NULL then (None, pool_log s2 0 ''pmalloc memory failed.'')
              else (Some (cf, Net_conf \<lparr>nc_port = 0, nc_conns = 0, nc_nodelay = 0, nc_request_buffer_size = 0,
                      nc_netwk = netwk\<rparr>), s2))"

primrec create_conf :: "create_mod_conf_fp \<Rightarrow> prog \<Rightarrow> (addr \<times> mod_conf) option \<times> prog" where
  "create_conf create_main s = create_main_loc_conf s"
| "create_conf create_net s = create_net_mod_conf s"

section \<open>The commands\<close>

type_synonym args = "string_t dynamic_array_t"

text \<open>\<open>dynamic_array_get_ix\<close> and reading through the pointer it returns.\<close>

definition get_arg :: "prog \<Rightarrow> args \<Rightarrow> nat \<Rightarrow> string_t option \<times> prog" where
  "get_arg s args i =
     (case dynamic_array_get_ix s (cf_pool s) args i of
        (p, s1) \<Rightarrow> if p = NULL then (None, s1) else (da_load args p, s1))"

definition to_uint :: "int \<Rightarrow> nat" where
  "to_uint i = nat (i mod 4294967296)"

definition cmd_daemon_set :: "prog \<Rightarrow> args \<Rightarrow> nat \<Rightarrow> int \<times> prog" where
  "cmd_daemon_set s args i =
     (if da_nelts args \<noteq> 2 then (CONF_ERROR, pool_log s 0 ''the args of daemon is error.'')
      else (case get_arg s args 1 of
          (None, s1) \<Rightarrow> (CONF_ERROR, s1)
        | (Some arg, s1) \<Rightarrow>
            (CONF_OK, upd_main i (\<lambda>cf. cf\<lparr>mc_daemon := (if c_strcmp (str_data arg) ''off'' = 0 then 0 else 1)\<rparr>) s1)))"

text \<open>The absolute name of a file argument, in memory of the configuration's pool.\<close>

definition full_name :: "prog \<Rightarrow> string_t \<Rightarrow> string_t option \<times> prog" where
  "full_name s arg =
     (if is_full_file_name arg then (Some arg, s)
      else
        let (p, s1) = conf_pcalloc s (length (pg_install_dir s) + str_len arg + 2)
        in if p = NULL then (None, s1)
           else
             let s2 = make_full_file_name (pg_install_dir s) s1 p (str_data arg) (str_len arg)
             in (Some (xstring (mem_str (cm_mem s2) p)), s2))"

definition cmd_pid_set :: "prog \<Rightarrow> args \<Rightarrow> nat \<Rightarrow> int \<times> prog" where
  "cmd_pid_set s args i =
     (if da_nelts args \<noteq> 2 then (CONF_ERROR, pool_log s 0 ''the args of pid is error.'')
      else (case get_arg s args 1 of
          (None, s1) \<Rightarrow> (CONF_ERROR, s1)
        | (Some arg, s1) \<Rightarrow>
            let s2 = upd_main i (\<lambda>cf. cf\<lparr>mc_pid_file := (mc_pid_file cf)\<lparr>fl_fd := FL_INVALID_FD\<rparr>\<rparr>) s1
            in case full_name s2 arg of
                 (None, s3) \<Rightarrow> (CONF_ERROR, s3)
               | (Some name, s3) \<Rightarrow>
                   (CONF_OK, upd_main i (\<lambda>cf. cf\<lparr>mc_pid_file := (mc_pid_file cf)\<lparr>fl_name := name\<rparr>\<rparr>) s3)))"

definition log_level_of :: "byte list \<Rightarrow> log_level option" where
  "log_level_of a =
     (if c_strcmp a ''error'' = 0 then Some LOG_LEVEL_ERROR
      else if c_strcmp a ''warn'' = 0 then Some LOG_LEVEL_WARN
      else if c_strcmp a ''info'' = 0 then Some LOG_LEVEL_INFO
      else if c_strcmp a ''debug'' = 0 then Some LOG_LEVEL_DEBUG
      else if c_strcmp a ''stdout'' = 0 then Some LOG_LEVEL_STDOUT
      else None)"

text \<open>The second half of \<open>cmd_log_set\<close>: the level and the logger of the module.\<close>

definition set_logger :: "prog \<Rightarrow> args \<Rightarrow> nat \<Rightarrow> file_t \<Rightarrow> int \<times> prog" where
  "set_logger s args i file =
     (case get_arg s args 2 of
        (None, s1) \<Rightarrow> (CONF_ERROR, s1)
      | (Some arg, s1) \<Rightarrow>
          (case log_level_of (str_data arg) of
             None \<Rightarrow> (CONF_ERROR, pool_log s1 0 ''is invalid arg.'')
           | Some level \<Rightarrow>
               (case log_create s1 (cf_pool s1) level file of
                  (lg, s2, pool2) \<Rightarrow>
                    let s3 = upd_mod i (\<lambda>m. m\<lparr>sm_logger := lg\<rparr>) (s2\<lparr>cf_pool := pool2\<rparr>)
                    in if lg = None then (CONF_ERROR, pool_log s3 0 ''create logger failed by log cmd'')
                       else (CONF_OK, s3))))"

definition cmd_log_set :: "prog \<Rightarrow> args \<Rightarrow> nat \<Rightarrow> int \<times> prog" where
  "cmd_log_set s args i =
     (if da_nelts args \<noteq> 3 then (CONF_ERROR, pool_log s 0 ''the args of log is error.'')
      else (case get_arg s args 1 of
          (None, s1) \<Rightarrow> (CONF_ERROR, s1)
        | (Some arg, s1) \<Rightarrow>
            let (file, s2) = conf_pmalloc s1 sizeof_file_t
            in if file = NULL then (CONF_ERROR, s2)
               else (case full_name s2 arg of
                   (None, s3) \<Rightarrow> (CONF_ERROR, s3)
                 | (Some name, s3) \<Rightarrow>
                     let (fd, s4) = os_call s3 (Sys_open (str_data name) (FL_APPEND OR FL_CREATE) 420)
                     in if fd = FL_INVALID_FD then (CONF_ERROR, pool_log s4 (os_errno s4) ''open error'')
                        else set_logger s4 args i \<lparr>fl_fd = fd, fl_offset = mem_long (cm_mem s4) (file + 8), fl_name = name\<rparr>)))"

text \<open>The three commands of the net module that take a number share their shape.\<close>

definition cmd_number :: "string \<Rightarrow> string \<Rightarrow> (nat \<Rightarrow> xpipe_net_mod_conf_t \<Rightarrow> xpipe_net_mod_conf_t) \<Rightarrow>
    prog \<Rightarrow> args \<Rightarrow> nat \<Rightarrow> int \<times> prog" where
  "cmd_number bad_args bad_number f s args i =
     (if da_nelts args \<noteq> 2 then (CONF_ERROR, pool_log s 0 bad_args)
      else (case get_arg s args 1 of
          (None, s1) \<Rightarrow> (CONF_ERROR, s1)
        | (Some arg, s1) \<Rightarrow>
            if is_positive_integer (Some arg) = 0 then (CONF_ERROR, pool_log s1 0 bad_number)
            else (CONF_OK, upd_net i (f (to_uint (c_atoi (str_data arg)))) s1)))"

definition cmd_listen_set :: "prog \<Rightarrow> args \<Rightarrow> nat \<Rightarrow> int \<times> prog" where
  "cmd_listen_set = cmd_number ''the args of listen is error.'' ''is a invalid port.'' (\<lambda>n cf. cf\<lparr>nc_port := n\<rparr>)"

definition cmd_connecions_set :: "prog \<Rightarrow> args \<Rightarrow> nat \<Rightarrow> int \<times> prog" where
  "cmd_connecions_set =
     cmd_number ''the args of connections is error.'' ''is not a integer.'' (\<lambda>n cf. cf\<lparr>nc_conns := n\<rparr>)"

definition cmd_request_buffer_size_set :: "prog \<Rightarrow> args \<Rightarrow> nat \<Rightarrow> int \<times> prog" where
  "cmd_request_buffer_size_set =
     cmd_number ''the args of request_buffer_size is error.'' ''is not a integer.''
       (\<lambda>n cf. cf\<lparr>nc_request_buffer_size := n\<rparr>)"

definition cmd_nodelay_set :: "prog \<Rightarrow> args \<Rightarrow> nat \<Rightarrow> int \<times> prog" where
  "cmd_nodelay_set s args i =
     (if da_nelts args \<noteq> 1 then (CONF_ERROR, pool_log s 0 ''the args of nodelay is error.'')
      else (CONF_OK, upd_net i (\<lambda>cf. cf\<lparr>nc_nodelay := 1\<rparr>) s))"

text \<open>A call through the pointer \<open>set\<close> of a command, for the module with index \<open>i\<close>.\<close>

primrec call_set :: "cmd_set_fp \<Rightarrow> prog \<Rightarrow> args \<Rightarrow> nat \<Rightarrow> int \<times> prog" where
  "call_set cmd_daemon s args i = cmd_daemon_set s args i"
| "call_set cmd_pid s args i = cmd_pid_set s args i"
| "call_set cmd_log s args i = cmd_log_set s args i"
| "call_set cmd_listen s args i = cmd_listen_set s args i"
| "call_set cmd_connections s args i = cmd_connecions_set s args i"
| "call_set cmd_nodelay s args i = cmd_nodelay_set s args i"
| "call_set cmd_request_buffer_size s args i = cmd_request_buffer_size_set s args i"

end
