(* ===== verification/ByteMachine.thy ===== *)
theory ByteMachine
  imports XPrelude
begin

text \<open>
  Machines that consume an input one symbol at a time and may stop early with a result: the
  protocol parser and the configuration parser are two of them.  \<open>run\<close> is their loop; the
  facts here are that the loop over an input in pieces is the loop over the whole input, and
  that a relation between the state and the input consumed so far which every step keeps holds
  at the end of a run and at the point where a run stops.
\<close>

fun run :: "('s \<Rightarrow> 'b \<Rightarrow> 'r + 's) \<Rightarrow> 's \<Rightarrow> 'b list \<Rightarrow> 'r + 's" where
  "run step s [] = Inr s"
| "run step s (b # bs) = (case step s b of Inl r \<Rightarrow> Inl r | Inr s1 \<Rightarrow> run step s1 bs)"

lemma run_append:
  "run step s (xs @ ys) = (case run step s xs of Inl r \<Rightarrow> Inl r | Inr s1 \<Rightarrow> run step s1 ys)"
  by (induction xs arbitrary: s) (auto split: sum.splits)

lemma run_snoc:
  "run step s (xs @ [b]) = (case run step s xs of Inl r \<Rightarrow> Inl r | Inr s1 \<Rightarrow> step s1 b)"
  by (auto simp: run_append split: sum.splits)

text \<open>A machine whose steps another machine simulates on its own states.\<close>

lemma run_simulation:
  assumes step: "\<And>s b. R s \<Longrightarrow> step' (f s) b = map_sum g f (step s b)"
    and inv: "\<And>s b s'. R s \<Longrightarrow> step s b = Inr s' \<Longrightarrow> R s'"
  shows "R s \<Longrightarrow> run step' (f s) bs = map_sum g f (run step s bs)"
proof (induction bs arbitrary: s)
  case (Cons b bs)
  then show ?case using step [OF Cons.prems, of b] inv [OF Cons.prems, of b]
    by (cases "step s b") auto
qed simp

locale byte_machine =
  fixes step :: "'s \<Rightarrow> 'b \<Rightarrow> 'r + 's"
    and rel :: "'b list \<Rightarrow> 's \<Rightarrow> bool"
  assumes rel_step: "rel xs s \<Longrightarrow> step s b = Inr s' \<Longrightarrow> rel (xs @ [b]) s'"
begin

lemma run_rel: "rel xs s \<Longrightarrow> run step s ys = Inr s' \<Longrightarrow> rel (xs @ ys) s'"
proof (induction ys arbitrary: xs s)
  case (Cons y ys)
  then obtain s1 where "step s y = Inr s1" "run step s1 ys = Inr s'" by (auto split: sum.splits)
  with Cons.IH [OF rel_step [OF Cons.prems(1)]] show ?case by fastforce
qed simp

text \<open>A run that stops: the symbol that stopped it, and the state it found.\<close>

lemma run_stop:
  "rel xs s \<Longrightarrow> run step s ys = Inl r \<Longrightarrow>
   \<exists>us b vs s1. ys = us @ b # vs \<and> run step s us = Inr s1 \<and> rel (xs @ us) s1 \<and> step s1 b = Inl r"
proof (induction ys arbitrary: xs s)
  case (Cons y ys)
  show ?case
  proof (cases "step s y")
    case (Inl r')
    with Cons.prems show ?thesis by (intro exI [of _ "[]"] exI [of _ y] exI [of _ ys]) auto
  next
    case (Inr s1)
    with Cons.prems have "run step s1 ys = Inl r" by simp
    with Cons.IH [OF rel_step [OF Cons.prems(1) Inr]] obtain us b vs s2 where
      "ys = us @ b # vs" "run step s1 us = Inr s2" "rel ((xs @ [y]) @ us) s2" "step s2 b = Inl r" by blast
    with Inr show ?thesis
      by (intro exI [of _ "y # us"] exI [of _ b] exI [of _ vs] exI [of _ s2]) simp
  qed
qed simp

end

end
