(* ===== verification/ConfFile.thy ===== *)
theory ConfFile
  imports Modules ByteMachine
begin

text \<open>
  \<open>conf_file.c\<close>: the parser of the configuration file.  It is a machine over the bytes of the
  file; its state is the switch state, the bytes of \<open>key\<close> up to \<open>k\<close>, the line, the arguments
  of the command at hand, the module of the block at hand, and the state of the program.
  \<open>conf_step\<close> is one turn of the inner loop, \<open>read_conf\<close> the loop over the pieces of 1024
  bytes.  Leaving the parser is the left side of a sum: \<open>Inl (Inr s)\<close> is \<open>return CONF_ERROR\<close>,
  \<open>Inl (Inl u)\<close> undefined behaviour.
\<close>

section \<open>Looking up modules and commands\<close>

fun conf_file_get_sys_mod :: "byte list \<Rightarrow> nat \<Rightarrow> system_module_t list \<Rightarrow> nat option" where
  "conf_file_get_sys_mod name i [] = None"
| "conf_file_get_sys_mod name i (m # ms) =
     (if c_strcmp name (str_data (sm_name m)) = 0 then Some i
      else conf_file_get_sys_mod name (Suc i) ms)"

definition same_name :: "string_t \<Rightarrow> conf_command_t \<Rightarrow> bool" where
  "same_name name c \<longleftrightarrow> str_len name = str_len (cc_name c) \<and> c_strcmp (str_data name) (str_data (cc_name c)) = 0"

fun conf_file_get_command :: "conf_command_t list \<Rightarrow> string_t \<Rightarrow> conf_command_t option" where
  "conf_file_get_command [] name = None"
| "conf_file_get_command (c # cmds) name =
     (if str_len (cc_name c) = 0 \<or> cc_mod c \<noteq> 0 then None
      else if same_name name c then Some c
      else conf_file_get_command cmds name)"

text \<open>The loop ends where \<open>dynamic_array_get_ix\<close> returns the null pointer.\<close>

function get_global_cmd :: "prog \<Rightarrow> string_t \<Rightarrow> nat \<Rightarrow> ub + (conf_command_t option \<times> prog)" where
  "get_global_cmd s name i =
     (case dynamic_array_get_ix s (cf_pool s) (cf_mod_cmds s) i of
        (cmd, s1) \<Rightarrow>
          if cmd = NULL then Inr (None, s1)
          else (case da_load (cf_mod_cmds s) cmd of
              None \<Rightarrow> Inl Null_deref
            | Some c \<Rightarrow> if same_name name c then Inr (Some c, s1) else get_global_cmd s1 name (Suc i)))"
  by pat_completeness auto
termination
  by (relation "measure (\<lambda>(s, name, i). da_nelts (cf_mod_cmds s) - i)")
    (auto simp: dynamic_array_get_ix_def split: if_splits)

declare get_global_cmd.simps [simp del]

definition conf_file_get_global_cmd :: "prog \<Rightarrow> string_t \<Rightarrow> ub + (conf_command_t option \<times> prog)" where
  "conf_file_get_global_cmd s name = get_global_cmd s name 0"

section \<open>Initialisation\<close>

text \<open>The loop over the commands of module main that collects the global ones.\<close>

fun index_cmds :: "prog \<Rightarrow> conf_command_t list \<Rightarrow> int \<times> prog" where
  "index_cmds s [] = (CONF_OK, s)"
| "index_cmds s (cmd # cmds) =
     (if str_len (cc_name cmd) = 0 then (CONF_OK, s)
      else if cc_mod cmd \<noteq> 0 then
        (case dynamic_array_push s (cf_pool s) (cf_mod_cmds s) of
           (gcmd, s1, pool1, a1) \<Rightarrow>
             let s2 = s1\<lparr>cf_pool := pool1, cf_mod_cmds := a1\<rparr>
             in if gcmd = NULL then (CONF_ERROR, log_stderr s2 0 ''dynamic_array_push failed.'')
                else index_cmds (s2\<lparr>cf_mod_cmds := da_store a1 gcmd cmd\<rparr>) cmds)
      else index_cmds s cmds)"

definition conf_path :: "byte list" where
  "conf_path = ''conf/xpipe.conf''"

text \<open>The second half of \<open>conf_file_init\<close>: the fields of \<open>conf\<close>, its two arrays and the index.\<close>

definition init_arrays :: "prog \<Rightarrow> file_t \<Rightarrow> mem_pool_t \<Rightarrow> int \<times> prog" where
  "init_arrays s conf_file conf_pool =
     (case dynamic_array_init s conf_pool 10 sizeof_ptr of
        (None, s1, pool1) \<Rightarrow>
          (CONF_ERROR, log_stderr (s1\<lparr>cf_file := conf_file, cf_blocks := 0, cf_pool := pool1\<rparr>) 0
             ''init the array of global cmd failed.'')
      | (Some cmds, s1, pool1) \<Rightarrow>
          let s2 = s1\<lparr>cf_file := conf_file, cf_blocks := 0, cf_pool := pool1, cf_mod_cmds := cmds\<rparr>
          in (case dynamic_array_init s2 (cf_pool s2) (rs_sys_mod_num s) sizeof_ptr of
                (None, s3, pool3) \<Rightarrow>
                  (CONF_ERROR, log_stderr (s3\<lparr>cf_pool := pool3\<rparr>) 0 ''init the array of local config failed.'')
              | (Some cfs, s3, pool3) \<Rightarrow>
                  index_cmds (s3\<lparr>cf_pool := pool3, cf_mod_cfs := cfs\<rparr>) (sm_commands sys_main_module)))"

definition conf_file_init :: "prog \<Rightarrow> logger_t \<Rightarrow> int \<times> prog" where
  "conf_file_init s logger =
     (case mem_pool_create s ''conf_file_pool'' 1024 (Some logger) of
        (None, s1) \<Rightarrow> (CONF_ERROR, log_stderr s1 0 ''create memory conf pool failed'')
      | (Some conf_pool, s1) \<Rightarrow>
          (case file_open s1 conf_pool conf_path of
             (None, s2, _) \<Rightarrow> (CONF_ERROR, log_stderr s2 (os_errno s2) ''open configure file error.'')
           | (Some conf_file, s2, pool2) \<Rightarrow> init_arrays s2 conf_file pool2))"

section \<open>The machine\<close>

datatype cstate = sw_out | sw_comment | sw_comment_end | sw_mod_name | sw_mod_name_end
  | sw_mod_name_end_blank | sw_mod_block | sw_mod_block_end | sw_command | sw_command_blank | sw_command_end

record cparser =
  cp_prog :: prog
  cp_state :: cstate
  cp_old_state :: cstate
  cp_key :: "byte list"
  cp_line :: nat
  cp_args :: args
  cp_mod :: nat

type_synonym cstop = "ub + prog"

definition conf_fail :: "cparser \<Rightarrow> string \<Rightarrow> cstop + 'a" where
  "conf_fail p msg = Inl (Inr (log_stderr (cp_prog p) 0 msg))"

text \<open>\<open>key[k++] = ch\<close>, and the bound of \<open>key[k] = 0\<close>.\<close>

definition put_key :: "cparser \<Rightarrow> byte \<Rightarrow> cstop + cparser" where
  "put_key p ch = (if length (cp_key p) < 256 then Inr (p\<lparr>cp_key := cp_key p @ [ch]\<rparr>)
     else Inl (Inl (Out_of_bounds 256)))"

definition end_key :: "cparser \<Rightarrow> cstop + cparser" where
  "end_key p = (if length (cp_key p) < 256 then Inr p else Inl (Inl (Out_of_bounds 256)))"

text \<open>The code of \<open>sw_mod_name_end\<close>: the module's configuration is created.\<close>

definition enter_mod :: "cparser \<Rightarrow> cstop + cparser" where
  "enter_mod p =
     (let s = cp_prog p
      in case conf_file_get_sys_mod (cp_key p) 0 (pg_mods s) of
           None \<Rightarrow> conf_fail p ''module not found.''
         | Some i \<Rightarrow>
             (case create_conf (sm_create (pg_mods s ! i)) s of
                (None, s1) \<Rightarrow>
                  conf_fail (p\<lparr>cp_prog := upd_mod i (\<lambda>m. m\<lparr>sm_conf := None\<rparr>) s1\<rparr>) ''module create conf failed.''
              | (Some (cf, conf), s1) \<Rightarrow>
                  let s2 = upd_mod i (\<lambda>m. m\<lparr>sm_conf := Some conf\<rparr>) s1;
                      ix = to_uint (sm_index (pg_mods s2 ! i));
                      (elt, s3) = dynamic_array_push_ix s2 (cf_pool s2) (cf_mod_cfs s2) ix
                  in if elt = NULL then Inl (Inl Null_deref)
                     else Inr (p\<lparr>cp_prog := s3\<lparr>cf_mod_cfs := da_store (cf_mod_cfs s3) elt cf,
                                              cf_blocks := Suc (cf_blocks s3) mod uint_mod\<rparr>,
                              cp_key := [], cp_mod := i\<rparr>)))"

text \<open>\<open>sw_mod_name\<close>, with the fall through to \<open>sw_mod_name_end\<close>.\<close>

definition on_mod_name :: "cparser \<Rightarrow> byte \<Rightarrow> cstop + cparser" where
  "on_mod_name p ch =
     (if is_letter ch \<or> is_digit ch \<or> ch = CHR ''_'' \<or> ch = CHR ''-'' then put_key p ch
      else if is_blank ch then sbind (end_key (p\<lparr>cp_state := sw_mod_name_end_blank\<rparr>)) enter_mod
      else if ch = CHR 0x7B then sbind (end_key (p\<lparr>cp_state := sw_mod_block\<rparr>)) enter_mod
      else if ch = CHR ''#'' then
        sbind (end_key (p\<lparr>cp_old_state := sw_mod_name_end_blank, cp_state := sw_comment\<rparr>)) enter_mod
      else conf_fail p ''mod name is invalied.'')"

text \<open>\<open>sw_mod_block\<close>, with the fall through to \<open>sw_mod_block_end\<close>.\<close>

definition on_mod_block :: "cparser \<Rightarrow> byte \<Rightarrow> cstop + cparser" where
  "on_mod_block p ch =
     (if ch = CHR ''#'' then Inr (p\<lparr>cp_old_state := sw_mod_block, cp_state := sw_comment\<rparr>)
      else if is_blank ch then Inr p
      else if is_letter ch then
        sbind (put_key (p\<lparr>cp_state := sw_command\<rparr>) ch) (\<lambda>p1.
        case dynamic_array_create (cp_prog p1) (cf_pool (cp_prog p1)) 10 sizeof_string_t of
          (None, s1, pool1) \<Rightarrow>
            conf_fail (p1\<lparr>cp_prog := s1\<lparr>cf_pool := pool1\<rparr>\<rparr>) ''create command array failed.''
        | (Some cmd_args, s1, pool1) \<Rightarrow> Inr (p1\<lparr>cp_prog := s1\<lparr>cf_pool := pool1\<rparr>, cp_args := cmd_args\<rparr>))
      else if ch = CHR 0x7D then Inr (p\<lparr>cp_state := sw_out\<rparr>)
      else conf_fail p ''the start char of command must be letter.'')"

text \<open>The end of an argument: a slot of the array, memory for the bytes, and the copy.\<close>

definition push_arg :: "cparser \<Rightarrow> cstop + cparser" where
  "push_arg p =
     sbind (end_key p) (\<lambda>p.
     case dynamic_array_push (cp_prog p) (cf_pool (cp_prog p)) (cp_args p) of
       (arg, s1, pool1, args1) \<Rightarrow>
         let p1 = p\<lparr>cp_prog := s1\<lparr>cf_pool := pool1\<rparr>, cp_args := args1\<rparr>
         in if arg = NULL then conf_fail p1 ''alloc arg failed, from cmd_args''
            else
              let (mem, s2) = conf_pmalloc (cp_prog p1) (length (cp_key p1) + 1);
                  p2 = p1\<lparr>cp_prog := s2\<rparr>
              in if mem = NULL then conf_fail p2 ''pmalloc failed''
                 else Inr (p2\<lparr>cp_prog := write_bytes s2 mem (cp_key p2 @ [NUL]),
                             cp_args := da_store args1 arg (xstring (cp_key p2)),
                             cp_key := []\<rparr>))"

text \<open>\<open>sw_command_end\<close>: find the command, first among those of the module, and run it.\<close>

definition run_cmd :: "cparser \<Rightarrow> cstop + cparser" where
  "run_cmd p0 =
     (let p = p0\<lparr>cp_state := sw_mod_block\<rparr>; i = cp_mod p
      in case get_arg (cp_prog p) (cp_args p) 0 of
           (None, s1) \<Rightarrow> Inl (Inl Null_deref)
         | (Some cmd_name, s1) \<Rightarrow>
             (case conf_file_get_command (sm_commands (pg_mods s1 ! i)) cmd_name of
                Some cmd \<Rightarrow>
                  (case call_set (cc_set cmd) s1 (cp_args p) i of
                     (r, s2) \<Rightarrow> if r = CONF_ERROR then conf_fail (p\<lparr>cp_prog := s2\<rparr>) ''command set failed.''
                                else Inr (p\<lparr>cp_prog := s2\<rparr>))
              | None \<Rightarrow>
                  (case conf_file_get_global_cmd s1 cmd_name of
                     Inl u \<Rightarrow> Inl (Inl u)
                   | Inr (None, s2) \<Rightarrow> conf_fail (p\<lparr>cp_prog := s2\<rparr>) ''command not found.''
                   | Inr (Some cmd, s2) \<Rightarrow>
                       (case call_set (cc_set cmd) s2 (cp_args p) i of
                          (r, s3) \<Rightarrow> if r = CONF_ERROR then conf_fail (p\<lparr>cp_prog := s3\<rparr>) ''command set failed.''
                                     else Inr (p\<lparr>cp_prog := s3\<rparr>)))))"

text \<open>\<open>sw_command\<close>, with the fall through to \<open>sw_command_end\<close>.\<close>

definition on_command :: "cparser \<Rightarrow> byte \<Rightarrow> cstop + cparser" where
  "on_command p ch =
     (if is_blank ch then push_arg (p\<lparr>cp_state := sw_command_blank\<rparr>)
      else if ch = CHR '';'' then sbind (push_arg (p\<lparr>cp_state := sw_command_end\<rparr>)) run_cmd
      else put_key p ch)"

definition on_command_blank :: "cparser \<Rightarrow> byte \<Rightarrow> cstop + cparser" where
  "on_command_blank p ch =
     (if ch = CHR '';'' then run_cmd (p\<lparr>cp_state := sw_command_end\<rparr>)
      else if is_blank ch then Inr p
      else put_key (p\<lparr>cp_state := sw_command\<rparr>) ch)"

definition on_state :: "cparser \<Rightarrow> byte \<Rightarrow> cstop + cparser" where
  "on_state p ch =
     (case cp_state p of
        sw_out \<Rightarrow>
          if ch = CHR ''#'' then Inr (p\<lparr>cp_old_state := sw_out, cp_state := sw_comment\<rparr>)
          else if is_letter ch then put_key (p\<lparr>cp_state := sw_mod_name\<rparr>) ch
          else if \<not> is_blank ch then conf_fail p ''the first char of mod name must be letter.''
          else Inr p
      | sw_comment \<Rightarrow> if ch = LF then Inr (p\<lparr>cp_state := cp_old_state p\<rparr>) else Inr p
      | sw_comment_end \<Rightarrow> Inr (p\<lparr>cp_state := cp_old_state p\<rparr>)
      | sw_mod_name \<Rightarrow> on_mod_name p ch
      | sw_mod_name_end \<Rightarrow> enter_mod p
      | sw_mod_name_end_blank \<Rightarrow>
          if ch = CHR 0x7B then Inr (p\<lparr>cp_state := sw_mod_block\<rparr>)
          else if \<not> is_blank ch then conf_fail p ''module's name is error.''
          else on_mod_block p ch
      | sw_mod_block \<Rightarrow> on_mod_block p ch
      | sw_mod_block_end \<Rightarrow> Inr (p\<lparr>cp_state := sw_out\<rparr>)
      | sw_command \<Rightarrow> on_command p ch
      | sw_command_end \<Rightarrow> run_cmd p
      | sw_command_blank \<Rightarrow> on_command_blank p ch)"

text \<open>One turn of the inner loop, with the line count at its end.\<close>

definition conf_step :: "cparser \<Rightarrow> byte \<Rightarrow> cstop + cparser" where
  "conf_step p ch = sbind (on_state p ch)
     (\<lambda>p. Inr (if ch = LF then p\<lparr>cp_line := Suc (cp_line p) mod uint_mod\<rparr> else p))"

partial_function (option) read_conf :: "cparser \<Rightarrow> (ub + (int \<times> prog)) option" where
  "read_conf p =
     (let (n, file1, s1) = file_read (cp_prog p) (cf_file (cp_prog p)) 1024 FL_DEFAULT_OFFSET;
          s2 = s1\<lparr>cf_file := file1\<rparr>
      in case n of
           None \<Rightarrow> Some (Inr (CONF_ERROR, log_stderr s2 (os_errno s2) ''read file error.''))
         | Some buff \<Rightarrow>
             if buff = [] then
               Some (Inr (if cp_state p = sw_out \<or> cp_state p = sw_mod_block_end then (CONF_OK, s2)
                          else (CONF_ERROR, log_stderr s2 0 ''config file is not complete.'')))
             else (case run conf_step (p\<lparr>cp_prog := s2\<rparr>) buff of
                 Inl (Inl u) \<Rightarrow> Some (Inl u)
               | Inl (Inr s3) \<Rightarrow> Some (Inr (CONF_ERROR, s3))
               | Inr p1 \<Rightarrow> read_conf p1))"

definition conf_parser_start :: "prog \<Rightarrow> cparser" where
  "conf_parser_start s = \<lparr>cp_prog = s, cp_state = sw_out, cp_old_state = sw_out, cp_key = [], cp_line = 1,
     cp_args = \<lparr>da_elts = NULL, da_size = 0, da_nelts = 0, da_nalloc = 0, da_cells = Map.empty\<rparr>, cp_mod = 0\<rparr>"

definition conf_file_parser :: "prog \<Rightarrow> logger_t \<Rightarrow> ub + (int \<times> prog)" where
  "conf_file_parser s logger =
     (case conf_file_init s logger of
        (r, s1) \<Rightarrow>
          if r = CONF_ERROR then Inr (CONF_ERROR, log_error s1 (Some logger) 0 ''Init config file failed.'')
          else (case read_conf (conf_parser_start s1) of
              None \<Rightarrow> Inl Diverges
            | Some res \<Rightarrow> res))"

end
