(* ===== verification/Protocol.thy ===== *)
theory Protocol
  imports MemPool ByteMachine
begin

text \<open>
  \<open>protocol.h\<close> and \<open>protocol.c\<close>: the incremental parser of requests.  The parser works on
  pointers into the connection's receive buffer: it keeps the places where the type, the
  headers, the length and the data start and end, compares the type with \<open>strncmp\<close> and reads
  the length with \<open>atoi\<close> from the buffer, which it terminates in place.  The model does the
  same on the byte memory.
\<close>

section \<open>Data\<close>

abbreviation (input) PROTOCOL_OK :: int where "PROTOCOL_OK \<equiv> 0"
abbreviation (input) PROTOCOL_ERROR :: int where "PROTOCOL_ERROR \<equiv> -1"
abbreviation (input) PROTOCOL_DONE :: int where "PROTOCOL_DONE \<equiv> -2"

abbreviation (input) UNKNOW :: nat where "UNKNOW \<equiv> 0"
abbreviation (input) PUT_T :: nat where "PUT_T \<equiv> 1"
abbreviation (input) GET_T :: nat where "GET_T \<equiv> 2"
abbreviation (input) QUEUE_T :: nat where "QUEUE_T \<equiv> 3"
abbreviation (input) LIST_T :: nat where "LIST_T \<equiv> 4"

abbreviation (input) err_type_invalid :: int where "err_type_invalid \<equiv> 1"
abbreviation (input) err_only_cr :: int where "err_only_cr \<equiv> 2"
abbreviation (input) err_type_not_found :: int where "err_type_not_found \<equiv> 3"
abbreviation (input) err_headers_invalid :: int where "err_headers_invalid \<equiv> 4"
abbreviation (input) err_data_len_invalid :: int where "err_data_len_invalid \<equiv> 5"
abbreviation (input) err_needless_data :: int where "err_needless_data \<equiv> 6"

definition protocol_err_info :: "string_t list" where
  "protocol_err_info = [string_null, xstring ''Type is invalid.'',
     xstring (''Only '' @ [CHR 0x22, CR, CHR 0x22] @ '', '' @ [CHR 0x22, LF, CHR 0x22] @ '' not found.''),
     xstring ''Type not found.'', xstring ''Headers are invalid.'', xstring ''Data len is invalid.'',
     xstring ''Data is needless.'']"

datatype pstate = sw_start | sw_type | sw_type_cr | sw_type_lf | sw_headers | sw_headers_cr
  | sw_headers_lf | sw_data_len | sw_data_len_cr | sw_data_len_lf | sw_data

record protocol_t =
  pr_type :: nat
  pr_state :: pstate
  pr_start :: addr
  pr_end :: addr
  pr_headers_start :: addr
  pr_headers_end :: addr
  pr_tmp_data_len :: nat
  pr_data_len :: nat
  pr_data_start_buf :: addr
  pr_data_start :: addr
  pr_data_end :: addr

definition sizeof_protocol_t :: nat where "sizeof_protocol_t = 80"

declare sizeof_protocol_t_def [sizeof_defs]

text \<open>The zeroed structure that \<open>protocol_init\<close> starts from.\<close>

definition protocol_zero :: protocol_t where
  "protocol_zero = \<lparr>pr_type = UNKNOW, pr_state = sw_start, pr_start = NULL, pr_end = NULL,
     pr_headers_start = NULL, pr_headers_end = NULL, pr_tmp_data_len = 0, pr_data_len = 0,
     pr_data_start_buf = NULL, pr_data_start = NULL, pr_data_end = NULL\<rparr>"

definition protocol_init ::
  "'a cmem_scheme \<Rightarrow> mem_pool_t \<Rightarrow> protocol_t option \<times> 'a cmem_scheme \<times> mem_pool_t" where
  "protocol_init w pool =
     (case pcalloc w pool sizeof_protocol_t of
        (pro, w1, pool1) \<Rightarrow> if pro = NULL then (None, w1, pool1) else (Some protocol_zero, w1, pool1))"

section \<open>The parser\<close>

text \<open>The locals of \<open>protocol_parse\<close> with the protocol structure and the memory they change.\<close>

record pctx =
  px_pro :: protocol_t
  px_state :: pstate
  px_len :: nat
  px_mem :: "addr \<Rightarrow> byte"

text \<open>An early \<open>return r\<close>, and going on with the next byte.\<close>

type_synonym pres = "(int \<times> pctx) + pctx"

definition size_dec :: "nat \<Rightarrow> nat" where
  "size_dec n = (if n = 0 then size_mod - 1 else n - 1)"

definition is_header_char :: "byte \<Rightarrow> bool" where
  "is_header_char c \<longleftrightarrow> is_letter c \<or> is_digit c \<or> c = CHR '';'' \<or> c = CHR ''_'' \<or> c = CHR ''=''"

text \<open>The \<open>switch\<close> on the length of the type.\<close>

definition find_type :: "(addr \<Rightarrow> byte) \<Rightarrow> addr \<Rightarrow> addr \<Rightarrow> nat option" where
  "find_type m start end =
     (let n = int end - int start
      in if n = 3 then
           (if mem_strncmp m start ''PUT'' 3 = 0 then Some PUT_T
            else if mem_strncmp m start ''GET'' 3 = 0 then Some GET_T else None)
         else if n = 4 then (if mem_strncmp m start ''LIST'' 4 = 0 then Some LIST_T else None)
         else if n = 5 then (if mem_strncmp m start ''QUEUE'' 5 = 0 then Some QUEUE_T else None)
         else None)"

definition parse_type :: "pctx \<Rightarrow> addr \<Rightarrow> byte \<Rightarrow> pres" where
  "parse_type x p c =
     (if px_state x = sw_start then
        (if is_blank c then Inr x
         else if c < CHR ''A'' \<or> c > CHR ''Z'' then Inl (err_type_invalid, x)
         else Inr (x\<lparr>px_pro := (px_pro x)\<lparr>pr_start := p\<rparr>, px_state := sw_type\<rparr>))
      else if px_state x = sw_type then
        (if c = CR then Inr (x\<lparr>px_pro := (px_pro x)\<lparr>pr_end := p\<rparr>, px_state := sw_type_cr\<rparr>)
         else if c < CHR ''A'' \<or> c > CHR ''Z'' then Inl (err_type_invalid, x)
         else Inr x)
      else \<comment> \<open>sw_type_cr\<close>
        (if c \<noteq> LF then Inl (err_only_cr, x)
         else case find_type (px_mem x) (pr_start (px_pro x)) (pr_end (px_pro x)) of
             None \<Rightarrow> Inl (err_type_not_found, x)
           | Some t \<Rightarrow> Inr (x\<lparr>px_pro := (px_pro x)\<lparr>pr_type := t\<rparr>, px_state := sw_type_lf\<rparr>)))"

definition parse_headers :: "pctx \<Rightarrow> addr \<Rightarrow> byte \<Rightarrow> pres" where
  "parse_headers x p c =
     (if px_state x = sw_type_lf then
        (if c = CR then Inr (x\<lparr>px_state := sw_headers_cr\<rparr>)
         else if \<not> is_header_char c then Inl (err_headers_invalid, x)
         else Inr (x\<lparr>px_pro := (px_pro x)\<lparr>pr_headers_start := p\<rparr>, px_state := sw_headers\<rparr>))
      else if px_state x = sw_headers then
        (if c = CR then Inr (x\<lparr>px_pro := (px_pro x)\<lparr>pr_headers_end := p\<rparr>, px_state := sw_headers_cr\<rparr>)
         else if \<not> is_header_char c then Inl (err_headers_invalid, x)
         else Inr x)
      else \<comment> \<open>sw_headers_cr\<close>
        (if c \<noteq> LF then Inl (PROTOCOL_ERROR, x) else Inr (x\<lparr>px_state := sw_headers_lf\<rparr>)))"

definition parse_data :: "addr \<Rightarrow> pctx \<Rightarrow> addr \<Rightarrow> byte \<Rightarrow> pres" where
  "parse_data last_buffer x p c =
     (if px_state x = sw_headers_lf then
        (if pr_type (px_pro x) \<noteq> PUT_T then Inl (err_needless_data, x)
         else if \<not> is_digit c then Inl (err_data_len_invalid, x)
         else Inr (x\<lparr>px_pro := (px_pro x)\<lparr>pr_start := p\<rparr>, px_state := sw_data_len\<rparr>))
      else if px_state x = sw_data_len then
        (if c = CR then Inr (x\<lparr>px_pro := (px_pro x)\<lparr>pr_end := p\<rparr>, px_state := sw_data_len_cr\<rparr>)
         else if \<not> is_digit c then Inl (err_data_len_invalid, x)
         else Inr x)
      else if px_state x = sw_data_len_cr then
        (if c \<noteq> LF then Inl (err_only_cr, x)
         else
           let m1 = (px_mem x)(p - 1 := NUL);
               dl = to_size_t (c_atoi (mem_str m1 (pr_start (px_pro x))));
               x1 = x\<lparr>px_pro := (px_pro x)\<lparr>pr_data_len := dl\<rparr>, px_len := dl, px_mem := m1(p - 1 := NUL)\<rparr>
           in if dl \<le> 0 then Inl (err_data_len_invalid, x1)
              else Inr (x1\<lparr>px_state := sw_data_len_lf\<rparr>))
      else if px_state x = sw_data_len_lf then
        Inr (x\<lparr>px_pro := (px_pro x)\<lparr>pr_data_start_buf := last_buffer, pr_data_start := p\<rparr>,
               px_len := size_dec (px_len x), px_state := sw_data\<rparr>)
      else \<comment> \<open>sw_data\<close>
        (if px_len x = 0 then Inl (err_needless_data, x\<lparr>px_len := size_dec (px_len x)\<rparr>)
         else Inr (x\<lparr>px_len := size_dec (px_len x)\<rparr>)))"

text \<open>One iteration of the loop at the byte \<open>*p\<close>.\<close>

definition parse_step :: "addr \<Rightarrow> pctx \<Rightarrow> addr \<Rightarrow> pres" where
  "parse_step last_buffer x p =
     (let c = px_mem x p
      in if px_state x \<in> {sw_start, sw_type, sw_type_cr} then parse_type x p c
         else if px_state x \<in> {sw_type_lf, sw_headers, sw_headers_cr} then parse_headers x p c
         else parse_data last_buffer x p c)"

text \<open>The end of the bytes: the request is complete, or its state is kept for the next call.\<close>

definition parse_end :: "addr \<Rightarrow> pctx \<Rightarrow> int \<times> protocol_t \<times> (addr \<Rightarrow> byte)" where
  "parse_end end x =
     (let pro1 = px_pro x
      in if pr_type pro1 \<noteq> UNKNOW \<and> pr_type pro1 \<noteq> PUT_T \<and> px_state x = sw_headers_lf
         then (PROTOCOL_DONE, pro1, px_mem x)
         else if pr_type pro1 = PUT_T \<and> px_state x = sw_data \<and> px_len x = 0
         then (PROTOCOL_DONE, pro1\<lparr>pr_data_end := end\<rparr>, px_mem x)
         else (PROTOCOL_OK, pro1\<lparr>pr_state := px_state x, pr_tmp_data_len := px_len x\<rparr>, px_mem x))"

definition protocol_parse :: "addr \<Rightarrow> (addr \<Rightarrow> byte) \<Rightarrow> protocol_t \<Rightarrow> addr \<Rightarrow> addr \<Rightarrow>
    int \<times> protocol_t \<times> (addr \<Rightarrow> byte)" where
  "protocol_parse last_buffer m pro start end =
     (case run (parse_step last_buffer)
         \<lparr>px_pro = pro, px_state = pr_state pro, px_len = pr_tmp_data_len pro, px_mem = m\<rparr> [start..<end] of
        Inl (r, x) \<Rightarrow> (r, px_pro x, px_mem x)
      | Inr x \<Rightarrow> parse_end end x)"

section \<open>Specification: a parser without pointers\<close>

text \<open>
  The specification keeps, in place of pointers, the pieces of the request read so far: the
  blanks before it, the type, the headers, the digits of the length and the data.
\<close>

datatype pview =
    V_start "byte list"
  | V_type "byte list" "byte list"
  | V_type_cr "byte list" "byte list"
  | V_type_lf "byte list" "byte list"
  | V_headers "byte list" "byte list" "byte list"
  | V_headers_cr "byte list" "byte list" "byte list"
  | V_headers_lf "byte list" "byte list" "byte list"
  | V_len "byte list" "byte list" "byte list" "byte list"
  | V_len_cr "byte list" "byte list" "byte list" "byte list"
  | V_len_lf "byte list" "byte list" "byte list" "byte list"
  | V_data "byte list" "byte list" "byte list" "byte list" "byte list"

definition type_of :: "byte list \<Rightarrow> nat" where
  "type_of ty = (if ty = ''PUT'' then PUT_T else if ty = ''GET'' then GET_T
     else if ty = ''QUEUE'' then QUEUE_T else if ty = ''LIST'' then LIST_T else UNKNOW)"

definition put_len :: "byte list \<Rightarrow> nat" where
  "put_len ds = to_size_t (c_atoi ds)"

fun spec_step :: "pview \<Rightarrow> byte \<Rightarrow> int + pview" where
  "spec_step (V_start pre) c =
     (if is_blank c then Inr (V_start (pre @ [c])) else if \<not> is_upper c then Inl err_type_invalid
      else Inr (V_type pre [c]))"
| "spec_step (V_type pre ty) c =
     (if c = CR then Inr (V_type_cr pre ty) else if \<not> is_upper c then Inl err_type_invalid
      else Inr (V_type pre (ty @ [c])))"
| "spec_step (V_type_cr pre ty) c =
     (if c \<noteq> LF then Inl err_only_cr else if type_of ty = UNKNOW then Inl err_type_not_found
      else Inr (V_type_lf pre ty))"
| "spec_step (V_type_lf pre ty) c =
     (if c = CR then Inr (V_headers_cr pre ty []) else if \<not> is_header_char c then Inl err_headers_invalid
      else Inr (V_headers pre ty [c]))"
| "spec_step (V_headers pre ty hs) c =
     (if c = CR then Inr (V_headers_cr pre ty hs) else if \<not> is_header_char c then Inl err_headers_invalid
      else Inr (V_headers pre ty (hs @ [c])))"
| "spec_step (V_headers_cr pre ty hs) c =
     (if c \<noteq> LF then Inl PROTOCOL_ERROR else Inr (V_headers_lf pre ty hs))"
| "spec_step (V_headers_lf pre ty hs) c =
     (if type_of ty \<noteq> PUT_T then Inl err_needless_data else if \<not> is_digit c then Inl err_data_len_invalid
      else Inr (V_len pre ty hs [c]))"
| "spec_step (V_len pre ty hs ds) c =
     (if c = CR then Inr (V_len_cr pre ty hs ds) else if \<not> is_digit c then Inl err_data_len_invalid
      else Inr (V_len pre ty hs (ds @ [c])))"
| "spec_step (V_len_cr pre ty hs ds) c =
     (if c \<noteq> LF then Inl err_only_cr else if put_len ds = 0 then Inl err_data_len_invalid
      else Inr (V_len_lf pre ty hs ds))"
| "spec_step (V_len_lf pre ty hs ds) c = Inr (V_data pre ty hs ds [c])"
| "spec_step (V_data pre ty hs ds da) c =
     (if put_len ds = length da then Inl err_needless_data else Inr (V_data pre ty hs ds (da @ [c])))"

text \<open>A request is complete after the headers, or for \<open>PUT\<close> after its data.\<close>

fun complete :: "pview \<Rightarrow> bool" where
  "complete (V_headers_lf pre ty hs) = (type_of ty \<noteq> PUT_T)"
| "complete (V_data pre ty hs ds da) = (put_len ds = length da)"
| "complete v = False"

definition spec_parse :: "byte list \<Rightarrow> int" where
  "spec_parse xs =
     (case run spec_step (V_start []) xs of Inl r \<Rightarrow> r
      | Inr v \<Rightarrow> if complete v then PROTOCOL_DONE else PROTOCOL_OK)"

section \<open>What a view stands for\<close>

definition CRLF :: "byte list" where "CRLF = [CR, LF]"

fun view_bytes :: "pview \<Rightarrow> byte list" where
  "view_bytes (V_start pre) = pre"
| "view_bytes (V_type pre ty) = pre @ ty"
| "view_bytes (V_type_cr pre ty) = pre @ ty @ [CR]"
| "view_bytes (V_type_lf pre ty) = pre @ ty @ CRLF"
| "view_bytes (V_headers pre ty hs) = pre @ ty @ CRLF @ hs"
| "view_bytes (V_headers_cr pre ty hs) = pre @ ty @ CRLF @ hs @ [CR]"
| "view_bytes (V_headers_lf pre ty hs) = pre @ ty @ CRLF @ hs @ CRLF"
| "view_bytes (V_len pre ty hs ds) = pre @ ty @ CRLF @ hs @ CRLF @ ds"
| "view_bytes (V_len_cr pre ty hs ds) = pre @ ty @ CRLF @ hs @ CRLF @ ds @ [CR]"
| "view_bytes (V_len_lf pre ty hs ds) = pre @ ty @ CRLF @ hs @ CRLF @ ds @ CRLF"
| "view_bytes (V_data pre ty hs ds da) = pre @ ty @ CRLF @ hs @ CRLF @ ds @ CRLF @ da"

text \<open>The well-formedness of the pieces.\<close>

definition ok_type :: "byte list \<Rightarrow> byte list \<Rightarrow> bool" where
  "ok_type pre ty \<longleftrightarrow> list_all is_blank pre \<and> ty \<noteq> [] \<and> list_all is_upper ty"

definition ok_head :: "byte list \<Rightarrow> byte list \<Rightarrow> byte list \<Rightarrow> bool" where
  "ok_head pre ty hs \<longleftrightarrow> ok_type pre ty \<and> type_of ty \<noteq> UNKNOW \<and> list_all is_header_char hs"

definition ok_len :: "byte list \<Rightarrow> byte list \<Rightarrow> byte list \<Rightarrow> byte list \<Rightarrow> bool" where
  "ok_len pre ty hs ds \<longleftrightarrow> ok_head pre ty hs \<and> type_of ty = PUT_T \<and> ds \<noteq> [] \<and> list_all is_digit ds"

fun view_ok :: "pview \<Rightarrow> bool" where
  "view_ok (V_start pre) = list_all is_blank pre"
| "view_ok (V_type pre ty) = ok_type pre ty"
| "view_ok (V_type_cr pre ty) = ok_type pre ty"
| "view_ok (V_type_lf pre ty) = ok_head pre ty []"
| "view_ok (V_headers pre ty hs) = (ok_head pre ty hs \<and> hs \<noteq> [])"
| "view_ok (V_headers_cr pre ty hs) = ok_head pre ty hs"
| "view_ok (V_headers_lf pre ty hs) = ok_head pre ty hs"
| "view_ok (V_len pre ty hs ds) = ok_len pre ty hs ds"
| "view_ok (V_len_cr pre ty hs ds) = ok_len pre ty hs ds"
| "view_ok (V_len_lf pre ty hs ds) = (ok_len pre ty hs ds \<and> put_len ds \<noteq> 0)"
| "view_ok (V_data pre ty hs ds da) = (ok_len pre ty hs ds \<and> da \<noteq> [] \<and> length da \<le> put_len ds)"

text \<open>
  The parser's own state for a view: \<open>s0\<close> is the address of the first byte, \<open>m\<close> the memory the
  request was received in, and \<open>lb\<close> the buffer.  Every pointer is the place of its piece.
\<close>

definition pro_type :: "addr \<Rightarrow> byte list \<Rightarrow> protocol_t" where
  "pro_type s0 pre = protocol_zero\<lparr>pr_start := s0 + length pre\<rparr>"

definition pro_head :: "addr \<Rightarrow> byte list \<Rightarrow> byte list \<Rightarrow> byte list \<Rightarrow> protocol_t" where
  "pro_head s0 pre ty hs = (pro_type s0 pre)\<lparr>pr_end := s0 + length (pre @ ty), pr_type := type_of ty,
     pr_headers_start := (if hs = [] then NULL else s0 + length (pre @ ty @ CRLF))\<rparr>"

definition pro_head_end :: "addr \<Rightarrow> byte list \<Rightarrow> byte list \<Rightarrow> byte list \<Rightarrow> protocol_t" where
  "pro_head_end s0 pre ty hs = (pro_head s0 pre ty hs)
     \<lparr>pr_headers_end := (if hs = [] then NULL else s0 + length (pre @ ty @ CRLF @ hs))\<rparr>"

definition pro_len :: "addr \<Rightarrow> byte list \<Rightarrow> byte list \<Rightarrow> byte list \<Rightarrow> protocol_t" where
  "pro_len s0 pre ty hs = (pro_head_end s0 pre ty hs)\<lparr>pr_start := s0 + length (pre @ ty @ CRLF @ hs @ CRLF)\<rparr>"

definition pro_len_end :: "addr \<Rightarrow> byte list \<Rightarrow> byte list \<Rightarrow> byte list \<Rightarrow> byte list \<Rightarrow> protocol_t" where
  "pro_len_end s0 pre ty hs ds =
     (pro_len s0 pre ty hs)\<lparr>pr_end := s0 + length (pre @ ty @ CRLF @ hs @ CRLF @ ds)\<rparr>"

definition pro_data :: "addr \<Rightarrow> addr \<Rightarrow> byte list \<Rightarrow> byte list \<Rightarrow> byte list \<Rightarrow> byte list \<Rightarrow> protocol_t" where
  "pro_data lb s0 pre ty hs ds = (pro_len_end s0 pre ty hs ds)\<lparr>pr_data_len := put_len ds,
     pr_data_start_buf := lb, pr_data_start := s0 + length (pre @ ty @ CRLF @ hs @ CRLF @ ds @ CRLF)\<rparr>"

text \<open>The memory once the CR behind the length has been overwritten.\<close>

definition cut_mem :: "(addr \<Rightarrow> byte) \<Rightarrow> addr \<Rightarrow> byte list \<Rightarrow> byte list \<Rightarrow> byte list \<Rightarrow> byte list \<Rightarrow> addr \<Rightarrow> byte" where
  "cut_mem m s0 pre ty hs ds = m(s0 + length (pre @ ty @ CRLF @ hs @ CRLF @ ds) := NUL)"

fun view_ctx :: "addr \<Rightarrow> (addr \<Rightarrow> byte) \<Rightarrow> addr \<Rightarrow> pview \<Rightarrow> pctx" where
  "view_ctx lb m s0 (V_start pre) = \<lparr>px_pro = protocol_zero, px_state = sw_start, px_len = 0, px_mem = m\<rparr>"
| "view_ctx lb m s0 (V_type pre ty) = \<lparr>px_pro = pro_type s0 pre, px_state = sw_type, px_len = 0, px_mem = m\<rparr>"
| "view_ctx lb m s0 (V_type_cr pre ty) =
     \<lparr>px_pro = (pro_type s0 pre)\<lparr>pr_end := s0 + length (pre @ ty)\<rparr>, px_state = sw_type_cr, px_len = 0, px_mem = m\<rparr>"
| "view_ctx lb m s0 (V_type_lf pre ty) =
     \<lparr>px_pro = pro_head s0 pre ty [], px_state = sw_type_lf, px_len = 0, px_mem = m\<rparr>"
| "view_ctx lb m s0 (V_headers pre ty hs) =
     \<lparr>px_pro = pro_head s0 pre ty hs, px_state = sw_headers, px_len = 0, px_mem = m\<rparr>"
| "view_ctx lb m s0 (V_headers_cr pre ty hs) =
     \<lparr>px_pro = pro_head_end s0 pre ty hs, px_state = sw_headers_cr, px_len = 0, px_mem = m\<rparr>"
| "view_ctx lb m s0 (V_headers_lf pre ty hs) =
     \<lparr>px_pro = pro_head_end s0 pre ty hs, px_state = sw_headers_lf, px_len = 0, px_mem = m\<rparr>"
| "view_ctx lb m s0 (V_len pre ty hs ds) =
     \<lparr>px_pro = pro_len s0 pre ty hs, px_state = sw_data_len, px_len = 0, px_mem = m\<rparr>"
| "view_ctx lb m s0 (V_len_cr pre ty hs ds) =
     \<lparr>px_pro = pro_len_end s0 pre ty hs ds, px_state = sw_data_len_cr, px_len = 0, px_mem = m\<rparr>"
| "view_ctx lb m s0 (V_len_lf pre ty hs ds) =
     \<lparr>px_pro = (pro_len_end s0 pre ty hs ds)\<lparr>pr_data_len := put_len ds\<rparr>, px_state = sw_data_len_lf,
      px_len = put_len ds, px_mem = cut_mem m s0 pre ty hs ds\<rparr>"
| "view_ctx lb m s0 (V_data pre ty hs ds da) =
     \<lparr>px_pro = pro_data lb s0 pre ty hs ds, px_state = sw_data, px_len = put_len ds - length da,
      px_mem = cut_mem m s0 pre ty hs ds\<rparr>"

section \<open>The parser refines the specification\<close>

lemma holds_same_length: "holds m a xs \<Longrightarrow> length ys = length xs \<Longrightarrow> holds m a ys \<longleftrightarrow> ys = xs"
  by (auto simp: holds_def)

lemma find_type_spec:
  assumes "holds m s ty"
  shows "find_type m s (s + length ty) = (if type_of ty = UNKNOW then None else Some (type_of ty))"
proof -
  have cmp: "mem_strncmp m s w n = 0 \<longleftrightarrow> ty = w" if "NUL \<notin> set w" "length w = n" "length ty = n" for w n
    using mem_strncmp_eq_0 [OF that(1), of m s] holds_same_length [OF assms, of w] that(2,3) by auto
  have n: "int (s + length ty) - int s = int (length ty)" by simp
  consider (3) "length ty = 3" | (4) "length ty = 4" | (5) "length ty = 5" | (other) "length ty \<notin> {3, 4, 5}"
    by blast
  then show ?thesis
  proof cases
    case 3
    then have "ty \<noteq> ''LIST''" "ty \<noteq> ''QUEUE''" by force+
    with 3 cmp [of "''PUT''" 3] cmp [of "''GET''" 3] show ?thesis
      unfolding find_type_def Let_def n type_of_def by (simp add: NUL_def)
  next
    case 4
    then have "ty \<noteq> ''PUT''" "ty \<noteq> ''GET''" "ty \<noteq> ''QUEUE''" by force+
    with 4 cmp [of "''LIST''" 4] show ?thesis
      unfolding find_type_def Let_def n type_of_def by (simp add: NUL_def)
  next
    case 5
    then have "ty \<noteq> ''PUT''" "ty \<noteq> ''GET''" "ty \<noteq> ''LIST''" by force+
    with 5 cmp [of "''QUEUE''" 5] show ?thesis
      unfolding find_type_def Let_def n type_of_def by (simp add: NUL_def)
  next
    case other
    then have "type_of ty = UNKNOW" by (auto simp: type_of_def)
    with other show ?thesis unfolding find_type_def Let_def n by simp
  qed
qed

lemma digits_no_NUL: "list_all is_digit ds \<Longrightarrow> NUL \<notin> set ds"
  by (auto simp: list_all_iff char_defs)

lemma holds_upd_below: "holds m a xs \<Longrightarrow> a + length xs \<le> e \<Longrightarrow> holds (m(e := c)) a xs"
  by (induction xs arbitrary: a) auto

lemma holds_upd_above: "holds m a xs \<Longrightarrow> e < a \<Longrightarrow> holds (m(e := c)) a xs"
  by (induction xs arbitrary: a) auto

lemma mem_str_cut:
  assumes "holds m a ds" "list_all is_digit ds" "a + length ds < addr_top"
  shows "mem_str (m(a + length ds := NUL)) a = ds"
proof -
  let ?m = "m(a + length ds := NUL)"
  have "mem_bytes ?m a (length ds) = ds"
    using holds_upd_below [OF assms(1)] by (simp add: holds_def)
  then show ?thesis
    using mem_str_bytes [of ?m a "length ds"] digits_no_NUL [OF assms(2)] assms(3) by simp
qed

text \<open>What one step of either parser returns, without the state at an early return.\<close>

definition drop_ctx :: "pres \<Rightarrow> int + pctx" where
  "drop_ctx r = map_sum fst id r"

lemma upper_char: "(c < CHR ''A'' \<or> c > CHR ''Z'') \<longleftrightarrow> \<not> is_upper c"
  by (auto simp: is_upper_def not_le)

lemmas pro_defs = pro_type_def pro_head_def pro_head_end_def pro_len_def pro_len_end_def pro_data_def
  protocol_zero_def

lemma to_size_t_bound: "to_size_t i < size_mod"
  by (simp add: to_size_t_def nat_less_iff)

lemma parse_step_refines:
  assumes "view_ok v" "holds m s0 (view_bytes v @ [c])" "s0 + length (view_bytes v) < addr_top"
  shows "drop_ctx (parse_step lb (view_ctx lb m s0 v) (s0 + length (view_bytes v)))
     = map_sum id (view_ctx lb m s0) (spec_step v c)"
proof (cases v)
  case (V_type_cr pre ty)
  then have "find_type m (s0 + length pre) (s0 + (length pre + length ty)) =
      (if type_of ty = UNKNOW then None else Some (type_of ty))"
    using assms(2) find_type_spec [of m "s0 + length pre" ty] by (simp add: add.assoc)
  then show ?thesis using assms V_type_cr
    by (simp add: parse_step_def parse_type_def drop_ctx_def pro_defs add.assoc)
next
  case (V_len_cr pre ty hs ds)
  let ?a = "s0 + length (pre @ ty @ CRLF @ hs @ CRLF)"
  have "mem_str (m(?a + length ds := NUL)) ?a = ds"
    using assms V_len_cr by (intro mem_str_cut) (simp_all add: ok_len_def add.assoc)
  moreover have "s0 + length (view_bytes v) - 1 = ?a + length ds" by (simp add: V_len_cr)
  ultimately show ?thesis using assms V_len_cr
    by (simp add: parse_step_def parse_data_def drop_ctx_def pro_defs put_len_def cut_mem_def Let_def
        CRLF_def add.assoc)
next
  case (V_start pre)
  with assms show ?thesis by (simp add: parse_step_def drop_ctx_def pro_defs add.assoc parse_type_def upper_char)
next
  case (V_type pre ty)
  with assms show ?thesis by (simp add: parse_step_def drop_ctx_def pro_defs add.assoc parse_type_def upper_char)
next
  case (V_type_lf pre ty)
  with assms show ?thesis by (simp add: parse_step_def drop_ctx_def pro_defs add.assoc parse_headers_def CRLF_def)
next
  case (V_headers pre ty hs)
  with assms show ?thesis by (simp add: parse_step_def drop_ctx_def pro_defs add.assoc parse_headers_def CRLF_def)
next
  case (V_headers_cr pre ty hs)
  with assms show ?thesis by (simp add: parse_step_def drop_ctx_def pro_defs add.assoc parse_headers_def CRLF_def)
next
  case (V_headers_lf pre ty hs)
  with assms show ?thesis by (simp add: parse_step_def drop_ctx_def pro_defs add.assoc parse_data_def CRLF_def)
next
  case (V_len pre ty hs ds)
  with assms show ?thesis by (simp add: parse_step_def drop_ctx_def pro_defs add.assoc parse_data_def CRLF_def)
next
  case (V_len_lf pre ty hs ds)
  with assms show ?thesis by (simp add: parse_step_def drop_ctx_def pro_defs add.assoc parse_data_def CRLF_def cut_mem_def size_dec_def)
next
  case (V_data pre ty hs ds da)
  with assms show ?thesis by (simp add: parse_step_def drop_ctx_def pro_defs add.assoc parse_data_def CRLF_def cut_mem_def size_dec_def)
qed

lemma spec_step_ok:
  "view_ok v \<Longrightarrow> spec_step v c = Inr v' \<Longrightarrow> view_ok v' \<and> view_bytes v' = view_bytes v @ [c]"
  by (cases v) (auto simp: ok_type_def ok_head_def ok_len_def CRLF_def put_len_def split: if_splits)

interpretation spec: byte_machine spec_step "\<lambda>xs v. view_ok v \<and> view_bytes v = xs"
  by unfold_locales (use spec_step_ok in blast)

lemma drop_ctx_run:
  "drop_ctx (run step x (p # ps)) =
     (case drop_ctx (step x p) of Inl r \<Rightarrow> Inl r | Inr x1 \<Rightarrow> drop_ctx (run step x1 ps))"
  by (auto simp: drop_ctx_def split: sum.splits)

lemma run_refines:
  assumes "view_ok v" "holds m s0 (view_bytes v @ xs)" "s0 + length (view_bytes v @ xs) \<le> addr_top"
  shows "drop_ctx (run (parse_step lb) (view_ctx lb m s0 v)
       [s0 + length (view_bytes v) ..< s0 + length (view_bytes v) + length xs])
     = map_sum id (view_ctx lb m s0) (run spec_step v xs)"
  using assms
proof (induction xs arbitrary: v)
  case Nil
  then show ?case by (simp add: drop_ctx_def)
next
  case (Cons c xs)
  let ?p = "s0 + length (view_bytes v)"
  have step: "drop_ctx (parse_step lb (view_ctx lb m s0 v) ?p) = map_sum id (view_ctx lb m s0) (spec_step v c)"
    using Cons.prems by (intro parse_step_refines) simp_all
  have upt: "[?p ..< ?p + length (c # xs)] = ?p # [Suc ?p ..< Suc ?p + length xs]"
    by (simp add: upt_conv_Cons del: upt_Suc)
  show ?case
  proof (cases "spec_step v c")
    case (Inl r)
    with step show ?thesis unfolding upt drop_ctx_run by simp
  next
    case (Inr v')
    then have v': "view_ok v'" "view_bytes v' = view_bytes v @ [c]"
      using spec_step_ok [OF Cons.prems(1)] by auto
    with Cons.IH [of v'] Cons.prems Inr step show ?thesis
      unfolding upt drop_ctx_run by (simp del: upt_Suc)
  qed
qed

lemma protocol_parse_run:
  "protocol_parse lb m pro a b =
     (case run (parse_step lb) \<lparr>px_pro = pro, px_state = pr_state pro, px_len = pr_tmp_data_len pro, px_mem = m\<rparr> [a..<b] of
        Inl (r, x) \<Rightarrow> (r, px_pro x, px_mem x) | Inr x \<Rightarrow> parse_end b x)"
  by (simp add: protocol_parse_def split: sum.split)

lemma complete_end:
  "view_ok v \<Longrightarrow> fst (parse_end e (view_ctx lb m s0 v)) = (if complete v then PROTOCOL_DONE else PROTOCOL_OK)"
  by (cases v) (auto simp: parse_end_def pro_defs ok_head_def ok_len_def Let_def)

lemma fresh_ctx:
  "\<lparr>px_pro = protocol_zero, px_state = pr_state protocol_zero, px_len = pr_tmp_data_len protocol_zero, px_mem = m\<rparr>
   = view_ctx lb m s0 (V_start [])"
  by (simp add: protocol_zero_def)

lemma fresh_parse:
  assumes "holds m s0 xs" "s0 + length xs \<le> addr_top"
  shows "case run spec_step (V_start []) xs of
      Inl r \<Rightarrow> fst (protocol_parse lb m protocol_zero s0 (s0 + length xs)) = r
    | Inr v \<Rightarrow> protocol_parse lb m protocol_zero s0 (s0 + length xs) =
        parse_end (s0 + length xs) (view_ctx lb m s0 v) \<and> view_ok v \<and> view_bytes v = xs"
proof -
  have R: "drop_ctx (run (parse_step lb) (view_ctx lb m s0 (V_start [])) [s0 ..< s0 + length xs])
     = map_sum id (view_ctx lb m s0) (run spec_step (V_start []) xs)"
    using run_refines [of "V_start []" m s0 xs lb] assms by simp
  show ?thesis
  proof (cases "run spec_step (V_start []) xs")
    case (Inl r)
    with R show ?thesis unfolding protocol_parse_run fresh_ctx [of m lb s0]
      by (auto simp: drop_ctx_def split: sum.splits)
  next
    case (Inr v)
    have "view_ok v \<and> view_bytes v = xs" using spec.run_rel [where xs = "[]" and s = "V_start []" and ys = xs and s' = v] Inr by simp
    moreover have "run (parse_step lb) (view_ctx lb m s0 (V_start [])) [s0 ..< s0 + length xs] =
        Inr (view_ctx lb m s0 v)"
      using R Inr by (auto simp: drop_ctx_def map_sum_def split: sum.splits)
    ultimately show ?thesis using Inr unfolding protocol_parse_run fresh_ctx [of m lb s0] by simp
  qed
qed

lemma fresh_code:
  assumes "holds m s0 xs" "s0 + length xs \<le> addr_top"
  shows "fst (protocol_parse lb m protocol_zero s0 (s0 + length xs)) = spec_parse xs"
  using fresh_parse [OF assms, of lb] complete_end
  by (auto simp: spec_parse_def split: sum.splits)

section \<open>The language of requests\<close>

text \<open>Runs over the repeated parts of a request.\<close>

lemma upper_not_CR: "is_upper c \<Longrightarrow> c \<noteq> CR" and header_not_CR: "is_header_char c \<Longrightarrow> c \<noteq> CR"
  and digit_not_CR: "is_digit c \<Longrightarrow> c \<noteq> CR" and upper_not_blank: "is_upper c \<Longrightarrow> \<not> is_blank c"
  by (auto simp: char_defs is_header_char_def)

lemma run_blanks: "list_all is_blank xs \<Longrightarrow> run spec_step (V_start pre) xs = Inr (V_start (pre @ xs))"
  by (induction xs arbitrary: pre) auto

lemma run_type: "list_all is_upper xs \<Longrightarrow> run spec_step (V_type pre ty) xs = Inr (V_type pre (ty @ xs))"
  by (induction xs arbitrary: ty) (auto dest: upper_not_CR)

lemma run_headers:
  "list_all is_header_char xs \<Longrightarrow> run spec_step (V_headers pre ty hs) xs = Inr (V_headers pre ty (hs @ xs))"
  by (induction xs arbitrary: hs) (auto dest: header_not_CR)

lemma run_len: "list_all is_digit xs \<Longrightarrow> run spec_step (V_len pre ty hs ds) xs = Inr (V_len pre ty hs (ds @ xs))"
  by (induction xs arbitrary: ds) (auto dest: digit_not_CR)

lemma run_data:
  "length da + length xs \<le> put_len ds \<Longrightarrow>
   run spec_step (V_data pre ty hs ds da) xs = Inr (V_data pre ty hs ds (da @ xs))"
  by (induction xs arbitrary: da) auto

lemma reach_type:
  assumes "ok_type pre ty"
  shows "run spec_step (V_start []) (pre @ ty) = Inr (V_type pre ty)"
proof -
  obtain c cs where ty: "ty = c # cs" "is_upper c" "list_all is_upper cs" "list_all is_blank pre"
    using assms by (cases ty) (auto simp: ok_type_def)
  then show ?thesis
    using run_blanks [OF ty(4), of "[]"] run_type [OF ty(3), of pre "[c]"] upper_not_blank
    by (simp add: run_append)
qed

lemma reach_type_lf:
  assumes "ok_type pre ty" "type_of ty \<noteq> UNKNOW"
  shows "run spec_step (V_start []) (pre @ ty @ CRLF) = Inr (V_type_lf pre ty)"
  using reach_type [OF assms(1)] assms(2) run_append [of spec_step "V_start []" "pre @ ty" CRLF]
  by (simp add: CRLF_def)

lemma reach_headers_cr:
  assumes "ok_head pre ty hs"
  shows "run spec_step (V_start []) (pre @ ty @ CRLF @ hs @ [CR]) = Inr (V_headers_cr pre ty hs)"
proof -
  have "run spec_step (V_type_lf pre ty) (hs @ [CR]) = Inr (V_headers_cr pre ty hs)"
  proof (cases hs)
    case (Cons c cs)
    with assms have "is_header_char c" "list_all is_header_char cs" by (auto simp: ok_head_def)
    then show ?thesis using run_headers [of cs pre ty "[c]"] header_not_CR by (simp add: Cons run_append)
  qed simp
  then show ?thesis
    using reach_type_lf [of pre ty] assms run_append [of spec_step "V_start []" "pre @ ty @ CRLF" "hs @ [CR]"]
    by (simp add: ok_head_def)
qed

lemma reach_headers_lf:
  "ok_head pre ty hs \<Longrightarrow> run spec_step (V_start []) (pre @ ty @ CRLF @ hs @ CRLF) = Inr (V_headers_lf pre ty hs)"
  using reach_headers_cr [of pre ty hs] run_append [of spec_step "V_start []" "pre @ ty @ CRLF @ hs @ [CR]" "[LF]"]
  by (simp add: CRLF_def)

lemma reach_len:
  assumes "ok_len pre ty hs ds"
  shows "run spec_step (V_start []) (pre @ ty @ CRLF @ hs @ CRLF @ ds) = Inr (V_len pre ty hs ds)"
proof -
  obtain c cs where ds: "ds = c # cs" "is_digit c" "list_all is_digit cs"
    using assms by (cases ds) (auto simp: ok_len_def)
  have "run spec_step (V_headers_lf pre ty hs) ds = Inr (V_len pre ty hs ds)"
    using assms run_len [OF ds(3), of pre ty hs "[c]"] by (simp add: ds ok_len_def)
  then show ?thesis
    using reach_headers_lf [of pre ty hs] assms
      run_append [of spec_step "V_start []" "pre @ ty @ CRLF @ hs @ CRLF" ds]
    by (simp add: ok_len_def)
qed

lemma reach_len_lf:
  assumes "ok_len pre ty hs ds" "put_len ds \<noteq> 0"
  shows "run spec_step (V_start []) (pre @ ty @ CRLF @ hs @ CRLF @ ds @ CRLF) = Inr (V_len_lf pre ty hs ds)"
  using reach_len [OF assms(1)] assms(2)
    run_append [of spec_step "V_start []" "pre @ ty @ CRLF @ hs @ CRLF @ ds" CRLF]
  by (simp add: CRLF_def)

lemma reach_data:
  assumes "ok_len pre ty hs ds" "da \<noteq> []" "length da \<le> put_len ds"
  shows "run spec_step (V_start []) (pre @ ty @ CRLF @ hs @ CRLF @ ds @ CRLF @ da) = Inr (V_data pre ty hs ds da)"
proof -
  obtain c cs where da: "da = c # cs" using assms(2) by (cases da) auto
  have "put_len ds \<noteq> 0" using assms(3) by (auto simp: da)
  moreover have "run spec_step (V_len_lf pre ty hs ds) da = Inr (V_data pre ty hs ds da)"
    using run_data [of "[c]" cs ds pre ty hs] assms(3) by (simp add: da)
  ultimately show ?thesis
    using reach_len_lf [OF assms(1)]
      run_append [of spec_step "V_start []" "pre @ ty @ CRLF @ hs @ CRLF @ ds @ CRLF" da]
    by simp
qed

lemmas reach = reach_type reach_type_lf reach_headers_cr reach_headers_lf reach_len reach_len_lf reach_data

text \<open>A complete request: blanks, type, headers, and for \<open>PUT\<close> the length and that many bytes.\<close>

definition is_request :: "byte list \<Rightarrow> bool" where
  "is_request xs \<longleftrightarrow> (\<exists>pre ty hs. ok_head pre ty hs \<and>
     (if type_of ty = PUT_T
      then \<exists>ds da. ok_len pre ty hs ds \<and> da \<noteq> [] \<and> put_len ds = length da \<and>
             xs = pre @ ty @ CRLF @ hs @ CRLF @ ds @ CRLF @ da
      else xs = pre @ ty @ CRLF @ hs @ CRLF))"

lemma complete_request: "view_ok v \<Longrightarrow> complete v \<Longrightarrow> is_request (view_bytes v)"
proof (cases v)
  case (V_data pre ty hs ds da)
  assume "view_ok v" "complete v"
  then show ?thesis unfolding V_data is_request_def
    by (intro exI [of _ pre] exI [of _ ty] exI [of _ hs]) (auto simp: ok_len_def)
qed (auto simp: is_request_def)

lemma request_complete:
  assumes "is_request xs"
  shows "\<exists>v. run spec_step (V_start []) xs = Inr v \<and> complete v"
proof -
  obtain pre ty hs where h: "ok_head pre ty hs" "if type_of ty = PUT_T
      then \<exists>ds da. ok_len pre ty hs ds \<and> da \<noteq> [] \<and> put_len ds = length da \<and>
             xs = pre @ ty @ CRLF @ hs @ CRLF @ ds @ CRLF @ da
      else xs = pre @ ty @ CRLF @ hs @ CRLF" using assms unfolding is_request_def by blast
  show ?thesis
  proof (cases "type_of ty = PUT_T")
    case True
    with h(2) obtain ds da where "ok_len pre ty hs ds" "da \<noteq> []" "put_len ds = length da"
      "xs = pre @ ty @ CRLF @ hs @ CRLF @ ds @ CRLF @ da" by auto
    then show ?thesis using reach_data [of pre ty hs ds da] by simp
  next
    case False
    then show ?thesis using h reach_headers_lf [OF h(1)] by auto
  qed
qed

lemma spec_step_codes: "spec_step v c = Inl r \<Longrightarrow> r \<in> {-1, 1, 2, 3, 4, 5, 6}"
  by (cases v) (auto split: if_splits)

lemma spec_step_needless: "spec_step v c = Inl err_needless_data \<longleftrightarrow> complete v"
  by (cases v) auto

lemma spec_stop:
  assumes "run spec_step (V_start []) xs = Inl r"
  shows "\<exists>us b vs v. xs = us @ b # vs \<and> run spec_step (V_start []) us = Inr v \<and> view_ok v \<and>
    view_bytes v = us \<and> spec_step v b = Inl r"
  using spec.run_stop [where xs = "[]" and s = "V_start []" and ys = xs and r = r] assms by simp

lemma run_view: "run spec_step (V_start []) xs = Inr v \<Longrightarrow> view_ok v \<and> view_bytes v = xs"
  using spec.run_rel [where xs = "[]" and s = "V_start []" and ys = xs and s' = v] by simp

lemma spec_parse_done: "spec_parse xs = PROTOCOL_DONE \<longleftrightarrow> is_request xs"
proof (cases "run spec_step (V_start []) xs")
  case (Inl r)
  then have "r \<noteq> PROTOCOL_DONE" using spec_stop [OF Inl] spec_step_codes by fastforce
  moreover have "\<not> is_request xs" using request_complete [of xs] Inl by auto
  ultimately show ?thesis using Inl by (simp add: spec_parse_def)
next
  case (Inr v)
  then show ?thesis
    using run_view [OF Inr] complete_request [of v] request_complete [of xs] by (auto simp: spec_parse_def)
qed

lemma spec_parse_needless:
  "spec_parse xs = err_needless_data \<longleftrightarrow> (\<exists>us b vs. xs = us @ b # vs \<and> is_request us)"
proof
  assume a: "spec_parse xs = err_needless_data"
  then have "run spec_step (V_start []) xs = Inl err_needless_data"
    by (auto simp: spec_parse_def split: sum.splits if_splits)
  from spec_stop [OF this] show "\<exists>us b vs. xs = us @ b # vs \<and> is_request us"
    using spec_step_needless complete_request by blast
next
  assume "\<exists>us b vs. xs = us @ b # vs \<and> is_request us"
  then obtain us b vs where xs: "xs = us @ b # vs" "is_request us" by blast
  with request_complete obtain v where "run spec_step (V_start []) us = Inr v" "complete v" by blast
  then show "spec_parse xs = err_needless_data"
    using spec_step_needless [of v b] by (simp add: spec_parse_def xs(1) run_append)
qed

text \<open>The codes an early return gives, whatever the state is.\<close>

lemma parse_step_codes: "parse_step lb x p = Inl (r, y) \<Longrightarrow> r \<in> {-1, 1, 2, 3, 4, 5, 6}"
  by (cases "px_state x")
    (auto simp: parse_step_def parse_type_def parse_headers_def parse_data_def Let_def
      split: if_splits option.splits)

lemma run_codes: "run (parse_step lb) x ps = Inl (r, y) \<Longrightarrow> r \<in> {-1, 1, 2, 3, 4, 5, 6}"
  by (induction ps arbitrary: x) (auto split: sum.splits dest: parse_step_codes)

section \<open>Resuming\<close>

text \<open>The step function never looks at the two fields in which the parser saves its state.\<close>

definition save_in :: "pstate \<Rightarrow> nat \<Rightarrow> protocol_t \<Rightarrow> protocol_t" where
  "save_in s t pro = pro\<lparr>pr_state := s, pr_tmp_data_len := t\<rparr>"

definition saved :: "pstate \<Rightarrow> nat \<Rightarrow> pctx \<Rightarrow> pctx" where
  "saved s t x = x\<lparr>px_pro := save_in s t (px_pro x)\<rparr>"

lemma forget_saved: "save_in s' t' (px_pro (saved s t x)) = save_in s' t' (px_pro x)"
  by (simp add: saved_def save_in_def)

lemma mem_saved: "px_mem (saved s t x) = px_mem x"
  by (simp add: saved_def)

lemma parse_step_saved:
  "parse_step lb (saved s t x) p = map_sum (map_prod id (saved s t)) (saved s t) (parse_step lb x p)"
  by (cases "px_state x")
    (simp_all add: parse_step_def parse_type_def parse_headers_def parse_data_def saved_def save_in_def Let_def
      split: option.splits)

lemma run_saved:
  "run (parse_step lb) (saved s t x) ps = map_sum (map_prod id (saved s t)) (saved s t) (run (parse_step lb) x ps)"
  using run_simulation [where R = "\<lambda>_. True" and f = "saved s t"] parse_step_saved by blast

text \<open>Forgetting the saved state.\<close>

abbreviation forget :: "protocol_t \<Rightarrow> protocol_t" where
  "forget \<equiv> save_in sw_start 0"

lemma parse_end_saved:
  "fst (parse_end e (saved s t x)) = fst (parse_end e x)"
  "forget (fst (snd (parse_end e (saved s t x)))) = forget (fst (snd (parse_end e x)))"
  "snd (snd (parse_end e (saved s t x))) = snd (snd (parse_end e x))"
  by (simp_all add: parse_end_def saved_def save_in_def Let_def split: if_splits)

lemma parse_end_saved_OK:
  "fst (parse_end e x) = PROTOCOL_OK \<Longrightarrow> parse_end e (saved s t x) = parse_end e x"
  by (auto simp: parse_end_def saved_def save_in_def Let_def split: if_splits)

lemma parse_end_OK:
  assumes "parse_end e x = (PROTOCOL_OK, pro1, m1)"
  shows "pro1 = save_in (px_state x) (px_len x) (px_pro x)" "m1 = px_mem x"
    "\<lparr>px_pro = pro1, px_state = pr_state pro1, px_len = pr_tmp_data_len pro1, px_mem = m1\<rparr>
     = saved (px_state x) (px_len x) x"
  using assms by (auto simp: parse_end_def Let_def save_in_def saved_def split: if_splits)

text \<open>Cutting the input in two.\<close>

lemma parse_split:
  assumes "a \<le> b" "b \<le> c" "protocol_parse lb m pro a b = (PROTOCOL_OK, pro1, m1)"
  shows "fst (protocol_parse lb m1 pro1 b c) = fst (protocol_parse lb m pro a c)"
    and "forget (fst (snd (protocol_parse lb m1 pro1 b c))) = forget (fst (snd (protocol_parse lb m pro a c)))"
    and "snd (snd (protocol_parse lb m1 pro1 b c)) = snd (snd (protocol_parse lb m pro a c))"
    and "fst (protocol_parse lb m pro a c) = PROTOCOL_OK \<Longrightarrow>
      protocol_parse lb m1 pro1 b c = protocol_parse lb m pro a c"
proof -
  let ?x0 = "\<lparr>px_pro = pro, px_state = pr_state pro, px_len = pr_tmp_data_len pro, px_mem = m\<rparr>"
  have "run (parse_step lb) ?x0 [a..<b] \<noteq> Inl (PROTOCOL_OK, x)" for x
    using run_codes [of lb ?x0 "[a..<b]" PROTOCOL_OK x] by auto
  then obtain x where x: "run (parse_step lb) ?x0 [a..<b] = Inr x" "parse_end b x = (PROTOCOL_OK, pro1, m1)"
    using assms(3) unfolding protocol_parse_run by (auto split: sum.splits)
  have "[a..<c] = [a..<b] @ [b..<c]" using assms(1,2) upt_add_eq_append [of a b "c - b"] by simp
  then have whole: "run (parse_step lb) ?x0 [a..<c] = run (parse_step lb) x [b..<c]"
    using x(1) by (simp add: run_append)
  define s t where "s = px_state x" and "t = px_len x"
  have snd_run: "run (parse_step lb) \<lparr>px_pro = pro1, px_state = pr_state pro1, px_len = pr_tmp_data_len pro1,
      px_mem = m1\<rparr> [b..<c] = map_sum (map_prod id (saved s t)) (saved s t) (run (parse_step lb) x [b..<c])"
    unfolding parse_end_OK(3) [OF x(2)] s_def t_def by (rule run_saved)
  note eqs = protocol_parse_run snd_run whole
  show "fst (protocol_parse lb m1 pro1 b c) = fst (protocol_parse lb m pro a c)"
    unfolding eqs by (cases "run (parse_step lb) x [b..<c]") (auto simp: parse_end_saved)
  show "forget (fst (snd (protocol_parse lb m1 pro1 b c))) = forget (fst (snd (protocol_parse lb m pro a c)))"
    unfolding eqs by (cases "run (parse_step lb) x [b..<c]") (auto simp: parse_end_saved forget_saved)
  show "snd (snd (protocol_parse lb m1 pro1 b c)) = snd (snd (protocol_parse lb m pro a c))"
    unfolding eqs by (cases "run (parse_step lb) x [b..<c]") (auto simp: parse_end_saved mem_saved)
  show "protocol_parse lb m1 pro1 b c = protocol_parse lb m pro a c"
    if ok: "fst (protocol_parse lb m pro a c) = PROTOCOL_OK"
  proof (cases "run (parse_step lb) x [b..<c]")
    case (Inl rx)
    then have "fst rx \<noteq> PROTOCOL_OK" using run_codes [of lb x "[b..<c]" "fst rx" "snd rx"] by auto
    with ok Inl show ?thesis unfolding eqs by (cases rx) simp
  next
    case (Inr y)
    with ok show ?thesis unfolding eqs by (simp add: parse_end_saved_OK)
  qed
qed

text \<open>Any proper prefix of a request is incomplete, and goes on.\<close>

lemma spec_parse_prefix:
  assumes "is_request (xs @ b # ys)"
  shows "spec_parse xs = PROTOCOL_OK"
proof -
  obtain v' where v': "run spec_step (V_start []) (xs @ b # ys) = Inr v'" using request_complete [OF assms] by blast
  then obtain v where v: "run spec_step (V_start []) xs = Inr v" by (auto simp: run_append split: sum.splits)
  then have "\<not> complete v" using v' spec_step_needless [of v b] by (auto simp: run_append)
  with v show ?thesis by (simp add: spec_parse_def)
qed

text \<open>Bytes behind the parsed ones play no part and stay as they are.\<close>

definition paste :: "addr \<Rightarrow> byte list \<Rightarrow> (addr \<Rightarrow> byte) \<Rightarrow> addr \<Rightarrow> byte" where
  "paste q bs m x = (if q \<le> x \<and> x < q + length bs then bs ! (x - q) else m x)"

lemma write_bytes_paste: "cm_mem (write_bytes w q bs) = paste q bs (cm_mem w)"
  by (simp add: write_bytes_def paste_def fun_eq_iff)

lemma holds_paste: "holds m s0 xs \<Longrightarrow> holds (paste (s0 + length xs) bs m) s0 (xs @ bs)"
proof -
  assume h: "holds m s0 xs"
  have "mem_bytes (paste (s0 + length xs) bs m) s0 (length xs) = mem_bytes m s0 (length xs)"
    by (rule mem_bytes_cong) (simp add: paste_def)
  moreover have "mem_bytes (paste (s0 + length xs) bs m) (s0 + length xs) (length bs) = bs"
    by (rule nth_equalityI) (auto simp: mem_bytes_def paste_def)
  ultimately show ?thesis using h by (simp add: holds_def mem_bytes_add)
qed

lemma paste_upd: "e < q \<Longrightarrow> paste q bs (m(e := x)) = (paste q bs m)(e := x)"
  by (auto simp: paste_def fun_eq_iff)

lemma view_ctx_paste:
  "view_ctx lb (paste (s0 + length (view_bytes v)) bs m) s0 v =
     (view_ctx lb m s0 v)\<lparr>px_mem := paste (s0 + length (view_bytes v)) bs (px_mem (view_ctx lb m s0 v))\<rparr>"
  by (cases v) (simp_all add: cut_mem_def paste_upd CRLF_def)

lemma parse_end_mem:
  "parse_end e (x\<lparr>px_mem := m\<rparr>) = (fst (parse_end e x), fst (snd (parse_end e x)), m)"
  by (simp add: parse_end_def Let_def)

lemma parse_end_px_mem: "snd (snd (parse_end e x)) = px_mem x"
  by (simp add: parse_end_def Let_def)

lemma parse_paste:
  assumes "holds m s0 xs" "s0 + length xs \<le> addr_top"
    and "protocol_parse lb m protocol_zero s0 (s0 + length xs) = (PROTOCOL_OK, pro, m1)"
  shows "protocol_parse lb (paste (s0 + length xs) bs m) protocol_zero s0 (s0 + length xs) =
    (PROTOCOL_OK, pro, paste (s0 + length xs) bs m1)"
proof -
  let ?m = "paste (s0 + length xs) bs m"
  have h: "holds ?m s0 xs" using holds_paste [OF assms(1), of bs] by simp
  have "spec_parse xs = PROTOCOL_OK" using fresh_code [OF assms(1,2), of lb] assms(3) by simp
  moreover have "r \<noteq> 0" if "run spec_step (V_start []) xs = Inl r" for r
    using spec_stop [OF that] spec_step_codes by fastforce
  ultimately obtain v where v: "run spec_step (V_start []) xs = Inr v"
    by (auto simp: spec_parse_def split: sum.splits)
  have e: "protocol_parse lb m protocol_zero s0 (s0 + length xs) = parse_end (s0 + length xs) (view_ctx lb m s0 v)"
    "protocol_parse lb ?m protocol_zero s0 (s0 + length xs) = parse_end (s0 + length xs) (view_ctx lb ?m s0 v)"
    and b: "view_bytes v = xs"
    using fresh_parse [OF assms(1,2), of lb] fresh_parse [OF h assms(2), of lb] v by simp_all
  have "view_ctx lb ?m s0 v = (view_ctx lb m s0 v)\<lparr>px_mem := paste (s0 + length xs) bs (px_mem (view_ctx lb m s0 v))\<rparr>"
    using view_ctx_paste [of lb s0 v bs m] b by simp
  moreover have "px_mem (view_ctx lb m s0 v) = m1" using assms(3) parse_end_px_mem [of "s0 + length xs" "view_ctx lb m s0 v"] e(1) by simp
  moreover have "parse_end (s0 + length xs) (view_ctx lb m s0 v) = (PROTOCOL_OK, pro, m1)" using e(1) assms(3) by simp
  ultimately show ?thesis using e(2) by (simp add: parse_end_mem)
qed

text \<open>One more piece of input: what the parser returns is what it returns for all input so far.\<close>

lemma parse_more:
  assumes "holds m s0 xs" "s0 + length (xs @ bs) \<le> addr_top"
    and "protocol_parse lb m protocol_zero s0 (s0 + length xs) = (PROTOCOL_OK, pro, m1)"
    and q: "q = s0 + length xs" and m': "m' = paste q bs m"
    and r: "protocol_parse lb (paste q bs m1) pro q (q + length bs) = (r, pro2, m2)"
  shows "r = spec_parse (xs @ bs)" "holds m' s0 (xs @ bs)"
    and "r = PROTOCOL_OK \<Longrightarrow> protocol_parse lb m' protocol_zero s0 (s0 + length (xs @ bs)) = (PROTOCOL_OK, pro2, m2)"
    and "pr_type pro2 = pr_type (fst (snd (protocol_parse lb m' protocol_zero s0 (s0 + length (xs @ bs)))))"
proof -
  have p: "protocol_parse lb m' protocol_zero s0 q = (PROTOCOL_OK, pro, paste q bs m1)"
    using parse_paste [OF assms(1) _ assms(3), of bs] assms(2) by (simp add: q m')
  show h: "holds m' s0 (xs @ bs)" using holds_paste [OF assms(1)] by (simp add: q m')
  have s: "s0 \<le> q" "q \<le> s0 + length (xs @ bs)" "q + length bs = s0 + length (xs @ bs)" by (simp_all add: q)
  note sp = parse_split [OF s(1,2) p, folded s(3), unfolded r]
  show "r = spec_parse (xs @ bs)" using sp(1) fresh_code [OF h assms(2), of lb] s(3) by simp
  show "protocol_parse lb m' protocol_zero s0 (s0 + length (xs @ bs)) = (PROTOCOL_OK, pro2, m2)" if "r = PROTOCOL_OK"
    using sp(1,4) that s(3) by simp
  have "pr_type (forget pro2) = pr_type (forget (fst (snd (protocol_parse lb m' protocol_zero s0 (s0 + length (xs @ bs))))))"
    using sp(2) s(3) by simp
  then show "pr_type pro2 = pr_type (fst (snd (protocol_parse lb m' protocol_zero s0 (s0 + length (xs @ bs)))))"
    by (simp add: save_in_def)
qed

section \<open>A complete PUT request\<close>

definition put_request :: "byte list \<Rightarrow> byte list \<Rightarrow> byte list \<Rightarrow> byte list" where
  "put_request pre hs da = pre @ ''PUT'' @ CRLF @ hs @ CRLF @ dec_digits (length da) @ CRLF @ da"

lemma put_len_digits: "n < 2147483648 \<Longrightarrow> put_len (dec_digits n) = n"
  by (simp add: put_len_def atoi_dec_digits to_size_t_def)

lemma put_request_ok:
  assumes "list_all is_blank pre" "list_all is_header_char hs"
  shows "ok_len pre ''PUT'' hs (dec_digits n)"
proof -
  have "list_all is_digit (dec_digits n)" using dec_digits_digits [of n] by (simp add: char_defs)
  moreover have "list_all is_upper ''PUT''" "type_of ''PUT'' = PUT_T" by (simp_all add: type_of_def char_defs less_eq_char_def)
  ultimately show ?thesis using assms by (simp add: ok_len_def ok_head_def ok_type_def)
qed

lemma put_request_view:
  assumes "list_all is_blank pre" "list_all is_header_char hs" "0 < length da" "length da < 2147483648"
  shows "run spec_step (V_start []) (put_request pre hs da) = Inr (V_data pre ''PUT'' hs (dec_digits (length da)) da)"
  using reach_data [OF put_request_ok [OF assms(1,2)]] assms(3,4)
  by (simp add: put_request_def put_len_digits)

lemma put_request_is: 
  assumes "list_all is_blank pre" "list_all is_header_char hs" "da \<noteq> []" "length da < 2147483648"
  shows "is_request (put_request pre hs da)"
  using complete_request [of "V_data pre ''PUT'' hs (dec_digits (length da)) da"] put_request_ok [OF assms(1,2)] assms(3,4)
  by (simp add: put_request_def put_len_digits)

lemma put_request_type:
  assumes "list_all is_blank pre" "list_all is_header_char hs" "da \<noteq> []" "length da < 2147483648"
    and "holds m s0 (put_request pre hs da)" "s0 + length (put_request pre hs da) \<le> addr_top"
  shows "pr_type (fst (snd (protocol_parse lb m protocol_zero s0 (s0 + length (put_request pre hs da))))) = PUT_T"
proof -
  have "run spec_step (V_start []) (put_request pre hs da) = Inr (V_data pre ''PUT'' hs (dec_digits (length da)) da)"
    using put_request_view assms by simp
  then show ?thesis using fresh_parse [OF assms(5,6), of lb]
    by (simp add: parse_end_def Let_def pro_defs type_of_def)
qed

section \<open>Properties\<close>

text \<open>
  C6: the parser with its pointers into the receive buffer refines the parser that only
  collects byte strings: on a fresh request, whatever the bytes are and wherever they lie in
  memory, \<open>protocol_parse\<close> returns exactly the code of \<open>spec_parse\<close>.
\<close>

theorem protocol_parse_refines:
  assumes "holds m s0 xs" "s0 + length xs \<le> addr_top"
  shows "fst (protocol_parse lb m protocol_zero s0 (s0 + length xs)) = spec_parse xs"
  by (rule fresh_code [OF assms])

text \<open>A memory with a request in it, and a request that arrived in two pieces.\<close>

definition demo_at :: "byte list \<Rightarrow> addr \<Rightarrow> byte" where
  "demo_at xs = cm_mem (write_bytes demo_cmem 4096 xs)"

lemma demo_at_holds [simp]: "holds (demo_at xs) 4096 xs"
  by (simp add: demo_at_def)

definition demo_get :: "byte list" where
  "demo_get = ''GET'' @ CRLF @ ''k=v1'' @ CRLF"

lemmas proto_eval = demo_get_def CRLF_def type_of_def char_defs less_eq_char_def is_header_char_def

lemma demo_get_length [simp]: "length demo_get = 11"
  by (simp add: demo_get_def CRLF_def)

lemma demo_get_spec: "spec_parse demo_get = PROTOCOL_DONE"
  by (simp add: spec_parse_def proto_eval)

theorem protocol_parse_refines_witness:
  "holds (demo_at demo_get) 4096 demo_get \<and> 4096 + length demo_get \<le> addr_top \<and>
   fst (protocol_parse 1 (demo_at demo_get) protocol_zero 4096 (4096 + length demo_get)) = PROTOCOL_DONE"
  using protocol_parse_refines [of "demo_at demo_get" 4096 demo_get 1] demo_get_spec
  by (simp add: addr_top_def)

text \<open>
  C8: the language the parser accepts.  A fresh parse reports \<open>PROTOCOL_DONE\<close> exactly on the
  complete requests (blanks, one of the four types, headers, and for \<open>PUT\<close> a length with that
  many bytes), and \<open>err_needless_data\<close> exactly when a complete request is followed by at least
  one more byte.
\<close>

theorem protocol_parse_language:
  assumes "holds m s0 xs" "s0 + length xs \<le> addr_top"
  shows "(fst (protocol_parse lb m protocol_zero s0 (s0 + length xs)) = PROTOCOL_DONE \<longleftrightarrow> is_request xs) \<and>
    (fst (protocol_parse lb m protocol_zero s0 (s0 + length xs)) = err_needless_data \<longleftrightarrow>
      (\<exists>us b vs. xs = us @ b # vs \<and> is_request us))"
  using fresh_code [OF assms] spec_parse_done spec_parse_needless by simp_all

theorem protocol_parse_language_witness:
  "holds (demo_at demo_get) 4096 demo_get \<and> 4096 + length demo_get \<le> addr_top \<and>
   fst (protocol_parse 1 (demo_at demo_get) protocol_zero 4096 (4096 + length demo_get)) = PROTOCOL_DONE"
  using protocol_parse_language [of "demo_at demo_get" 4096 demo_get 1] spec_parse_done [of demo_get] demo_get_spec
  by (simp add: addr_top_def)

text \<open>
  C9: a \<open>PUT\<close> request is parsed back into its parts.  For every header string, every nonempty
  data of less than 2^31 bytes and every place in memory, parsing the request whose length
  field is the printed length of the data is \<open>PROTOCOL_DONE\<close> with type \<open>PUT\<close>, that length,
  the buffer it came from, and pointers that delimit exactly the headers and the data, whose
  bytes the parser left as they were.
\<close>

theorem protocol_put_roundtrip:
  assumes "list_all is_blank pre" "list_all is_header_char hs" "hs \<noteq> []"
    and "da \<noteq> []" "length da < 2147483648"
    and "holds m s0 (put_request pre hs da)" "s0 + length (put_request pre hs da) \<le> addr_top"
  shows "\<exists>pro m'. protocol_parse lb m protocol_zero s0 (s0 + length (put_request pre hs da)) =
       (PROTOCOL_DONE, pro, m') \<and> pr_type pro = PUT_T \<and> pr_data_len pro = length da \<and>
     pr_data_start_buf pro = lb \<and>
     pr_headers_end pro = pr_headers_start pro + length hs \<and> holds m' (pr_headers_start pro) hs \<and>
     pr_data_end pro = pr_data_start pro + length da \<and> holds m' (pr_data_start pro) da"
proof -
  let ?v = "V_data pre ''PUT'' hs (dec_digits (length da)) da"
  have r: "run spec_step (V_start []) (put_request pre hs da) = Inr ?v"
    using put_request_view assms by simp
  have "protocol_parse lb m protocol_zero s0 (s0 + length (put_request pre hs da)) =
      parse_end (s0 + length (put_request pre hs da)) (view_ctx lb m s0 ?v)"
    using fresh_parse [OF assms(6,7), of lb] r by simp
  moreover have "put_len (dec_digits (length da)) = length da" using assms by (simp add: put_len_digits)
  moreover have "holds (cut_mem m s0 pre ''PUT'' hs (dec_digits (length da))) (s0 + length (pre @ ''PUT'' @ CRLF)) hs"
    using assms(6) unfolding cut_mem_def
    by (intro holds_upd_below) (auto simp: put_request_def add.assoc)
  moreover have "holds (cut_mem m s0 pre ''PUT'' hs (dec_digits (length da)))
      (s0 + length (pre @ ''PUT'' @ CRLF @ hs @ CRLF @ dec_digits (length da) @ CRLF)) da"
    using assms(6) unfolding cut_mem_def
    by (intro holds_upd_above) (auto simp: put_request_def add.assoc CRLF_def)
  ultimately show ?thesis
    using assms(3) by (simp add: parse_end_def Let_def pro_defs type_of_def put_request_def add.assoc)
qed

definition demo_put :: "byte list" where
  "demo_put = put_request ''  '' ''k=v1'' ''hello''"

lemma demo_put_pre: "list_all is_blank ''  ''" "list_all is_header_char ''k=v1''"
  by (simp_all add: proto_eval)

theorem protocol_put_roundtrip_witness:
  "list_all is_blank ''  '' \<and> list_all is_header_char ''k=v1'' \<and>
   holds (demo_at demo_put) 4096 demo_put \<and> 4096 + length demo_put \<le> addr_top \<and>
   (\<exists>pro m'. protocol_parse 1 (demo_at demo_put) protocol_zero 4096 (4096 + length demo_put) =
       (PROTOCOL_DONE, pro, m') \<and> pr_data_len pro = 5 \<and> holds m' (pr_data_start pro) ''hello'')"
proof -
  have l: "4096 + length demo_put \<le> addr_top"
    by (simp add: demo_put_def put_request_def addr_top_def CRLF_def dec_digits.simps)
  have h: "holds (demo_at demo_put) 4096 demo_put" by simp
  show ?thesis
    using protocol_put_roundtrip [OF demo_put_pre, of "''hello''" "demo_at demo_put" 4096 1] l h demo_put_pre
    unfolding demo_put_def by auto
qed

text \<open>
  C7: parsing is incremental.  When the bytes up to \<open>b\<close> left the request incomplete, calling
  the parser again for the bytes from \<open>b\<close> to \<open>c\<close> returns the same code, the same fields (but
  for the saved state, which is stale once parsing has ended) and the same memory as one call
  for all bytes from \<open>a\<close> to \<open>c\<close>; when more is still to come, also the saved state is the same.
  The pieces in which a request arrives in the buffer make no difference, from any state.
\<close>

theorem protocol_parse_incremental:
  assumes "a \<le> b" "b \<le> c" "protocol_parse lb m pro a b = (PROTOCOL_OK, pro1, m1)"
  shows "fst (protocol_parse lb m1 pro1 b c) = fst (protocol_parse lb m pro a c) \<and>
     forget (fst (snd (protocol_parse lb m1 pro1 b c))) = forget (fst (snd (protocol_parse lb m pro a c))) \<and>
     snd (snd (protocol_parse lb m1 pro1 b c)) = snd (snd (protocol_parse lb m pro a c)) \<and>
     (fst (protocol_parse lb m pro a c) = PROTOCOL_OK \<longrightarrow>
       protocol_parse lb m1 pro1 b c = protocol_parse lb m pro a c)"
  using parse_split [OF assms] by blast

theorem protocol_parse_incremental_witness:
  "\<exists>pro1 m1. protocol_parse 1 (demo_at demo_get) protocol_zero 4096 4101 = (PROTOCOL_OK, pro1, m1) \<and>
     fst (protocol_parse 1 m1 pro1 4101 4107) = PROTOCOL_DONE"
proof -
  have "holds (demo_at demo_get) 4096 (take 5 demo_get @ drop 5 demo_get)" by simp
  then have "holds (demo_at demo_get) 4096 (take 5 demo_get)" unfolding holds_append by blast
  then have "fst (protocol_parse 1 (demo_at demo_get) protocol_zero 4096 4101) = PROTOCOL_OK"
    using fresh_code [of "demo_at demo_get" 4096 "take 5 demo_get" 1]
    by (simp add: spec_parse_def proto_eval addr_top_def)
  then obtain pro1 m1 where ok: "protocol_parse 1 (demo_at demo_get) protocol_zero 4096 4101 = (PROTOCOL_OK, pro1, m1)"
    by (metis prod.collapse)
  moreover have "fst (protocol_parse 1 (demo_at demo_get) protocol_zero 4096 4107) = PROTOCOL_DONE"
    using fresh_code [of "demo_at demo_get" 4096 demo_get 1] demo_get_spec
    by (simp add: addr_top_def)
  ultimately show ?thesis using protocol_parse_incremental [OF _ _ ok, of 4107] by simp
qed

text \<open>
  C31: the codes of the parser.  From any state of the protocol structure and for any bytes the
  parser returns one of OK, ERROR, DONE or an error code that has its text in
  \<open>protocol_err_info\<close>, so that the lookup of the text by the caller stays inside the table.
\<close>

theorem protocol_parse_codes:
  "fst (protocol_parse lb m pro a b) \<in> {PROTOCOL_OK, PROTOCOL_ERROR, PROTOCOL_DONE} \<or>
   (0 < fst (protocol_parse lb m pro a b) \<and>
    nat (fst (protocol_parse lb m pro a b)) < length protocol_err_info)"
proof (cases "run (parse_step lb)
    \<lparr>px_pro = pro, px_state = pr_state pro, px_len = pr_tmp_data_len pro, px_mem = m\<rparr> [a..<b]")
  case (Inl rx)
  then have "fst rx \<in> {-1, 1, 2, 3, 4, 5, 6}" using run_codes [of lb _ "[a..<b]" "fst rx" "snd rx"] by auto
  then show ?thesis using Inl by (cases rx) (auto simp: protocol_parse_run protocol_err_info_def)
next
  case (Inr x)
  then show ?thesis by (auto simp: protocol_parse_run parse_end_def Let_def)
qed

end
