(* ===== verification/NetTypes.thy ===== *)
theory NetTypes
  imports XFile Protocol
begin

text \<open>
  The data of the network layer (\<open>net_event.h\<close>, \<open>net_epoll.h\<close>, \<open>tcp_server.h\<close>).
  Connections and receive buffers are reached through pointers that several lists share
  (a connection's \<open>next\<close> links it into the free list or into the list of active connections),
  so they live in explicit stores indexed by address.  A request is only ever reached through
  the one connection that points to it and is kept there; the server, the event driver and the
  pool of the network module are single objects of the state.
\<close>

unbundle bit_operations_syntax

section \<open>Events\<close>

definition EV_NONE_EVENT :: u32 where "EV_NONE_EVENT = 0"
definition EV_READ_EVENT :: u32 where "EV_READ_EVENT = 1"
definition EV_WRITE_EVENT :: u32 where "EV_WRITE_EVENT = 2"

definition EPOLLIN :: u32 where "EPOLLIN = 1"
definition EPOLLOUT :: u32 where "EPOLLOUT = 4"
definition EPOLLERR :: u32 where "EPOLLERR = 8"
definition EPOLLHUP :: u32 where "EPOLLHUP = 16"

abbreviation (input) EPOLL_CTL_ADD :: nat where "EPOLL_CTL_ADD \<equiv> 1"
abbreviation (input) EPOLL_CTL_DEL :: nat where "EPOLL_CTL_DEL \<equiv> 2"
abbreviation (input) EPOLL_CTL_MOD :: nat where "EPOLL_CTL_MOD \<equiv> 3"

named_theorems event_defs \<open>the event masks\<close>

declare EV_NONE_EVENT_def [event_defs] EV_READ_EVENT_def [event_defs] EV_WRITE_EVENT_def [event_defs]
  EPOLLIN_def [event_defs] EPOLLOUT_def [event_defs] EPOLLERR_def [event_defs] EPOLLHUP_def [event_defs]

text \<open>The functions that an event handler pointer can hold.\<close>

datatype handler = H_accept | H_recv | H_send

section \<open>Requests and connections\<close>

record buffer_t =
  bf_buffer :: addr
  bf_end :: addr
  bf_last :: addr
  bf_next :: addr

record tcp_request_t =
  rq_buffers :: addr
  rq_last_buffer :: addr
  rq_response :: addr
  rq_last_rep_buf :: addr
  rq_protocol :: protocol_t
  rq_done :: int
  rq_finish :: int
  rq_error :: int
  rq_pool :: mem_pool_t
  rq_logger :: "logger_t option"

record tcp_connection_t =
  cn_next :: addr
  cn_fd :: int
  cn_events :: u32
  cn_active_events :: u32
  cn_dead_events :: u32
  cn_add_events :: u32
  cn_close :: int
  cn_is_listen :: int
  cn_read_handler :: "handler option"
  cn_write_handler :: "handler option"
  cn_request :: "tcp_request_t option"
  cn_client_addr :: string_t
  cn_client_port :: int
  cn_pool :: "mem_pool_t option"
  cn_logger :: "logger_t option"

text \<open>What \<open>memset(conn, 0, sizeof(tcp_connection_t))\<close> leaves.\<close>

definition connection_zero :: tcp_connection_t where
  "connection_zero = \<lparr>cn_next = NULL, cn_fd = 0, cn_events = 0, cn_active_events = 0, cn_dead_events = 0,
     cn_add_events = 0, cn_close = 0, cn_is_listen = 0, cn_read_handler = None, cn_write_handler = None,
     cn_request = None, cn_client_addr = string_null, cn_client_port = 0, cn_pool = None, cn_logger = None\<rparr>"

section \<open>Server, event driver and the state\<close>

record epoll_ctx_t =
  ep_fd :: int
  ep_events :: addr

record net_event_driver_t =
  ed_io_ctx :: epoll_ctx_t
  ed_size :: int
  ed_active_conns :: addr
  ed_logger :: "logger_t option"

record tcp_server_t =
  sv_port :: nat
  sv_connections :: nat
  sv_sock_fd :: int
  sv_connection_pool :: addr
  sv_sin_port :: nat
  sv_nodelay :: int
  sv_request_buf_size :: nat
  sv_logger :: "logger_t option"

definition sizeof_buffer_t :: nat where "sizeof_buffer_t = 32"
definition sizeof_tcp_request_t :: nat where "sizeof_tcp_request_t = 88"
definition sizeof_tcp_connection_t :: nat where "sizeof_tcp_connection_t = 120"
definition sizeof_epoll_ctx_t :: nat where "sizeof_epoll_ctx_t = 16"
definition sizeof_epoll_event :: nat where "sizeof_epoll_event = 12"
definition sizeof_net_event_driver_t :: nat where "sizeof_net_event_driver_t = 48"
definition sizeof_tcp_server_t :: nat where "sizeof_tcp_server_t = 72"

declare sizeof_buffer_t_def [sizeof_defs] sizeof_tcp_request_t_def [sizeof_defs]
  sizeof_tcp_connection_t_def [sizeof_defs] sizeof_epoll_ctx_t_def [sizeof_defs]
  sizeof_epoll_event_def [sizeof_defs] sizeof_net_event_driver_t_def [sizeof_defs]
  sizeof_tcp_server_t_def [sizeof_defs]

text \<open>
  The kernel's side of epoll: \<open>nt_interest\<close> lists the registered descriptors with their masks
  and the pointer stored with them, and \<open>os_events\<close> is what the n-th call of \<open>epoll_wait\<close>
  reports.  \<open>os_peer\<close> is the address text and the port of the client of the n-th call of
  \<open>accept\<close>.
\<close>

record net = world +
  os_events :: "nat \<Rightarrow> (u32 \<times> addr) list"
  os_peer :: "nat \<Rightarrow> byte list \<times> nat"
  nt_interest :: "(int \<times> u32 \<times> addr) list"
  nt_conns :: "addr \<Rightarrow> tcp_connection_t"
  nt_bufs :: "addr \<Rightarrow> buffer_t"
  nt_server :: tcp_server_t
  nt_driver :: net_event_driver_t
  nt_pool :: mem_pool_t

definition upd_conn :: "addr \<Rightarrow> (tcp_connection_t \<Rightarrow> tcp_connection_t) \<Rightarrow> net \<Rightarrow> net" where
  "upd_conn c f s = s\<lparr>nt_conns := (nt_conns s)(c := f (nt_conns s c))\<rparr>"

definition upd_buf :: "addr \<Rightarrow> (buffer_t \<Rightarrow> buffer_t) \<Rightarrow> net \<Rightarrow> net" where
  "upd_buf b f s = s\<lparr>nt_bufs := (nt_bufs s)(b := f (nt_bufs s b))\<rparr>"

text \<open>\<open>pmalloc\<close> from the pool of the network module.\<close>

definition mod_pmalloc :: "net \<Rightarrow> nat \<Rightarrow> addr \<times> net" where
  "mod_pmalloc s n = (case pmalloc s (nt_pool s) n of (p, s1, pool1) \<Rightarrow> (p, s1\<lparr>nt_pool := pool1\<rparr>))"

section \<open>The epoll system calls\<close>

definition interest_fds :: "net \<Rightarrow> int set" where
  "interest_fds s = fst ` set (nt_interest s)"

text \<open>\<open>epoll_create\<close> refuses a size that is not positive.\<close>

definition os_epoll_create :: "net \<Rightarrow> int \<Rightarrow> int \<times> net" where
  "os_epoll_create s size1 =
     (let r = (if size1 \<le> 0 then -1 else max (-1) (os_answer s (os_calls s)))
      in (r, os_done s (Sys_epoll_create size1) r))"

text \<open>\<open>EPOLL_CTL_ADD\<close> needs a descriptor that is not registered, the other two one that is.\<close>

definition os_epoll_ctl :: "net \<Rightarrow> int \<Rightarrow> nat \<Rightarrow> int \<Rightarrow> u32 \<Rightarrow> addr \<Rightarrow> int \<times> net" where
  "os_epoll_ctl s efd op fd events ptr =
     (let bad = (os_answer s (os_calls s) < 0 \<or> (op = EPOLL_CTL_ADD \<longleftrightarrow> fd \<in> interest_fds s));
          rest = filter (\<lambda>e. fst e \<noteq> fd) (nt_interest s)
      in if bad then (-1, os_done s (Sys_epoll_ctl efd op fd events ptr) (-1))
         else (0, (os_done s (Sys_epoll_ctl efd op fd events ptr) 0)
                 \<lparr>nt_interest := (if op = EPOLL_CTL_DEL then rest else (fd, events, ptr) # rest)\<rparr>))"

text \<open>
  \<open>epoll_wait\<close> reports registered pointers only, each once, and only events of their mask
  besides errors and hang-ups; at most \<open>n\<close> of them.
\<close>

definition event_allowed :: "(int \<times> u32 \<times> addr) list \<Rightarrow> u32 \<times> addr \<Rightarrow> bool" where
  "event_allowed interest e \<longleftrightarrow>
     list_ex (\<lambda>(fd, mask, ptr). ptr = snd e \<and> fst e AND NOT (mask OR EPOLLERR OR EPOLLHUP) = 0) interest"

fun distinct_events :: "(u32 \<times> addr) list \<Rightarrow> (u32 \<times> addr) list" where
  "distinct_events [] = []"
| "distinct_events (e # es) = e # filter (\<lambda>e'. snd e' \<noteq> snd e) (distinct_events es)"

definition os_epoll_wait :: "net \<Rightarrow> int \<Rightarrow> int \<Rightarrow> (u32 \<times> addr) list \<times> net" where
  "os_epoll_wait s efd n =
     (let es = take (nat n) (distinct_events (filter (event_allowed (nt_interest s)) (os_events s (os_calls s))));
          evs = (if os_answer s (os_calls s) < 0 then [] else es)
      in (evs, os_done s (Sys_epoll_wait efd n) (if os_answer s (os_calls s) < 0 then -1 else int (length es))))"

text \<open>\<open>close\<close> removes the descriptor from the interest list.\<close>

definition os_close :: "net \<Rightarrow> int \<Rightarrow> int \<times> net" where
  "os_close s fd =
     (let r = max (-1) (min 0 (os_answer s (os_calls s)))
      in (r, (os_done s (Sys_close fd) r)\<lparr>nt_interest := filter (\<lambda>e. fst e \<noteq> fd) (nt_interest s)\<rparr>))"

text \<open>\<open>accept\<close> returns a descriptor that is not in use, or -1.\<close>

definition os_accept :: "net \<Rightarrow> int \<Rightarrow> int \<times> net" where
  "os_accept s fd =
     (let a = max (-1) (os_answer s (os_calls s));
          r = (if a = fd \<or> a \<in> interest_fds s then -1 else a)
      in (r, os_done s (Sys_accept fd) r))"

text \<open>\<open>write\<close> on a stream socket takes at least one byte of a nonempty buffer, or fails.\<close>

definition os_send :: "net \<Rightarrow> int \<Rightarrow> byte list \<Rightarrow> int \<times> net" where
  "os_send s fd bs =
     (let a = max (-1) (min (os_answer s (os_calls s)) (int (length bs)));
          r = (if a = 0 \<and> bs \<noteq> [] then 1 else a)
      in (r, os_done s (Sys_write fd bs) r))"

section \<open>Facts\<close>

lemma upd_conn_sel [frame_simps]:
  "nt_conns (upd_conn c f s) = (nt_conns s)(c := f (nt_conns s c))"
  "cm_mem (upd_conn c f s) = cm_mem s" "cm_live (upd_conn c f s) = cm_live s"
  "cm_pick (upd_conn c f s) = cm_pick s" "cm_calls (upd_conn c f s) = cm_calls s" "cm_log (upd_conn c f s) = cm_log s"
  "os_answer (upd_conn c f s) = os_answer s" "os_fail (upd_conn c f s) = os_fail s"
  "os_input (upd_conn c f s) = os_input s" "os_calls (upd_conn c f s) = os_calls s"
  "os_errno (upd_conn c f s) = os_errno s" "os_trace (upd_conn c f s) = os_trace s"
  "os_events (upd_conn c f s) = os_events s" "os_peer (upd_conn c f s) = os_peer s"
  "nt_interest (upd_conn c f s) = nt_interest s" "nt_bufs (upd_conn c f s) = nt_bufs s"
  "nt_server (upd_conn c f s) = nt_server s" "nt_driver (upd_conn c f s) = nt_driver s"
  "nt_pool (upd_conn c f s) = nt_pool s"
  by (simp_all add: upd_conn_def)

lemma upd_buf_sel [frame_simps]:
  "nt_bufs (upd_buf b f s) = (nt_bufs s)(b := f (nt_bufs s b))"
  "cm_mem (upd_buf b f s) = cm_mem s" "cm_live (upd_buf b f s) = cm_live s"
  "cm_pick (upd_buf b f s) = cm_pick s" "cm_calls (upd_buf b f s) = cm_calls s" "cm_log (upd_buf b f s) = cm_log s"
  "os_answer (upd_buf b f s) = os_answer s" "os_fail (upd_buf b f s) = os_fail s"
  "os_input (upd_buf b f s) = os_input s" "os_calls (upd_buf b f s) = os_calls s"
  "os_errno (upd_buf b f s) = os_errno s" "os_trace (upd_buf b f s) = os_trace s"
  "os_events (upd_buf b f s) = os_events s" "os_peer (upd_buf b f s) = os_peer s"
  "nt_interest (upd_buf b f s) = nt_interest s" "nt_conns (upd_buf b f s) = nt_conns s"
  "nt_server (upd_buf b f s) = nt_server s" "nt_driver (upd_buf b f s) = nt_driver s"
  "nt_pool (upd_buf b f s) = nt_pool s"
  by (simp_all add: upd_buf_def)

lemma os_done_net_sel [frame_simps]:
  fixes s :: net
  shows "os_events (os_done s x r) = os_events s" "os_peer (os_done s x r) = os_peer s"
  "nt_interest (os_done s x r) = nt_interest s" "nt_conns (os_done s x r) = nt_conns s"
  "nt_bufs (os_done s x r) = nt_bufs s" "nt_server (os_done s x r) = nt_server s"
  "nt_driver (os_done s x r) = nt_driver s" "nt_pool (os_done s x r) = nt_pool s"
  by (simp_all add: os_done_def)

text \<open>What a successful and a failed \<open>epoll_ctl\<close> leave.\<close>

lemma os_epoll_ctl_cases:
  assumes "os_epoll_ctl s efd op fd ev p = (r, s')"
  obtains (fail) "r = -1" "s' = os_done s (Sys_epoll_ctl efd op fd ev p) (-1)"
  | (ok) "r = 0" "op = EPOLL_CTL_ADD \<longleftrightarrow> fd \<notin> interest_fds s"
      "s' = (os_done s (Sys_epoll_ctl efd op fd ev p) 0)
         \<lparr>nt_interest := (if op = EPOLL_CTL_DEL then filter (\<lambda>e. fst e \<noteq> fd) (nt_interest s)
                         else (fd, ev, p) # filter (\<lambda>e. fst e \<noteq> fd) (nt_interest s))\<rparr>"
  using assms by (auto simp: os_epoll_ctl_def Let_def split: if_splits)

end
