(* ===== verification/NetEvent.thy ===== *)
theory NetEvent
  imports NetTypes
begin

text \<open>
  \<open>net_epoll.c\<close> and the registration half of \<open>net_event.c\<close>.  The table \<open>event_actions\<close> holds
  the epoll functions and nothing else, so a call through it is a call of the epoll function.
  \<open>process_events\<close>, which calls the handlers of the server, is in the theory of the event
  loop.  The debugging messages of a build with \<open>DEBUG\<close> are left out.
\<close>

abbreviation (input) EVENT_OK :: int where "EVENT_OK \<equiv> 0"
abbreviation (input) EVENT_ERROR :: int where "EVENT_ERROR \<equiv> -1"

section \<open>The epoll layer\<close>

definition epoll_build :: "net \<Rightarrow> int \<times> net" where
  "epoll_build s =
     (let lg = ed_logger (nt_driver s);
          (ctx, s1) = mod_pmalloc s sizeof_epoll_ctx_t
      in if ctx = NULL then (EVENT_ERROR, log_error s1 lg (os_errno s1) ''pmalloc memory failed.'')
         else
           let s2 = log_info s1 lg 0 ''epoll size: %d'';
               (e_fd, s3) = os_epoll_create s2 (ed_size (nt_driver s2))
           in if e_fd = -1 then (EVENT_ERROR, log_error s3 lg (os_errno s3) ''create epoll fd failed.'')
              else
                let (ev, s4) = mod_pmalloc s3 (sizeof_epoll_event * to_size_t (ed_size (nt_driver s3)) mod size_mod)
                in if ev = NULL then (EVENT_ERROR, log_error s4 lg (os_errno s4) ''pmalloc memory failed.'')
                   else (EVENT_OK, s4\<lparr>nt_driver := (nt_driver s4)\<lparr>ed_io_ctx := \<lparr>ep_fd = e_fd, ep_events = ev\<rparr>\<rparr>\<rparr>))"

definition epoll_destroy :: "net \<Rightarrow> int \<times> net" where
  "epoll_destroy s =
     (let (r, s1) = os_close s (ep_fd (ed_io_ctx (nt_driver s)))
      in if r = -1 then (EVENT_ERROR, log_error s1 (ed_logger (nt_driver s1)) (os_errno s1) ''close epoll's fd failed.'')
         else (EVENT_OK, s1))"

text \<open>The mask of the kernel for the events of a connection.\<close>

definition epoll_mask :: "u32 \<Rightarrow> u32" where
  "epoll_mask events =
     (let e1 = (if events AND EV_READ_EVENT \<noteq> 0 then 0 OR EPOLLIN else 0)
      in if events AND EV_WRITE_EVENT \<noteq> 0 then e1 OR EPOLLOUT else e1)"

definition epoll_add_event :: "net \<Rightarrow> addr \<Rightarrow> u32 \<Rightarrow> int \<times> net" where
  "epoll_add_event s conn events =
     (let c = nt_conns s conn;
          op = (if cn_events c = EV_NONE_EVENT then EPOLL_CTL_ADD else EPOLL_CTL_MOD);
          events1 = events OR cn_events c;
          (r, s1) = os_epoll_ctl s (ep_fd (ed_io_ctx (nt_driver s))) op (cn_fd c) (epoll_mask events1) conn
      in if r = -1 then (EVENT_ERROR, s1)
         else (EVENT_OK, upd_conn conn (\<lambda>c. c\<lparr>cn_events := events1\<rparr>) s1))"

definition epoll_del_event :: "net \<Rightarrow> addr \<Rightarrow> u32 \<Rightarrow> int \<times> net" where
  "epoll_del_event s conn events =
     (let c = nt_conns s conn;
          events1 = cn_events c AND NOT events;
          op = (if events1 \<noteq> 0 then EPOLL_CTL_MOD else EPOLL_CTL_DEL);
          (r, s1) = os_epoll_ctl s (ep_fd (ed_io_ctx (nt_driver s))) op (cn_fd c) (epoll_mask events1) conn
      in (EVENT_OK, upd_conn conn (\<lambda>c. c\<lparr>cn_events := events1\<rparr>) s1))"

text \<open>One reported event: it becomes the new head of the list of active connections.\<close>

definition active_mask :: "u32 \<Rightarrow> u32" where
  "active_mask ev =
     (let a1 = (if ev AND EPOLLIN \<noteq> 0 then EV_NONE_EVENT OR EV_READ_EVENT else EV_NONE_EVENT)
      in if ev AND EPOLLOUT \<noteq> 0 then a1 OR EV_WRITE_EVENT else a1)"

definition poll_event :: "net \<Rightarrow> u32 \<times> addr \<Rightarrow> net" where
  "poll_event s e =
     (let conn = snd e;
          s1 = upd_conn conn (\<lambda>c. c\<lparr>cn_active_events := active_mask (fst e),
                 cn_next := ed_active_conns (nt_driver s)\<rparr>) s
      in s1\<lparr>nt_driver := (nt_driver s1)\<lparr>ed_active_conns := conn\<rparr>\<rparr>)"

text \<open>
  The kernel writes the reported events into the array of the context.  The array comes from the
  pool of the module and can reach beyond its chunk.
\<close>

definition epoll_polling :: "net \<Rightarrow> ub + (int \<times> net)" where
  "epoll_polling s =
     (let ctx = ed_io_ctx (nt_driver s);
          (evs, s1) = os_epoll_wait s (ep_fd ctx) (ed_size (nt_driver s))
      in if evs \<noteq> [] \<and> \<not> writable s (ep_events ctx) (sizeof_epoll_event * length evs)
         then Inl (Out_of_bounds (ep_events ctx))
         else Inr (EVENT_OK, foldl poll_event s1 evs))"

section \<open>The event driver\<close>

definition net_event_init :: "net \<Rightarrow> int \<times> net" where
  "net_event_init s =
     (let s1 = s\<lparr>nt_driver := (nt_driver s)\<lparr>ed_active_conns := NULL\<rparr>\<rparr>;
          (r, s2) = epoll_build s1
      in if r = EVENT_ERROR then (EVENT_ERROR, s2) else (EVENT_OK, s2))"

definition add_event :: "net \<Rightarrow> addr \<Rightarrow> u32 \<Rightarrow> handler \<Rightarrow> int \<times> net" where
  "add_event s conn events h =
     (let (r, s1) = epoll_add_event s conn events
      in if r = EVENT_ERROR then (EVENT_ERROR, s1)
         else
           let s2 = (if events AND EV_READ_EVENT \<noteq> 0 then upd_conn conn (\<lambda>c. c\<lparr>cn_read_handler := Some h\<rparr>) s1 else s1);
               s3 = (if events AND EV_WRITE_EVENT \<noteq> 0 then upd_conn conn (\<lambda>c. c\<lparr>cn_write_handler := Some h\<rparr>) s2 else s2)
           in (EVENT_OK, s3))"

definition del_event :: "net \<Rightarrow> addr \<Rightarrow> u32 \<Rightarrow> int \<times> net" where
  "del_event s conn events =
     (if cn_events (nt_conns s conn) = EV_NONE_EVENT then (EVENT_OK, s)
      else let (r, s1) = epoll_del_event s conn events
           in if r = EVENT_ERROR then (EVENT_ERROR, s1) else (EVENT_OK, s1))"

section \<open>The kernel's view and the program's view\<close>

text \<open>
  The two views of a connection agree: the kernel has its descriptor registered with exactly the
  mask of the events that the connection records, or not at all when it records none.
\<close>

definition agrees :: "net \<Rightarrow> addr \<Rightarrow> bool" where
  "agrees s c \<longleftrightarrow> (let k = nt_conns s c in
     if cn_events k = 0 then cn_fd k \<notin> interest_fds s else (cn_fd k, epoll_mask (cn_events k), c) \<in> set (nt_interest s))"

text \<open>The mask \<open>m\<close> of the kernel has at least the events \<open>ev\<close>.\<close>

definition reports :: "u32 \<Rightarrow> u32 \<Rightarrow> bool" where
  "reports m ev \<longleftrightarrow> (ev AND EV_READ_EVENT \<noteq> 0 \<longrightarrow> m AND EPOLLIN \<noteq> 0) \<and> (ev AND EV_WRITE_EVENT \<noteq> 0 \<longrightarrow> m AND EPOLLOUT \<noteq> 0)"

lemma reports_mask: "reports (epoll_mask ev) ev"
  by (simp add: reports_def epoll_mask_def event_defs)

lemma reports_less: "reports m ev \<Longrightarrow> reports m (ev AND NOT e)"
proof -
  have "(ev AND NOT e) AND b \<noteq> 0 \<Longrightarrow> ev AND b \<noteq> 0" for b
    by (auto simp: bit_eq_iff bit_and_iff)
  then show "reports m ev \<Longrightarrow> reports m (ev AND NOT e)" unfolding reports_def by blast
qed

text \<open>
  What holds whatever the kernel answers, for connections \<open>U\<close> with descriptors of their own: a
  descriptor is registered at most once, and a connection that waits for events is registered
  for them.
\<close>

definition reg_inv :: "addr set \<Rightarrow> net \<Rightarrow> bool" where
  "reg_inv U s \<longleftrightarrow> distinct (map fst (nt_interest s)) \<and> inj_on (\<lambda>c. cn_fd (nt_conns s c)) U \<and>
     (\<forall>c \<in> U. cn_events (nt_conns s c) \<noteq> 0 \<longrightarrow>
        (\<exists>m. (cn_fd (nt_conns s c), m, c) \<in> set (nt_interest s) \<and> reports m (cn_events (nt_conns s c))))"

lemma reg_invD:
  assumes "reg_inv U s" "c \<in> U" "cn_events (nt_conns s c) \<noteq> 0"
  shows "\<exists>m. (cn_fd (nt_conns s c), m, c) \<in> set (nt_interest s) \<and> reports m (cn_events (nt_conns s c))"
    "cn_fd (nt_conns s c) \<in> interest_fds s"
  using assms by (force simp: reg_inv_def interest_fds_def)+

text \<open>A change of the one connection \<open>c\<close> that keeps its descriptor.\<close>

definition touches :: "addr \<Rightarrow> net \<Rightarrow> net \<Rightarrow> bool" where
  "touches c s s' \<longleftrightarrow> cn_fd (nt_conns s' c) = cn_fd (nt_conns s c) \<and> (\<forall>c'. c' \<noteq> c \<longrightarrow> nt_conns s' c' = nt_conns s c') \<and>
     filter (\<lambda>e. fst e \<noteq> cn_fd (nt_conns s c)) (nt_interest s') = filter (\<lambda>e. fst e \<noteq> cn_fd (nt_conns s c)) (nt_interest s)"

lemma touches_fd: "touches c s s' \<Longrightarrow> cn_fd (nt_conns s' c') = cn_fd (nt_conns s c')"
  by (cases "c' = c") (simp_all add: touches_def)

lemma touches_entry:
  "touches c s s' \<Longrightarrow> fd \<noteq> cn_fd (nt_conns s c) \<Longrightarrow> (fd, x) \<in> set (nt_interest s') \<longleftrightarrow> (fd, x) \<in> set (nt_interest s)"
proof -
  assume "touches c s s'" and fd: "fd \<noteq> cn_fd (nt_conns s c)"
  then have "set (filter (\<lambda>e. fst e \<noteq> cn_fd (nt_conns s c)) (nt_interest s')) = set (filter (\<lambda>e. fst e \<noteq> cn_fd (nt_conns s c)) (nt_interest s))"
    by (simp add: touches_def)
  then show "(fd, x) \<in> set (nt_interest s') \<longleftrightarrow> (fd, x) \<in> set (nt_interest s)" using fd by (cases x) (auto simp: set_eq_iff)
qed

lemma touches_other:
  assumes "touches c s s'" "reg_inv U s" "c \<in> U" "c' \<in> U" "c' \<noteq> c"
  shows "nt_conns s' c' = nt_conns s c'" "agrees s' c' = agrees s c'"
    "(cn_fd (nt_conns s c'), m, c') \<in> set (nt_interest s') \<longleftrightarrow> (cn_fd (nt_conns s c'), m, c') \<in> set (nt_interest s)"
proof -
  have fd: "cn_fd (nt_conns s c') \<noteq> cn_fd (nt_conns s c)" using assms(2-5) by (auto simp: reg_inv_def inj_on_def)
  show k: "nt_conns s' c' = nt_conns s c'" using assms(1,5) by (simp add: touches_def)
  note e = touches_entry [OF assms(1) fd]
  show "(cn_fd (nt_conns s c'), m, c') \<in> set (nt_interest s') \<longleftrightarrow> (cn_fd (nt_conns s c'), m, c') \<in> set (nt_interest s)" by (rule e)
  have "cn_fd (nt_conns s c') \<in> interest_fds s' \<longleftrightarrow> cn_fd (nt_conns s c') \<in> interest_fds s"
    using e by (force simp: interest_fds_def)
  then show "agrees s' c' = agrees s c'" by (simp add: agrees_def Let_def k e)
qed

lemma reg_inv_touches:
  assumes "touches c s s'" "reg_inv U s" "c \<in> U" "distinct (map fst (nt_interest s'))"
    and "cn_events (nt_conns s' c) \<noteq> 0 \<longrightarrow>
      (\<exists>m. (cn_fd (nt_conns s c), m, c) \<in> set (nt_interest s') \<and> reports m (cn_events (nt_conns s' c)))"
  shows "reg_inv U s'"
proof -
  have "\<exists>m. (cn_fd (nt_conns s' c'), m, c') \<in> set (nt_interest s') \<and> reports m (cn_events (nt_conns s' c'))"
    if "c' \<in> U" "cn_events (nt_conns s' c') \<noteq> 0" for c'
    using that assms(5) touches_fd [OF assms(1)] touches_other [OF assms(1-3) that(1)] reg_invD(1) [OF assms(2) that(1)]
    by (cases "c' = c") auto
  then show ?thesis using assms(2,4) touches_fd [OF assms(1)] by (simp add: reg_inv_def)
qed

text \<open>The outcomes of the two operations.\<close>

lemma add_event_cases:
  assumes "add_event s c e h = (r, s')"
  obtains (fail) "r = EVENT_ERROR" "nt_conns s' = nt_conns s" "nt_interest s' = nt_interest s"
  | (ok) "r = EVENT_OK" "cn_events (nt_conns s' c) = e OR cn_events (nt_conns s c)" "touches c s s'"
      "nt_interest s' = (cn_fd (nt_conns s c), epoll_mask (e OR cn_events (nt_conns s c)), c) #
         filter (\<lambda>x. fst x \<noteq> cn_fd (nt_conns s c)) (nt_interest s)"
proof -
  let ?k = "nt_conns s c" let ?ev = "e OR cn_events (nt_conns s c)"
  let ?op = "if cn_events ?k = EV_NONE_EVENT then EPOLL_CTL_ADD else EPOLL_CTL_MOD"
  obtain r1 s1 where ctl: "os_epoll_ctl s (ep_fd (ed_io_ctx (nt_driver s))) ?op (cn_fd ?k) (epoll_mask ?ev) c = (r1, s1)"
    by fastforce
  have a: "epoll_add_event s c e = (if r1 = -1 then (EVENT_ERROR, s1) else (EVENT_OK, upd_conn c (\<lambda>c. c\<lparr>cn_events := ?ev\<rparr>) s1))"
    unfolding epoll_add_event_def Let_def ctl by simp
  from ctl show ?thesis
  proof (cases rule: os_epoll_ctl_cases)
    case fail
    then show ?thesis using that(1) assms a by (auto simp: add_event_def frame_simps)
  next
    case ok
    then show ?thesis using assms a
      by (intro that(2)) (auto simp: add_event_def Let_def frame_simps touches_def split: if_splits)
  qed
qed

lemma del_event_cases:
  assumes "del_event s c e = (r, s')" "reg_inv U s" "c \<in> U"
  defines "k \<equiv> nt_conns s c" and "rest \<equiv> filter (\<lambda>x. fst x \<noteq> cn_fd (nt_conns s c)) (nt_interest s)"
  obtains (none) "cn_events k = 0" "s' = s"
  | (ok) "cn_events k \<noteq> 0" "cn_events (nt_conns s' c) = cn_events k AND NOT e" "touches c s s'" "snd (last (os_trace s')) = 0"
      "nt_interest s' = (if cn_events k AND NOT e = 0 then rest else (cn_fd k, epoll_mask (cn_events k AND NOT e), c) # rest)"
  | (refused) "cn_events k \<noteq> 0" "cn_events (nt_conns s' c) = cn_events k AND NOT e" "touches c s s'" "snd (last (os_trace s')) = -1"
      "os_calls s' \<noteq> os_calls s" "nt_interest s' = nt_interest s"
proof (cases "cn_events k = 0")
  case True
  then have "s' = s" using assms(1) by (simp add: del_event_def EV_NONE_EVENT_def k_def)
  with True show ?thesis by (rule that(1))
next
  case False
  let ?ev = "cn_events k AND NOT e"
  define op where "op = (if ?ev \<noteq> 0 then EPOLL_CTL_MOD else EPOLL_CTL_DEL)"
  obtain r1 s1 where ctl: "os_epoll_ctl s (ep_fd (ed_io_ctx (nt_driver s))) op (cn_fd k) (epoll_mask ?ev) c = (r1, s1)" by fastforce
  have s': "s' = upd_conn c (\<lambda>c. c\<lparr>cn_events := ?ev\<rparr>) s1"
    using assms(1) False ctl by (simp add: del_event_def epoll_del_event_def EV_NONE_EVENT_def Let_def k_def op_def split: prod.splits)
  from ctl show ?thesis
  proof (cases rule: os_epoll_ctl_cases)
    case fail
    then show ?thesis using False s'
      by (intro that(3)) (simp_all add: frame_simps os_done_def touches_def k_def)
  next
    case ok
    have "op = EPOLL_CTL_DEL \<longleftrightarrow> ?ev = 0" by (simp add: op_def)
    then show ?thesis using False s' ok
      by (intro that(2)) (simp_all add: frame_simps os_done_def touches_def k_def rest_def)
  qed
qed

section \<open>Histories of registrations\<close>

text \<open>
  An operation of a history can be done, can fail and be reported as failed, or can be refused by
  the kernel without the program looking at it.
\<close>

datatype reg_op = Reg_add u32 | Reg_del u32

datatype reg_result = Done | Failed | Ignored

primrec reg_events :: "u32 \<Rightarrow> reg_op \<Rightarrow> u32" where
  "reg_events ev (Reg_add e) = e OR ev"
| "reg_events ev (Reg_del e) = ev AND NOT e"

text \<open>A run of a history, with the log of what became of each of its operations.\<close>

fun run_history :: "('s \<Rightarrow> 'c \<Rightarrow> reg_op \<Rightarrow> reg_result \<times> 's) \<Rightarrow> 's \<Rightarrow> ('c \<times> reg_op) list \<Rightarrow>
    ('c \<times> reg_op \<times> reg_result) list \<times> 's" where
  "run_history ap s [] = ([], s)"
| "run_history ap s ((c, x) # h) =
     (case ap s c x of (r, s1) \<Rightarrow> (case run_history ap s1 h of (log, s2) \<Rightarrow> ((c, x, r) # log, s2)))"

text \<open>The operations on one connection that have not failed.\<close>

definition took :: "'c \<Rightarrow> ('c \<times> reg_op \<times> reg_result) list \<Rightarrow> reg_op list" where
  "took c log = map (fst \<circ> snd) (filter (\<lambda>(c', x, r). c' = c \<and> r \<noteq> Failed) log)"

text \<open>
  The contract of an event backend (the table \<open>event_actions\<close>).  It keeps an invariant, a failed
  operation changes nothing, an operation leaves the other connections alone, and the two views
  of a connection go on agreeing unless an operation has been ignored.  Proved once here: the
  same for whole histories.
\<close>

locale event_backend =
  fixes apply_op :: "'s \<Rightarrow> 'c \<Rightarrow> reg_op \<Rightarrow> reg_result \<times> 's"
    and events :: "'s \<Rightarrow> 'c \<Rightarrow> u32"
    and agree :: "'s \<Rightarrow> 'c \<Rightarrow> bool"
    and inv :: "'s \<Rightarrow> bool"
    and member :: "'c \<Rightarrow> bool"
    and legal :: "reg_op \<Rightarrow> bool"
  assumes op_inv: "inv s \<Longrightarrow> member c \<Longrightarrow> legal x \<Longrightarrow> apply_op s c x = (r, s') \<Longrightarrow> inv s'"
    and op_events: "inv s \<Longrightarrow> member c \<Longrightarrow> legal x \<Longrightarrow> apply_op s c x = (r, s') \<Longrightarrow>
      events s' c = (if r = Failed then events s c else reg_events (events s c) x)"
    and op_agree: "inv s \<Longrightarrow> member c \<Longrightarrow> legal x \<Longrightarrow> apply_op s c x = (r, s') \<Longrightarrow> agree s c \<Longrightarrow> r \<noteq> Ignored \<Longrightarrow> agree s' c"
    and op_others: "inv s \<Longrightarrow> member c \<Longrightarrow> legal x \<Longrightarrow> apply_op s c x = (r, s') \<Longrightarrow> member c' \<Longrightarrow> c' \<noteq> c \<Longrightarrow>
      events s' c' = events s c' \<and> agree s' c' = agree s c'"
begin

lemma history:
  "inv s \<Longrightarrow> list_all (\<lambda>(c, x). member c \<and> legal x) h \<Longrightarrow> run_history apply_op s h = (log, s') \<Longrightarrow> member c \<Longrightarrow>
   inv s' \<and> events s' c = foldl reg_events (events s c) (took c log) \<and>
   (agree s c \<longrightarrow> (\<forall>x. (c, x, Ignored) \<notin> set log) \<longrightarrow> agree s' c)"
proof (induction h arbitrary: s log)
  case (Cons e h)
  obtain c' x where e: "e = (c', x)" by (cases e)
  obtain r s1 log1 where a: "apply_op s c' x = (r, s1)" "run_history apply_op s1 h = (log1, s')" "log = (c', x, r) # log1"
    using Cons.prems(3) by (auto simp: e split: prod.splits)
  have l: "member c'" "legal x" "list_all (\<lambda>(c, x). member c \<and> legal x) h" using Cons.prems(2) by (auto simp: e)
  note o = Cons.prems(1) l(1,2) a(1)
  note IH = Cons.IH [OF op_inv [OF o] l(3) a(2) Cons.prems(4)]
  show ?case
    using IH op_events [OF o] op_agree [OF o] op_others [OF o Cons.prems(4)] a(3)
    by (cases "c' = c") (auto simp: took_def)
qed (simp add: took_def)

end

text \<open>
  The event driver over epoll.  A deletion is ignored when it has made a call that the kernel
  refused: \<open>epoll_del_event\<close> does not look at the result.
\<close>

primrec reg_apply :: "handler \<Rightarrow> net \<Rightarrow> addr \<Rightarrow> reg_op \<Rightarrow> reg_result \<times> net" where
  "reg_apply h s c (Reg_add e) = (case add_event s c e h of (r, s1) \<Rightarrow> (if r = EVENT_ERROR then Failed else Done, s1))"
| "reg_apply h s c (Reg_del e) = (case del_event s c e of (r, s1) \<Rightarrow>
     (if os_calls s1 \<noteq> os_calls s \<and> snd (last (os_trace s1)) = -1 then Ignored else Done, s1))"

definition reg_legal :: "reg_op \<Rightarrow> bool" where
  "reg_legal x \<longleftrightarrow> x \<noteq> Reg_add 0"

lemma or_nonzero: "ev \<noteq> 0 \<Longrightarrow> ev OR (x :: u32) \<noteq> 0"
  by (auto simp: bit_eq_iff bit_or_iff)

lemma distinct_entry: "distinct (map fst xs) \<Longrightarrow> distinct (map fst (filter P xs))"
  by (simp add: distinct_map_filter)

text \<open>One operation.\<close>

lemma reg_step_add:
  assumes i: "reg_inv U s" "c \<in> U" and e: "e \<noteq> 0" and a: "add_event s c e h = (q, s')"
  shows "reg_inv U s' \<and> touches c s s' \<and>
    cn_events (nt_conns s' c) = (if q = EVENT_ERROR then cn_events (nt_conns s c) else e OR cn_events (nt_conns s c)) \<and>
    (agrees s c \<longrightarrow> agrees s' c)"
  using a
proof (cases rule: add_event_cases)
  case fail
  then show ?thesis using i by (simp add: reg_inv_def touches_def agrees_def interest_fds_def)
next
  case ok
  have "distinct (map fst (nt_interest s'))" using i(1) by (auto simp: ok(4) reg_inv_def distinct_entry)
  moreover have "agrees s' c" using ok or_nonzero [OF e] touches_fd [OF ok(3)] by (simp add: agrees_def Let_def)
  ultimately show ?thesis
    using ok reg_inv_touches [OF ok(3) i] reports_mask by auto
qed

lemma reg_step_del:
  assumes i: "reg_inv U s" "c \<in> U" and a: "del_event s c e = (q, s')"
  shows "reg_inv U s' \<and> touches c s s' \<and> cn_events (nt_conns s' c) = cn_events (nt_conns s c) AND NOT e \<and>
    (agrees s c \<longrightarrow> os_calls s' = os_calls s \<or> snd (last (os_trace s')) \<noteq> -1 \<longrightarrow> agrees s' c)"
  using a i
proof (cases rule: del_event_cases)
  case none
  then show ?thesis using i by (simp add: touches_def)
next
  case ok
  have d: "distinct (map fst (nt_interest s'))" using i(1) by (auto simp: ok(5) reg_inv_def distinct_entry)
  have "agrees s' c" using ok touches_fd [OF ok(3)] by (auto simp: agrees_def Let_def interest_fds_def)
  then show ?thesis
    using ok d reg_inv_touches [OF ok(3) i] reports_mask by (auto split: if_splits)
next
  case refused
  have "reg_inv U s'"
    using reg_inv_touches [OF refused(3) i] refused i(1) reg_invD(1) [OF i refused(1)] reports_less
    by (auto simp: reg_inv_def [of U s])
  then show ?thesis using refused by simp
qed

interpretation reg: event_backend "reg_apply h" "\<lambda>s c. cn_events (nt_conns s c)" agrees "reg_inv U" "\<lambda>c. c \<in> U" reg_legal for h U
proof -
  have step: "reg_inv U s' \<and> touches c s s' \<and>
      cn_events (nt_conns s' c) = (if r = Failed then cn_events (nt_conns s c) else reg_events (cn_events (nt_conns s c)) x) \<and>
      (agrees s c \<longrightarrow> r \<noteq> Ignored \<longrightarrow> agrees s' c)"
    if R: "reg_inv U s" "c \<in> U" "reg_legal x" "reg_apply h s c x = (r, s')" for s c x r s'
  proof (cases x)
    case (Reg_add e)
    obtain q where q: "add_event s c e h = (q, s')" "r = (if q = EVENT_ERROR then Failed else Done)"
      using R(4) by (auto simp: Reg_add split: prod.splits)
    have "e \<noteq> 0" using R(3) by (simp add: Reg_add reg_legal_def)
    from reg_step_add [OF R(1,2) this q(1)] show ?thesis by (simp add: Reg_add q(2))
  next
    case (Reg_del e)
    obtain q where q: "del_event s c e = (q, s')"
      "r = (if os_calls s' \<noteq> os_calls s \<and> snd (last (os_trace s')) = -1 then Ignored else Done)"
      using R(4) by (auto simp: Reg_del split: prod.splits)
    from reg_step_del [OF R(1,2) q(1)] show ?thesis by (auto simp: Reg_del q(2))
  qed
  show "event_backend (reg_apply h) (\<lambda>s c. cn_events (nt_conns s c)) agrees (reg_inv U) (\<lambda>c. c \<in> U) reg_legal"
  proof (unfold_locales, goal_cases)
    case (4 s c x r s' c')
    then show ?case using step [OF 4(1-4)] touches_other(1,2) [of c s s' U c'] by auto
  qed (use step in blast)+
qed

section \<open>Properties\<close>

text \<open>
  C12: the event driver and the kernel.  Start with connections on descriptors of their own for
  which the program and the kernel agree, and take any history of \<open>add_event\<close> and \<open>del_event\<close>
  calls on them, with any answers of the kernel.  Then each connection records the events that
  its operations add up to, failed additions left out, and the kernel has its descriptor
  registered for all events it records.  The two agree exactly unless a deletion on that
  connection was refused by the kernel, which \<open>epoll_del_event\<close> ignores.  If that leaves a
  connection that records no event but is still registered, it can never be added again.
\<close>

theorem event_registration_agrees:
  assumes "distinct (map fst (nt_interest s))" "inj_on (\<lambda>c. cn_fd (nt_conns s c)) U" "\<forall>c \<in> U. agrees s c"
    and "list_all (\<lambda>(c, x). c \<in> U \<and> x \<noteq> Reg_add 0) hist" "run_history (reg_apply h) s hist = (log, s')" "c \<in> U"
  shows "(let k = nt_conns s' c; ev = foldl reg_events (cn_events (nt_conns s c)) (took c log)
      in cn_events k = ev \<and> distinct (map fst (nt_interest s')) \<and>
        (ev \<noteq> 0 \<longrightarrow> (\<exists>m. (cn_fd k, m, c) \<in> set (nt_interest s') \<and> reports m ev)) \<and>
        ((\<forall>x. (c, x, Ignored) \<notin> set log) \<longrightarrow>
           (if ev = 0 then cn_fd k \<notin> fst ` set (nt_interest s') else (cn_fd k, epoll_mask ev, c) \<in> set (nt_interest s'))) \<and>
        (ev = 0 \<longrightarrow> cn_fd k \<in> fst ` set (nt_interest s') \<longrightarrow> (\<forall>e h. fst (add_event s' c e h) = EVENT_ERROR)))"
proof -
  have i: "reg_inv U s" using assms(1-3) reports_mask by (fastforce simp: reg_inv_def agrees_def Let_def)
  have H: "reg_inv U s'" "cn_events (nt_conns s' c) = foldl reg_events (cn_events (nt_conns s c)) (took c log)"
    "(\<forall>x. (c, x, Ignored) \<notin> set log) \<Longrightarrow> agrees s' c"
    using reg.history [OF i _ assms(5,6)] assms(3,4,6) by (auto simp: reg_legal_def)
  have "fst (add_event s' c e h) = EVENT_ERROR" if "cn_events (nt_conns s' c) = 0" "cn_fd (nt_conns s' c) \<in> fst ` set (nt_interest s')" for e h
    using that by (simp add: add_event_def epoll_add_event_def os_epoll_ctl_def interest_fds_def Let_def EV_NONE_EVENT_def)
  moreover have "distinct (map fst (nt_interest s'))" using H(1) by (simp add: reg_inv_def)
  ultimately show ?thesis
    using H(3) [unfolded agrees_def Let_def interest_fds_def] reg_invD(1) [OF H(1) assms(6)]
    unfolding Let_def H(2) [symmetric] by blast
qed

text \<open>A network state with one connection, at address 4096 on descriptor 7, not yet registered.\<close>

definition demo_net :: "(nat \<Rightarrow> int) \<Rightarrow> (nat \<Rightarrow> byte list) \<Rightarrow> net" where
  "demo_net answer input = world.extend ((demo_world answer input)\<lparr>cm_live := cm_live demo_w, cm_calls := cm_calls demo_w\<rparr>)
     \<lparr>os_events = (\<lambda>_. []), os_peer = (\<lambda>_. (''127.0.0.1'', 40000)), nt_interest = [],
      nt_conns = (\<lambda>_. connection_zero\<lparr>cn_fd := 7\<rparr>),
      nt_bufs = (\<lambda>_. \<lparr>bf_buffer = NULL, bf_end = NULL, bf_last = NULL, bf_next = NULL\<rparr>),
      nt_server = \<lparr>sv_port = 8080, sv_connections = 2, sv_sock_fd = 5, sv_connection_pool = NULL, sv_sin_port = 8080,
        sv_nodelay = 0, sv_request_buf_size = 0, sv_logger = None\<rparr>,
      nt_driver = \<lparr>ed_io_ctx = \<lparr>ep_fd = 6, ep_events = 16778000\<rparr>, ed_size = 1, ed_active_conns = NULL, ed_logger = None\<rparr>,
      nt_pool = demo_pool\<rparr>"

lemma demo_net_sel [simp]:
  "nt_interest (demo_net a i) = []" "nt_conns (demo_net a i) c = connection_zero\<lparr>cn_fd := 7\<rparr>"
  "os_answer (demo_net a i) = a" "os_calls (demo_net a i) = 0" "os_input (demo_net a i) = i"
  by (simp_all add: demo_net_def demo_world_def world.defs cmem.defs)

definition demo_hist :: "(addr \<times> reg_op) list" where
  "demo_hist = [(4096, Reg_add EV_READ_EVENT), (4096, Reg_add EV_WRITE_EVENT), (4096, Reg_del EV_WRITE_EVENT),
     (4096, Reg_del EV_READ_EVENT)]"

text \<open>The kernel accepts everything, or refuses only the last call, the deletion of the descriptor.\<close>

theorem event_registration_agrees_witness:
  "(\<exists>log s'. run_history (reg_apply H_send) (demo_net (\<lambda>_. 0) (\<lambda>_. [])) demo_hist = (log, s') \<and>
     cn_events (nt_conns s' 4096) = 0 \<and> 7 \<notin> fst ` set (nt_interest s')) \<and>
   (\<exists>log s'. run_history (reg_apply H_send) (demo_net (\<lambda>n. if n = 3 then -1 else 0) (\<lambda>_. [])) demo_hist = (log, s') \<and>
     cn_events (nt_conns s' 4096) = 0 \<and> fst (add_event s' 4096 EV_READ_EVENT H_recv) = EVENT_ERROR)"
proof -
  have pre: "distinct (map fst (nt_interest (demo_net a (\<lambda>_. []))))" "inj_on (\<lambda>c. cn_fd (nt_conns (demo_net a (\<lambda>_. [])) c)) {4096}"
    "\<forall>c \<in> {4096}. agrees (demo_net a (\<lambda>_. [])) c" "list_all (\<lambda>(c, x). c \<in> {4096} \<and> x \<noteq> Reg_add 0) demo_hist"
    "cn_events (nt_conns (demo_net a (\<lambda>_. [])) 4096) = 0" for a
    by (simp_all add: agrees_def interest_fds_def connection_zero_def demo_hist_def event_defs)
  note eval = demo_hist_def event_defs interest_fds_def connection_zero_def add_event_def epoll_add_event_def del_event_def
    epoll_del_event_def epoll_mask_def os_epoll_ctl_def Let_def frame_simps os_done_def
  obtain log s' where r: "run_history (reg_apply H_send) (demo_net (\<lambda>_. 0) (\<lambda>_. [])) demo_hist = (log, s')" by fastforce
  have "cn_fd (nt_conns s' 4096) = 7" "\<forall>x. (4096, x, Ignored) \<notin> set log" "took 4096 log = map snd demo_hist"
    using r by (auto simp: eval took_def)
  then have 1: "cn_events (nt_conns s' 4096) = 0 \<and> 7 \<notin> fst ` set (nt_interest s')"
    using event_registration_agrees [OF pre(1-4) r, of 4096] pre(5) by (simp add: Let_def demo_hist_def event_defs)
  obtain log2 t where q: "run_history (reg_apply H_send) (demo_net (\<lambda>n. if n = 3 then -1 else 0) (\<lambda>_. [])) demo_hist = (log2, t)" by fastforce
  have "cn_fd (nt_conns t 4096) = 7" "7 \<in> fst ` set (nt_interest t)" "took 4096 log2 = map snd demo_hist"
    using q by (auto simp: eval took_def)
  then have "cn_events (nt_conns t 4096) = 0 \<and> fst (add_event t 4096 EV_READ_EVENT H_recv) = EVENT_ERROR"
    using event_registration_agrees [OF pre(1-4) q, of 4096] pre(5) by (simp add: Let_def demo_hist_def event_defs)
  with 1 r q show ?thesis by blast
qed

end
