(* ===== verification/ObjectPool.thy ===== *)
theory ObjectPool
  imports Main
begin

text \<open>
  The contract of a pool of objects: \<open>get\<close> takes the first free object or none, \<open>put\<close> gives an
  object back, and an object in use may be changed at will.  Proved once: through any sequence
  of these operations every object is either in use or free, never both, and none is lost.
\<close>

datatype ('i, 'o, 'f) pool_op = Get 'i | Put 'o | Use 'o 'f

fun pool_run :: "('s \<Rightarrow> 'i \<Rightarrow> 'o option \<times> 's) \<Rightarrow> ('s \<Rightarrow> 'o \<Rightarrow> 's option) \<Rightarrow> ('s \<Rightarrow> 'o \<Rightarrow> 'f \<Rightarrow> 's) \<Rightarrow>
    's \<Rightarrow> 'o list \<Rightarrow> ('i, 'o, 'f) pool_op list \<Rightarrow> ('s \<times> 'o list) option" where
  "pool_run get put use s used [] = Some (s, used)"
| "pool_run get put use s used (Get i # ops) =
     (case get s i of (None, s1) \<Rightarrow> pool_run get put use s1 used ops
      | (Some x, s1) \<Rightarrow> pool_run get put use s1 (x # used) ops)"
| "pool_run get put use s used (Put x # ops) =
     (if x \<in> set used
      then (case put s x of None \<Rightarrow> None | Some s1 \<Rightarrow> pool_run get put use s1 (remove1 x used) ops)
      else None)"
| "pool_run get put use s used (Use x f # ops) =
     (if x \<in> set used then pool_run get put use (use s x f) used ops else None)"

lemma pool_run_gets: "\<exists>s' used'. pool_run get put use s used (map Get is) = Some (s', used')"
  by (induction "is" arbitrary: s used) (auto split: prod.split option.split)

locale object_pool =
  fixes get :: "'s \<Rightarrow> 'i \<Rightarrow> 'o option \<times> 's"
    and put :: "'s \<Rightarrow> 'o \<Rightarrow> 's option"
    and use :: "'s \<Rightarrow> 'o \<Rightarrow> 'f \<Rightarrow> 's"
    and frees :: "'s \<Rightarrow> 'o list \<Rightarrow> bool"
    and valid :: "'o \<Rightarrow> bool"
  assumes get_none: "frees s xs \<Longrightarrow> get s i = (None, s') \<Longrightarrow> frees s' xs"
    and get_some: "frees s xs \<Longrightarrow> get s i = (Some x, s') \<Longrightarrow> \<exists>ys. xs = x # ys \<and> frees s' ys"
    and put_frees: "frees s xs \<Longrightarrow> valid x \<Longrightarrow> x \<notin> set xs \<Longrightarrow> put s x = Some s' \<Longrightarrow> frees s' (x # xs)"
    and use_frees: "frees s xs \<Longrightarrow> x \<notin> set xs \<Longrightarrow> frees (use s x f) xs"
begin

lemma conserved:
  assumes "frees s xs" "distinct (used @ xs)" "\<forall>x \<in> set (used @ xs). valid x"
    and "pool_run get put use s used ops = Some (s', used')"
  shows "\<exists>xs'. frees s' xs' \<and> distinct (used' @ xs') \<and> set (used' @ xs') = set (used @ xs)"
  using assms
proof (induction ops arbitrary: s used xs)
  case (Cons op ops)
  show ?case
  proof (cases op)
    case (Get i)
    obtain x s1 where g: "get s i = (x, s1)" by fastforce
    show ?thesis
    proof (cases x)
      case None
      then show ?thesis using Cons.IH [OF get_none [OF Cons.prems(1)]] Cons.prems(2-4) g Get by simp
    next
      case (Some y)
      with get_some [OF Cons.prems(1), of i y s1] g obtain ys where ys: "xs = y # ys" "frees s1 ys" by blast
      with Cons.IH [OF ys(2), of "y # used"] Cons.prems(2-4) g Get Some show ?thesis by auto
    qed
  next
    case (Put x)
    with Cons.prems(4) obtain s1 where p: "x \<in> set used" "put s x = Some s1"
      "pool_run get put use s1 (remove1 x used) ops = Some (s', used')" by (auto split: if_splits option.splits)
    have "frees s1 (x # xs)" using put_frees [OF Cons.prems(1) _ _ p(2)] Cons.prems(2,3) p(1) by auto
    moreover have "distinct (remove1 x used @ x # xs)" "set (remove1 x used @ x # xs) = set (used @ xs)"
      using Cons.prems(2) p(1) by auto
    ultimately show ?thesis using Cons.IH [of s1 "x # xs" "remove1 x used"] p(3) Cons.prems(3) by auto
  next
    case (Use x f)
    with Cons.prems(4) have u: "x \<in> set used" "pool_run get put use (use s x f) used ops = Some (s', used')"
      by (auto split: if_splits)
    then have "frees (use s x f) xs" using use_frees [OF Cons.prems(1)] Cons.prems(2) by auto
    then show ?thesis using Cons.IH Cons.prems(2,3) u(2) by blast
  qed
qed auto

end

end
