(* ===== verification/TcpServer.thy ===== *)
theory TcpServer
  imports NetEvent ObjectPool
begin

text \<open>
  \<open>tcp_server.c\<close>: the listening socket, the pool of connections, and the life of a request
  from its first byte to the response.  A handler returns its code and the new state, or the
  abnormal end of the run (\<open>Inl\<close>).  The pointer \<open>server\<close> of a connection is the one server of
  the state.
\<close>

abbreviation (input) TCP_SRV_OK :: int where "TCP_SRV_OK \<equiv> 0"
abbreviation (input) TCP_SRV_ERROR :: int where "TCP_SRV_ERROR \<equiv> -1"
abbreviation (input) BUFFER_MIN_SIZE :: nat where "BUFFER_MIN_SIZE \<equiv> 1024"
abbreviation (input) BUFFER_MAX_SIZE :: nat where "BUFFER_MAX_SIZE \<equiv> 12328960"
abbreviation (input) REQUEST_POOL_SIZE :: nat where "REQUEST_POOL_SIZE \<equiv> 1048576"
abbreviation (input) CONNECTION_POOL_SIZE :: nat where "CONNECTION_POOL_SIZE \<equiv> 2048"

section \<open>The listening socket\<close>

definition tcp_server_create_socket :: "net \<Rightarrow> int \<times> net" where
  "tcp_server_create_socket s =
     (let lg = sv_logger (nt_server s);
          (s_fd, s1) = os_call s Sys_socket
      in if s_fd = -1 then (TCP_SRV_ERROR, log_error s1 lg (os_errno s1) ''create socket failed.'')
         else
           let (r, s2) = os_call s1 (Sys_setsockopt s_fd)
           in if r = -1 then
                let s3 = log_error s2 lg (os_errno s2) ''set SO_REUSEADDR option to socket failed.'';
                    (_, s4) = os_close s3 s_fd
                in (TCP_SRV_ERROR, s4)
              else (s_fd, s2\<lparr>nt_server := (nt_server s2)\<lparr>sv_sock_fd := s_fd\<rparr>\<rparr>))"

text \<open>\<open>htons\<close> takes the low 16 bits of the port.\<close>

definition tcp_server_listen :: "net \<Rightarrow> int \<Rightarrow> int \<times> net" where
  "tcp_server_listen s s_fd =
     (let port = sv_port (nt_server s);
          lg = sv_logger (nt_server s);
          sin_port = port mod 65536;
          s0 = s\<lparr>nt_server := (nt_server s)\<lparr>sv_sin_port := sin_port\<rparr>\<rparr>;
          (r, s1) = os_call s0 (Sys_bind s_fd sin_port)
      in if r = -1 then (TCP_SRV_ERROR, log_error s1 lg (os_errno s1) ''bind socket failed.'')
         else
           let (r2, s2) = os_call s1 (Sys_listen s_fd 511)
           in if r2 = -1 then (TCP_SRV_ERROR, log_error s2 lg (os_errno s2) ''listen port failed.'')
              else (TCP_SRV_OK, s2))"

section \<open>The pool of connections\<close>

text \<open>The loop over the array, from its last element to its first.\<close>

fun link_conns :: "addr \<Rightarrow> nat \<Rightarrow> addr \<Rightarrow> (addr \<Rightarrow> tcp_connection_t) \<Rightarrow> addr \<Rightarrow> tcp_connection_t" where
  "link_conns base 0 nxt conns = conns"
| "link_conns base (Suc i) nxt conns =
     (let conn = base + i * sizeof_tcp_connection_t
      in link_conns base i conn (conns(conn := (conns conn)\<lparr>cn_next := nxt\<rparr>)))"

text \<open>
  \<open>server->connections - 1\<close> is unsigned and becomes the \<open>int\<close> loop index.  The array comes from
  the pool of the module and can reach beyond its chunk; the loop writes every element.
\<close>

definition connection_pool_init :: "net \<Rightarrow> ub + (int \<times> net)" where
  "connection_pool_init s =
     (let n = sv_connections (nt_server s);
          (conn_pool, s1) = mod_pmalloc s (sizeof_tcp_connection_t * n mod size_mod)
      in if conn_pool = NULL
         then Inr (TCP_SRV_ERROR, log_error s1 (sv_logger (nt_server s1)) 0 ''pmalloc memory failed.'')
         else
           let k = nat (long_to_int (int n - 1) + 1);
               s2 = s1\<lparr>nt_conns := link_conns conn_pool k NULL (nt_conns s1)\<rparr>
           in if 0 < k \<and> \<not> writable s1 conn_pool (sizeof_tcp_connection_t * k) then Inl (Out_of_bounds conn_pool)
              else Inr (TCP_SRV_OK, s2\<lparr>nt_server := (nt_server s2)\<lparr>sv_connection_pool := conn_pool\<rparr>\<rparr>))"

definition tcp_server_init :: "net \<Rightarrow> ub + (int \<times> net)" where
  "tcp_server_init s =
     (let (s_fd, s1) = tcp_server_create_socket s
      in if s_fd = TCP_SRV_ERROR then Inr (TCP_SRV_ERROR, s1)
         else
           let (r, s2) = tcp_server_listen s1 s_fd
           in if r = TCP_SRV_ERROR then Inr (TCP_SRV_ERROR, snd (os_close s2 s_fd))
              else
                sbind (connection_pool_init s2) (\<lambda>(r2, s3).
                if r2 = TCP_SRV_ERROR then
                  let s4 = log_error s3 (sv_logger (nt_server s3)) 0 ''init connecton pool failed.''
                  in Inr (TCP_SRV_ERROR, snd (os_close s4 s_fd))
                else Inr (TCP_SRV_OK, s3)))"

definition tcp_get_connection :: "net \<Rightarrow> int \<Rightarrow> addr \<times> net" where
  "tcp_get_connection s fd =
     (let conn_pool = sv_connection_pool (nt_server s);
          lg = sv_logger (nt_server s)
      in if conn_pool = NULL then (NULL, s)
         else (case mem_pool_create s ''connection_pool'' CONNECTION_POOL_SIZE lg of
             (None, s1) \<Rightarrow> (NULL, log_error s1 lg 0 ''create connection's memory pool failed.'')
           | (Some pool, s1) \<Rightarrow>
               let conn = conn_pool;
                   s2 = s1\<lparr>nt_server := (nt_server s1)\<lparr>sv_connection_pool := cn_next (nt_conns s1 conn)\<rparr>\<rparr>
               in (conn, upd_conn conn (\<lambda>_. connection_zero\<lparr>cn_fd := fd, cn_client_port := -1, cn_logger := lg,
                          cn_pool := Some pool\<rparr>) s2)))"

text \<open>A destroyed request stays in the connection as a dangling pointer.\<close>

definition tcp_free_connection :: "net \<Rightarrow> addr \<Rightarrow> ub + net" where
  "tcp_free_connection s c =
     (let conn = nt_conns s c
      in sbind (case cn_request conn of None \<Rightarrow> Inr s | Some r \<Rightarrow> mem_pool_destroy s (rq_pool r)) (\<lambda>s1.
         let s2 = upd_conn c (\<lambda>k. k\<lparr>cn_next := sv_connection_pool (nt_server s1), cn_fd := -1, cn_logger := None\<rparr>) s1;
             s3 = s2\<lparr>nt_server := (nt_server s2)\<lparr>sv_connection_pool := c\<rparr>\<rparr>
         in case cn_pool conn of
              None \<Rightarrow> Inl Null_deref
            | Some pool \<Rightarrow> sbind (mem_pool_destroy s3 pool) (\<lambda>s4. Inr (upd_conn c (\<lambda>k. k\<lparr>cn_pool := None\<rparr>) s4))))"

section \<open>Requests\<close>

text \<open>A buffer header and its bytes in one block of the request's pool.\<close>

definition new_buffer :: "addr \<Rightarrow> nat \<Rightarrow> buffer_t" where
  "new_buffer p n = \<lparr>bf_buffer = p + sizeof_buffer_t, bf_end = p + sizeof_buffer_t + n,
     bf_last = p + sizeof_buffer_t, bf_next = NULL\<rparr>"

definition clamp_buf_size :: "nat \<Rightarrow> nat" where
  "clamp_buf_size n = (if n < BUFFER_MIN_SIZE then BUFFER_MIN_SIZE
     else if n > BUFFER_MAX_SIZE then BUFFER_MAX_SIZE else n)"

text \<open>The failure returns leave the request's pool allocated.\<close>

definition tcp_request_init :: "net \<Rightarrow> addr \<Rightarrow> tcp_request_t option \<times> net" where
  "tcp_request_init s conn =
     (let lg = cn_logger (nt_conns s conn);
          n = clamp_buf_size (sv_request_buf_size (nt_server s))
      in case mem_pool_create s ''request'' REQUEST_POOL_SIZE lg of
           (None, s1) \<Rightarrow> (None, log_error s1 lg 0 ''Create request memory pool failed.'')
         | (Some pool, s1) \<Rightarrow>
             let (r, s2, pool2) = pmalloc s1 pool sizeof_tcp_request_t
             in if r = NULL then (None, s2)
                else
                  let (b, s3, pool3) = pmalloc s2 pool2 (n + sizeof_buffer_t)
                  in if b = NULL then (None, s3)
                     else
                       let s4 = upd_buf b (\<lambda>_. new_buffer b n) s3;
                           (b1, s5, pool5) = pmalloc s4 pool3 (n + sizeof_buffer_t)
                       in if b1 = NULL then (None, s5)
                          else
                            let s6 = upd_buf b1 (\<lambda>_. new_buffer b1 n) s5
                            in (case protocol_init s6 pool5 of
                                  (None, s7, pool7) \<Rightarrow> (None, s7)
                                | (Some pro, s7, pool7) \<Rightarrow>
                                    let rq = \<lparr>rq_buffers = b, rq_last_buffer = b, rq_response = b1, rq_last_rep_buf = b1,
                                          rq_protocol = pro, rq_done = 0, rq_finish = 0, rq_error = 0,
                                          rq_pool = pool7, rq_logger = lg\<rparr>
                                    in (Some rq, upd_conn conn (\<lambda>k. k\<lparr>cn_request := Some rq\<rparr>) s7)))"

text \<open>Change the request of a connection.\<close>

definition upd_req :: "addr \<Rightarrow> (tcp_request_t \<Rightarrow> tcp_request_t) \<Rightarrow> net \<Rightarrow> net" where
  "upd_req conn f s = upd_conn conn (\<lambda>k. k\<lparr>cn_request := map_option f (cn_request k)\<rparr>) s"

text \<open>\<open>sprintf\<close> of a text at the end of a buffer; nothing keeps it inside the buffer.\<close>

definition put_text :: "net \<Rightarrow> addr \<Rightarrow> byte list \<Rightarrow> ub + net" where
  "put_text s b text =
     (let last = bf_last (nt_bufs s b)
      in if last + length text < bf_end (nt_bufs s b)
         then Inr (upd_buf b (\<lambda>k. k\<lparr>bf_last := last + length text\<rparr>) (write_bytes s last (text @ [NUL])))
         else Inl (Out_of_bounds (bf_end (nt_bufs s b))))"

definition tcp_respone_generate :: "net \<Rightarrow> tcp_request_t \<Rightarrow> ub + net" where
  "tcp_respone_generate s r =
     (if pr_type (rq_protocol r) = PUT_T then
        (if rq_error r \<noteq> 0 then put_text s (rq_response r) (''error'' @ CRLF)
         else put_text s (rq_response r) (''ok'' @ CRLF))
      else Inr s)"

text \<open>The loop of \<open>tcp_server_send\<close> over the bytes between \<open>buffer\<close> and \<open>last\<close>.\<close>

partial_function (option) send_loop :: "net \<Rightarrow> addr \<Rightarrow> addr \<Rightarrow> net option" where
  "send_loop s conn b =
     (let buf = nt_bufs s b;
          bytes = mem_bytes (cm_mem s) (bf_buffer buf) (to_size_t (int (bf_last buf) - int (bf_buffer buf)));
          (n, s1) = os_send s (cn_fd (nt_conns s conn)) bytes
      in if n = -1 then
           (if os_errno s1 = EAGAIN then Some (upd_conn conn (\<lambda>k. k\<lparr>cn_add_events := EV_WRITE_EVENT\<rparr>) s1)
            else Some (upd_req conn (\<lambda>r. r\<lparr>rq_finish := 1\<rparr>)
                   (upd_conn conn (\<lambda>k. k\<lparr>cn_dead_events := EV_READ_EVENT OR EV_WRITE_EVENT, cn_close := 1\<rparr>)
                     (log_error s1 (cn_logger (nt_conns s1 conn)) 0 ''Connection is error, will close it.''))))
         else
           let s2 = upd_buf b (\<lambda>k. k\<lparr>bf_buffer := bf_buffer k + nat n\<rparr>) s1
           in if bf_buffer (nt_bufs s2 b) = bf_last (nt_bufs s2 b) then
                let s3 = (if cn_events (nt_conns s2 conn) AND EV_WRITE_EVENT \<noteq> 0
                          then upd_conn conn (\<lambda>k. k\<lparr>cn_dead_events := EV_WRITE_EVENT, cn_write_handler := None\<rparr>) s2
                          else s2)
                in Some (upd_req conn (\<lambda>r. r\<lparr>rq_finish := 1\<rparr>) s3)
              else send_loop s2 conn b)"

definition tcp_server_send :: "net \<Rightarrow> addr \<Rightarrow> ub + (int \<times> net)" where
  "tcp_server_send s conn =
     (case cn_request (nt_conns s conn) of
        None \<Rightarrow> Inr (TCP_SRV_OK, s)
      | Some r \<Rightarrow> (case send_loop s conn (rq_response r) of None \<Rightarrow> Inl Diverges | Some s1 \<Rightarrow> Inr (TCP_SRV_OK, s1)))"

text \<open>\<open>r\<close> is the request of the connection, before and after the send.\<close>

definition tcp_request_finish :: "net \<Rightarrow> addr \<Rightarrow> ub + (int \<times> net)" where
  "tcp_request_finish s conn =
     (case cn_request (nt_conns s conn) of
        None \<Rightarrow> Inl Null_deref
      | Some r \<Rightarrow>
          sbind (tcp_respone_generate s r) (\<lambda>s0.
          sbind (tcp_server_send s0 conn) (\<lambda>(_, s1).
          case cn_request (nt_conns s1 conn) of
            None \<Rightarrow> Inl Null_deref
          | Some r1 \<Rightarrow>
              if rq_finish r1 \<noteq> 0 then
                sbind (mem_pool_destroy s1 (rq_pool r1)) (\<lambda>s2.
                Inr (TCP_SRV_OK, upd_conn conn (\<lambda>k. k\<lparr>cn_request := None\<rparr>) s2))
              else Inr (TCP_SRV_OK, s1))))"

text \<open>A full buffer is followed by a new one of the minimal size.\<close>

definition grow_request :: "net \<Rightarrow> addr \<Rightarrow> tcp_request_t \<Rightarrow> (net + net)" where
  "grow_request s conn r =
     (case pmalloc s (rq_pool r) (BUFFER_MIN_SIZE + sizeof_buffer_t) of
        (p, s1, pool1) \<Rightarrow>
          let s2 = upd_req conn (\<lambda>r. r\<lparr>rq_pool := pool1\<rparr>) s1
          in if p = NULL then Inl (upd_req conn (\<lambda>r. r\<lparr>rq_error := -1\<rparr>) s2)
             else Inr (upd_req conn (\<lambda>r. r\<lparr>rq_last_buffer := p\<rparr>)
                    (upd_buf (rq_last_buffer r) (\<lambda>k. k\<lparr>bf_next := p\<rparr>)
                      (upd_buf p (\<lambda>_. new_buffer p BUFFER_MIN_SIZE) s2))))"

definition tcp_request_process :: "net \<Rightarrow> addr \<Rightarrow> int \<Rightarrow> ub + (int \<times> net)" where
  "tcp_request_process s conn ret =
     (case cn_request (nt_conns s conn) of
        None \<Rightarrow> Inl Null_deref
      | Some r \<Rightarrow>
          let buf = nt_bufs s (rq_last_buffer r)
          in if ret = PROTOCOL_OK then
               (if bf_last buf \<noteq> bf_end buf then Inr (TCP_SRV_OK, s)
                else (case grow_request s conn r of
                    Inl s1 \<Rightarrow> sbind (tcp_request_finish s1 conn) (\<lambda>(_, s2). Inr (TCP_SRV_OK, s2))
                  | Inr s1 \<Rightarrow> Inr (TCP_SRV_OK, s1)))
             else
               let s1 = (if ret = PROTOCOL_DONE then upd_req conn (\<lambda>r. r\<lparr>rq_done := 1\<rparr>) s
                         else if ret \<noteq> -1
                         then log_error (upd_req conn (\<lambda>r. r\<lparr>rq_error := ret\<rparr>) s) (rq_logger r) 0
                                (''Request is error: '' @ str_data (protocol_err_info ! nat ret))
                         else log_error (upd_req conn (\<lambda>r. r\<lparr>rq_error := ret\<rparr>) s) (rq_logger r) 0
                                ''Process request failed.'')
               in sbind (tcp_request_finish s1 conn) (\<lambda>(_, s2). Inr (TCP_SRV_OK, s2)))"

section \<open>The handlers\<close>

definition kill_conn :: "addr \<Rightarrow> net \<Rightarrow> net" where
  "kill_conn conn s =
     upd_conn conn (\<lambda>k. k\<lparr>cn_dead_events := EV_READ_EVENT OR EV_WRITE_EVENT, cn_close := 1\<rparr>) s"

text \<open>The bytes have been read into the buffer: parse them and act on the result.\<close>

definition recv_data :: "net \<Rightarrow> addr \<Rightarrow> tcp_request_t \<Rightarrow> byte list \<Rightarrow> ub + (int \<times> net)" where
  "recv_data s conn r bs =
     (let b = rq_last_buffer r;
          last = bf_last (nt_bufs s b);
          s1 = write_bytes s last bs;
          (ret, pro, m) = protocol_parse b (cm_mem s1) (rq_protocol r) last (last + length bs);
          s2 = upd_req conn (\<lambda>r. r\<lparr>rq_protocol := pro\<rparr>) (s1\<lparr>cm_mem := m\<rparr>);
          s3 = upd_buf b (\<lambda>k. k\<lparr>bf_last := bf_last k + length bs\<rparr>) s2
      in sbind (tcp_request_process s3 conn ret) (\<lambda>(_, s4). Inr (TCP_SRV_OK, s4)))"

definition tcp_server_recv :: "net \<Rightarrow> addr \<Rightarrow> ub + (int \<times> net)" where
  "tcp_server_recv s conn =
     (let (rq, s1) = (case cn_request (nt_conns s conn) of
                        Some r \<Rightarrow> (Some r, s) | None \<Rightarrow> tcp_request_init s conn)
      in case rq of
           None \<Rightarrow> Inr (TCP_SRV_ERROR, log_error s1 (cn_logger (nt_conns s1 conn)) 0 ''Request from client init failed.'')
         | Some r \<Rightarrow>
             let c = nt_conns s1 conn;
                 buf = nt_bufs s1 (rq_last_buffer r);
                 (res, s2) = os_read s1 (cn_fd c) (to_size_t (int (bf_end buf) - int (bf_last buf)))
             in case res of
                  None \<Rightarrow>
                    (if os_errno s2 = EAGAIN then Inr (TCP_SRV_OK, s2)
                     else Inr (TCP_SRV_ERROR, kill_conn conn
                            (log_error s2 (cn_logger c) 0 ''Connection is error, will close it.'')))
                | Some bs \<Rightarrow>
                    (if bs = [] then Inr (TCP_SRV_OK, kill_conn conn (log_warn s2 (cn_logger c) 0 ''Client has closed.''))
                     else recv_data s2 conn r bs))"

text \<open>\<open>accept\<close> is called again as long as a signal interrupts it.\<close>

partial_function (option) accept_loop :: "net \<Rightarrow> int \<Rightarrow> (int \<times> net) option" where
  "accept_loop s s_fd =
     (let (c_fd, s1) = os_accept s s_fd
      in if c_fd = -1 \<and> os_errno s1 = EINTR then accept_loop s1 s_fd else Some (c_fd, s1))"

definition set_nonblock :: "net \<Rightarrow> int \<Rightarrow> int \<times> net" where
  "set_nonblock s fd =
     (let (flags, s1) = os_call s (Sys_getfl fd)
      in if flags = -1 then (os_errno s1, s1)
         else let (r, s2) = os_call s1 (Sys_setfl fd) in if r = -1 then (os_errno s2, s2) else (0, s2))"

definition set_nodelay :: "net \<Rightarrow> int \<Rightarrow> int \<times> net" where
  "set_nodelay s fd = (let (r, s1) = os_call s (Sys_setsockopt fd) in if r = -1 then (os_errno s1, s1) else (0, s1))"

text \<open>The new connection is registered; its client's address is kept in its own pool.\<close>

definition accept_conn :: "net \<Rightarrow> addr \<Rightarrow> int \<Rightarrow> byte list \<times> nat \<Rightarrow> ub + (int \<times> net)" where
  "accept_conn s conn c_fd peer =
     (let lg = cn_logger (nt_conns s conn);
          (new_conn, s1) = tcp_get_connection s c_fd
      in if new_conn = NULL then
           let s2 = log_error s1 lg 0 ''get connection from pool failed, the pool may be full.''
           in Inr (TCP_SRV_ERROR, snd (os_close s2 c_fd))
         else
           let (r, s2) = add_event s1 new_conn EV_READ_EVENT H_recv
           in if r = EVENT_ERROR then
                let s3 = log_error s2 lg 0 ''add the read event of connection to event driver failed.'';
                    (_, s4) = os_close s3 (cn_fd (nt_conns s3 new_conn))
                in sbind (tcp_free_connection s4 new_conn) (\<lambda>s5. Inr (TCP_SRV_ERROR, s5))
              else (case cn_pool (nt_conns s2 new_conn) of
                  None \<Rightarrow> Inl Null_deref
                | Some pool \<Rightarrow>
                    let (a, s3, pool3) = pmalloc s2 pool 128;
                        s4 = upd_conn new_conn (\<lambda>k. k\<lparr>cn_pool := Some pool3\<rparr>) s3
                    in if a = NULL then Inr (TCP_SRV_ERROR, s4)
                       else Inr (TCP_SRV_OK, upd_conn new_conn (\<lambda>k. k\<lparr>cn_client_addr := xstring (cstr (fst peer)),
                              cn_client_port := int (snd peer)\<rparr>) (write_bytes s4 a (cstr (fst peer) @ [NUL])))))"

definition tcp_server_accept :: "net \<Rightarrow> addr \<Rightarrow> ub + (int \<times> net)" where
  "tcp_server_accept s conn =
     (let nodelay = sv_nodelay (nt_server s);
          lg = cn_logger (nt_conns s conn)
      in case accept_loop s (cn_fd (nt_conns s conn)) of
           None \<Rightarrow> Inl Diverges
         | Some (c_fd, s1) \<Rightarrow>
             if c_fd = -1 then Inr (TCP_SRV_ERROR, log_error s1 lg (os_errno s1) ''accept a new connection failed.'')
             else
               let peer = os_peer s1 (os_calls s1 - 1);
                   (nb, s2) = set_nonblock s1 c_fd
               in if nb \<noteq> 0 then
                    let s3 = log_error s2 lg 0 ''set O_NONBLOCK to connection failed.''
                    in Inr (TCP_SRV_ERROR, snd (os_close s3 c_fd))
                  else
                    let s4 = (if nodelay \<noteq> 0
                              then (case set_nodelay s2 c_fd of
                                      (nd, s3) \<Rightarrow> if nd \<noteq> 0 then log_error s3 lg 0 ''Set TCP_NODELAY to connection failed.'' else s3)
                              else s2)
                    in accept_conn s4 conn c_fd peer)"

section \<open>Frames\<close>

text \<open>
  The memory operations change the memory part of a state only: \<open>cmem.more\<close>, which holds the
  kernel's and the network's part, stays.
\<close>

lemma net_more:
  fixes s s' :: net
  assumes "cmem.more s' = cmem.more s"
  shows "os_answer s' = os_answer s" "os_fail s' = os_fail s" "os_input s' = os_input s"
    "os_calls s' = os_calls s" "os_errno s' = os_errno s" "os_trace s' = os_trace s"
    "os_events s' = os_events s" "os_peer s' = os_peer s" "nt_interest s' = nt_interest s"
    "nt_conns s' = nt_conns s" "nt_bufs s' = nt_bufs s" "nt_server s' = nt_server s"
    "nt_driver s' = nt_driver s" "nt_pool s' = nt_pool s"
  using assms by (cases s; cases s'; simp)+

section \<open>The free list of connections\<close>

fun chain :: "(addr \<Rightarrow> tcp_connection_t) \<Rightarrow> addr \<Rightarrow> addr list \<Rightarrow> bool" where
  "chain conns p [] \<longleftrightarrow> p = NULL"
| "chain conns p (x # xs) \<longleftrightarrow> p = x \<and> x \<noteq> NULL \<and> chain conns (cn_next (conns x)) xs"

definition free_list :: "net \<Rightarrow> addr list \<Rightarrow> bool" where
  "free_list s xs \<longleftrightarrow> chain (nt_conns s) (sv_connection_pool (nt_server s)) xs \<and> distinct xs"

lemma chain_other: "x \<notin> set xs \<Longrightarrow> chain (conns(x := k)) p xs = chain conns p xs"
  by (induction xs arbitrary: p) auto

lemma chain_nonnull: "chain conns p xs \<Longrightarrow> x \<in> set xs \<Longrightarrow> x \<noteq> NULL"
  by (induction xs arbitrary: p) auto

lemma chain_hd: "chain conns p xs \<Longrightarrow> p \<noteq> NULL \<Longrightarrow> \<exists>ys. xs = p # ys \<and> chain conns (cn_next (conns p)) ys"
  by (cases xs) auto

text \<open>The array of connections, linked from the first to the last.\<close>

definition conn_array :: "addr \<Rightarrow> nat \<Rightarrow> addr list" where
  "conn_array base n = map (\<lambda>i. base + i * sizeof_tcp_connection_t) [0..<n]"

lemma conn_array_Suc: "conn_array base (Suc n) = conn_array base n @ [base + n * sizeof_tcp_connection_t]"
  by (simp add: conn_array_def)

lemma conn_array_distinct: "distinct (conn_array base n)"
  by (auto simp: conn_array_def distinct_map inj_on_def sizeof_defs)

lemma link_conns_chain:
  assumes "0 < base" "chain conns nxt xs" "set (conn_array base n) \<inter> set xs = {}"
  shows "chain (link_conns base n nxt conns) (if n = 0 then nxt else base) (conn_array base n @ xs)"
  using assms(2,3)
proof (induction n arbitrary: nxt conns xs)
  case 0
  then show ?case by (simp add: conn_array_def)
next
  case (Suc n)
  define x where "x = base + n * sizeof_tcp_connection_t"
  have x: "x \<notin> set xs" "x \<noteq> NULL" "set (conn_array base n) \<inter> set (x # xs) = {}"
    using Suc.prems(2) assms(1) conn_array_distinct [of base "Suc n"] by (auto simp: conn_array_Suc x_def)
  have "chain (conns(x := (conns x)\<lparr>cn_next := nxt\<rparr>)) x (x # xs)"
    using Suc.prems(1) x by (simp add: chain_other)
  note IH = Suc.IH [OF this x(3)]
  have "link_conns base (Suc n) nxt conns = link_conns base n x (conns(x := (conns x)\<lparr>cn_next := nxt\<rparr>))"
    by (simp add: Let_def x_def)
  moreover have "(if n = 0 then x else base) = base" by (simp add: x_def)
  moreover have "conn_array base (Suc n) @ xs = conn_array base n @ x # xs" by (simp add: conn_array_Suc x_def)
  ultimately show ?case using IH by (simp only: if_False nat.simps)
qed

definition conn_get :: "net \<Rightarrow> int \<Rightarrow> addr option \<times> net" where
  "conn_get s fd = (case tcp_get_connection s fd of (c, s1) \<Rightarrow> (if c = NULL then None else Some c, s1))"

definition conn_put :: "net \<Rightarrow> addr \<Rightarrow> net option" where
  "conn_put s c = (case tcp_free_connection s c of Inl _ \<Rightarrow> None | Inr s1 \<Rightarrow> Some s1)"

definition conn_use :: "net \<Rightarrow> addr \<Rightarrow> (tcp_connection_t \<Rightarrow> tcp_connection_t) \<Rightarrow> net" where
  "conn_use s c f = upd_conn c f s"

lemma tcp_get_connection_cases:
  assumes "tcp_get_connection s fd = (c, s')"
  obtains (none) "c = NULL" "cmem.more s' = cmem.more s"
  | (some) pool s1 where "c = sv_connection_pool (nt_server s)" "c \<noteq> NULL" "cmem.more s1 = cmem.more s"
      "mem_pool_create s ''connection_pool'' CONNECTION_POOL_SIZE (sv_logger (nt_server s)) = (Some pool, s1)"
      "s' = upd_conn c (\<lambda>_. connection_zero\<lparr>cn_fd := fd, cn_client_port := -1,
              cn_logger := sv_logger (nt_server s), cn_pool := Some pool\<rparr>)
            (s1\<lparr>nt_server := (nt_server s)\<lparr>sv_connection_pool := cn_next (nt_conns s c)\<rparr>\<rparr>)"
proof (cases "sv_connection_pool (nt_server s) = NULL")
  case True
  then show ?thesis using assms none by (simp add: tcp_get_connection_def)
next
  case False
  obtain po s1 where p: "mem_pool_create s ''connection_pool'' CONNECTION_POOL_SIZE (sv_logger (nt_server s)) = (po, s1)"
    by fastforce
  note m = mem_pool_create_more [OF p]
  show ?thesis
  proof (cases po)
    case None
    then show ?thesis using assms p False m by (intro none) (auto simp: tcp_get_connection_def Let_def frame_simps)
  next
    case (Some pool)
    have "c = sv_connection_pool (nt_server s)"
      "s' = upd_conn c (\<lambda>_. connection_zero\<lparr>cn_fd := fd, cn_client_port := -1,
          cn_logger := sv_logger (nt_server s), cn_pool := Some pool\<rparr>)
        (s1\<lparr>nt_server := (nt_server s)\<lparr>sv_connection_pool := cn_next (nt_conns s c)\<rparr>\<rparr>)"
      using assms p False net_more(10,12) [OF m] unfolding tcp_get_connection_def Let_def Some by auto
    with False m p Some show ?thesis by (intro some) simp_all
  qed
qed

lemma tcp_free_connection_effect:
  assumes "tcp_free_connection s c = Inr s'"
  shows "nt_server s' = (nt_server s)\<lparr>sv_connection_pool := c\<rparr>"
    "nt_conns s' = (nt_conns s)(c := (nt_conns s c)\<lparr>cn_next := sv_connection_pool (nt_server s), cn_fd := -1,
        cn_logger := None, cn_pool := None\<rparr>)"
    "nt_interest s' = nt_interest s" "nt_bufs s' = nt_bufs s" "os_fail s' = os_fail s"
proof -
  obtain s1 pool s4 where
    d: "(case cn_request (nt_conns s c) of None \<Rightarrow> Inr s | Some r \<Rightarrow> mem_pool_destroy s (rq_pool r)) = Inr s1"
    and e: "mem_pool_destroy ((upd_conn c (\<lambda>k. k\<lparr>cn_next := sv_connection_pool (nt_server s1), cn_fd := -1, cn_logger := None\<rparr>) s1)
        \<lparr>nt_server := (nt_server s1)\<lparr>sv_connection_pool := c\<rparr>\<rparr>) pool = Inr s4"
    and s': "s' = upd_conn c (\<lambda>k. k\<lparr>cn_pool := None\<rparr>) s4"
    using assms by (auto simp: tcp_free_connection_def Let_def frame_simps elim!: sbindE split: option.splits)
  have m1: "cmem.more s1 = cmem.more s" using d by (auto dest: mem_pool_destroy_more split: option.splits)
  note m4 = net_more [OF mem_pool_destroy_more [OF e]]
  show "nt_server s' = (nt_server s)\<lparr>sv_connection_pool := c\<rparr>"
    "nt_conns s' = (nt_conns s)(c := (nt_conns s c)\<lparr>cn_next := sv_connection_pool (nt_server s), cn_fd := -1,
        cn_logger := None, cn_pool := None\<rparr>)"
    "nt_interest s' = nt_interest s" "nt_bufs s' = nt_bufs s" "os_fail s' = os_fail s"
    by (simp_all add: s' m4 net_more [OF m1] frame_simps)
qed

interpretation conns: object_pool conn_get conn_put conn_use free_list "\<lambda>c. c \<noteq> NULL"
proof (unfold_locales, goal_cases)
  case (1 s xs fd s')
  then obtain c where "tcp_get_connection s fd = (c, s')" "c = NULL"
    by (auto simp: conn_get_def split: prod.splits if_splits)
  then have "cmem.more s' = cmem.more s" by (auto elim: tcp_get_connection_cases)
  from net_more [OF this] 1(1) show ?case by (simp add: free_list_def)
next
  case (2 s xs fd x s')
  then have g: "tcp_get_connection s fd = (x, s')" "x \<noteq> NULL"
    by (auto simp: conn_get_def split: prod.splits if_splits)
  from g(1) show ?case
  proof (cases rule: tcp_get_connection_cases)
    case none
    then show ?thesis using g(2) by simp
  next
    case (some pool s1)
    obtain ys where "xs = x # ys" "chain (nt_conns s) (cn_next (nt_conns s x)) ys" "distinct xs"
      using chain_hd [of "nt_conns s" x xs] 2(1) some(1,2) by (auto simp: free_list_def)
    then show ?thesis using net_more(10) [OF some(3)]
      by (auto simp: some(5) free_list_def frame_simps chain_other)
  qed
next
  case (3 s xs x s')
  then have f: "tcp_free_connection s x = Inr s'" by (auto simp: conn_put_def split: sum.splits)
  show ?case using 3 tcp_free_connection_effect [OF f] by (simp add: free_list_def chain_other)
next
  case (4 s xs x f)
  then show ?case by (simp add: free_list_def conn_use_def frame_simps chain_other)
qed

lemma connection_pool_init_free:
  assumes "connection_pool_init s = Inr (TCP_SRV_OK, s')" "0 < sv_connections (nt_server s)"
    "sv_connections (nt_server s) \<le> 2147483648"
  shows "free_list s' (conn_array (sv_connection_pool (nt_server s')) (sv_connections (nt_server s)))"
    "sv_connection_pool (nt_server s') \<noteq> NULL"
proof -
  let ?n = "sv_connections (nt_server s)"
  obtain p s1 where p: "mod_pmalloc s (sizeof_tcp_connection_t * ?n mod size_mod) = (p, s1)" by fastforce
  have i: "nat (long_to_int (int ?n - 1) + 1) = ?n" using assms(2,3) by (simp add: long_to_int_def Let_def)
  have s': "p \<noteq> NULL" "s' = s1\<lparr>nt_conns := link_conns p ?n NULL (nt_conns s1),
      nt_server := (nt_server s1)\<lparr>sv_connection_pool := p\<rparr>\<rparr>"
    using assms(1) p i by (auto simp: connection_pool_init_def Let_def split: if_splits)
  have "chain (link_conns p ?n NULL (nt_conns s1)) p (conn_array p ?n)"
    using link_conns_chain [of p "nt_conns s1" NULL "[]" ?n] s'(1) assms(2) by simp
  then show "free_list s' (conn_array (sv_connection_pool (nt_server s')) ?n)" "sv_connection_pool (nt_server s') \<noteq> NULL"
    using s' by (simp_all add: free_list_def conn_array_distinct)
qed

section \<open>Properties\<close>

text \<open>
  C11: no connection is lost or handed out twice.  After \<open>connection_pool_init\<close> with \<open>n\<close>
  connections, through any sequence of \<open>tcp_get_connection\<close>, \<open>tcp_free_connection\<close> on a
  connection in use, and arbitrary changes to the fields of connections in use (their \<open>next\<close>
  link included, which the event loop borrows for its own list), the connections in use and
  the free list together are exactly the \<open>n\<close> connections of the array, each once.
\<close>

theorem connection_pool_conserved:
  assumes "connection_pool_init s = Inr (TCP_SRV_OK, s0)"
    and "0 < sv_connections (nt_server s)" "sv_connections (nt_server s) \<le> 2147483648"
    and "pool_run conn_get conn_put conn_use s0 [] ops = Some (s', used)"
  shows "\<exists>xs. chain (nt_conns s') (sv_connection_pool (nt_server s')) xs \<and> distinct (used @ xs) \<and>
    set (used @ xs) = (\<lambda>i. sv_connection_pool (nt_server s0) + i * sizeof_tcp_connection_t) `
      {0..<sv_connections (nt_server s)}"
proof -
  let ?all = "conn_array (sv_connection_pool (nt_server s0)) (sv_connections (nt_server s))"
  have f: "free_list s0 ?all" "\<forall>x \<in> set ?all. x \<noteq> NULL"
    using connection_pool_init_free [OF assms(1-3)] by (auto simp: conn_array_def)
  obtain xs where "free_list s' xs" "distinct (used @ xs)" "set (used @ xs) = set ?all"
    using conns.conserved [OF f(1) _ _ assms(4)] f(2) conn_array_distinct by auto
  then show ?thesis by (auto simp: free_list_def conn_array_def)
qed

lemma demo_init_ok: "\<exists>s0. connection_pool_init (demo_net a i) = Inr (TCP_SRV_OK, s0)"
  by (simp add: connection_pool_init_def Let_def writable_def long_to_int_def mod_pmalloc_def demo_net_def demo_world_def world.defs cmem.defs demo_eval
      pmalloc_eval sizeof_tcp_connection_t_def)

theorem connection_pool_conserved_witness:
  "\<exists>s0 s' used xs. connection_pool_init (demo_net (\<lambda>_. 0) (\<lambda>_. [])) = Inr (TCP_SRV_OK, s0) \<and>
     pool_run conn_get conn_put conn_use s0 [] [Get 9, Get 10] = Some (s', used) \<and>
     chain (nt_conns s') (sv_connection_pool (nt_server s')) xs \<and> distinct (used @ xs) \<and>
     sv_connection_pool (nt_server s0) + 120 \<in> set (used @ xs)"
proof -
  let ?s = "demo_net (\<lambda>_. 0) (\<lambda>_. [])"
  obtain s0 where s0: "connection_pool_init ?s = Inr (TCP_SRV_OK, s0)" using demo_init_ok by blast
  obtain s' used where r: "pool_run conn_get conn_put conn_use s0 [] [Get 9, Get 10] = Some (s', used)"
    using pool_run_gets [of conn_get conn_put conn_use s0 "[]" "[9, 10]"] by auto
  have n: "sv_connections (nt_server ?s) = 2" by (simp add: demo_net_def world.defs)
  from connection_pool_conserved [OF s0 _ _ r] n obtain xs where
    "chain (nt_conns s') (sv_connection_pool (nt_server s')) xs" "distinct (used @ xs)"
    "set (used @ xs) = (\<lambda>i. sv_connection_pool (nt_server s0) + i * sizeof_tcp_connection_t) ` {0..<2}" by auto
  then show ?thesis using s0 r
    by (intro exI [of _ s0] exI [of _ s'] exI [of _ used] exI [of _ xs]) (auto simp: sizeof_tcp_connection_t_def)
qed

end
