(* ===== verification/EventLoop.thy ===== *)
theory EventLoop
  imports TcpServer
begin

text \<open>
  \<open>process_events\<close> of \<open>net_event.c\<close>: poll, then call the handlers of every active connection
  and clean up behind them.  A call through a null handler pointer ends the run.
\<close>

definition call_handler :: "handler option \<Rightarrow> net \<Rightarrow> addr \<Rightarrow> ub + (int \<times> net)" where
  "call_handler h s conn =
     (case h of None \<Rightarrow> Inl Null_call
      | Some H_accept \<Rightarrow> tcp_server_accept s conn
      | Some H_recv \<Rightarrow> tcp_server_recv s conn
      | Some H_send \<Rightarrow> tcp_server_send s conn)"

text \<open>The two handler calls for one active connection.\<close>

definition run_handlers :: "net \<Rightarrow> addr \<Rightarrow> ub + net" where
  "run_handlers s conn =
     sbind (if cn_active_events (nt_conns s conn) AND EV_READ_EVENT \<noteq> 0
            then sbind (call_handler (cn_read_handler (nt_conns s conn)) s conn) (\<lambda>(_, s1). Inr s1)
            else Inr s) (\<lambda>s1.
     if cn_active_events (nt_conns s1 conn) AND EV_WRITE_EVENT \<noteq> 0
     then sbind (call_handler (cn_write_handler (nt_conns s1 conn)) s1 conn) (\<lambda>(_, s2). Inr s2)
     else Inr s1)"

text \<open>What follows the handlers: the next connection of the list and the new state.\<close>

definition clean_conn :: "net \<Rightarrow> addr \<Rightarrow> ub + (addr \<times> net)" where
  "clean_conn s conn =
     (let s1 = (if cn_dead_events (nt_conns s conn) \<noteq> 0
                then upd_conn conn (\<lambda>k. k\<lparr>cn_dead_events := EV_NONE_EVENT\<rparr>)
                       (snd (del_event s conn (cn_dead_events (nt_conns s conn))))
                else s)
      in if cn_close (nt_conns s1 conn) \<noteq> 0 then
           let (_, s2) = os_close s1 (cn_fd (nt_conns s1 conn));
               next = cn_next (nt_conns s2 conn)
           in sbind (tcp_free_connection s2 conn) (\<lambda>s3. Inr (next, s3))
         else
           let s2 = (if cn_add_events (nt_conns s1 conn) \<noteq> 0
                     then upd_conn conn (\<lambda>k. k\<lparr>cn_add_events := EV_NONE_EVENT\<rparr>)
                            (snd (add_event s1 conn (cn_add_events (nt_conns s1 conn)) H_send))
                     else s1)
           in Inr (cn_next (nt_conns s2 conn), s2))"

partial_function (option) events_loop :: "net \<Rightarrow> addr \<Rightarrow> (ub + net) option" where
  "events_loop s active_conn =
     (if active_conn = NULL then Some (Inr s)
      else case sbind (run_handlers s active_conn) (\<lambda>s1. clean_conn s1 active_conn) of
          Inl e \<Rightarrow> Some (Inl e)
        | Inr (next, s1) \<Rightarrow> events_loop s1 next)"

definition process_events :: "net \<Rightarrow> ub + (int \<times> net)" where
  "process_events s =
     sbind (epoll_polling s) (\<lambda>(_, s1).
     case events_loop s1 (ed_active_conns (nt_driver s1)) of
       None \<Rightarrow> Inl Diverges
     | Some (Inl e) \<Rightarrow> Inl e
     | Some (Inr s2) \<Rightarrow> Inr (EVENT_OK, s2\<lparr>nt_driver := (nt_driver s2)\<lparr>ed_active_conns := NULL\<rparr>\<rparr>))"

end
