(* ===== verification/Times.thy ===== *)
theory Times
  imports Logger "HOL-Library.Word"
begin

text \<open>
  \<open>times.c\<close>: the cached time.  \<open>gettimeofday\<close> gives the seconds and microseconds,
  \<open>localtime\<close> the broken-down time; both belong to the environment and are arguments.  The
  millisecond counter is an \<open>unsigned int\<close> and wraps around.
\<close>

section \<open>Printing numbers\<close>

text \<open>\<open>%<k>d\<close> pads with blanks on the left, \<open>%0<k>d\<close> with zeros after the sign.\<close>

definition fmt_d :: "nat \<Rightarrow> int \<Rightarrow> byte list" where
  "fmt_d k i =
     (let s = (if i < 0 then CHR ''-'' # dec_digits (nat (- i)) else dec_digits (nat i))
      in replicate (k - length s) (CHR '' '') @ s)"

definition fmt_0d :: "nat \<Rightarrow> int \<Rightarrow> byte list" where
  "fmt_0d k i =
     (if i < 0 then CHR ''-'' # replicate (k - 1 - length (dec_digits (nat (- i)))) (CHR ''0'') @ dec_digits (nat (- i))
      else replicate (k - length (dec_digits (nat i))) (CHR ''0'') @ dec_digits (nat i))"

section \<open>The timer\<close>

record tm =
  tm_sec :: int
  tm_min :: int
  tm_hour :: int
  tm_mday :: int
  tm_mon :: int
  tm_year :: int

record timer =
  time_current_msecs :: "32 word"
  time_current_seconds :: int
  log_time :: "byte list"

definition log_time_size :: nat where "log_time_size = 21"

definition log_stamp :: "tm \<Rightarrow> byte list" where
  "log_stamp tm =
     fmt_d 4 (tm_year tm) @ ''-'' @ fmt_0d 2 (tm_mon tm) @ ''-'' @ fmt_0d 2 (tm_mday tm) @ ''/'' @
     fmt_0d 2 (tm_hour tm) @ '':'' @ fmt_0d 2 (tm_min tm) @ '':'' @ fmt_0d 2 (tm_sec tm) @ '' ''"

text \<open>\<open>sprintf\<close> writes the text and a NUL into \<open>log_time\<close>.\<close>

definition timer_update :: "(int \<Rightarrow> tm) \<Rightarrow> int \<times> int \<Rightarrow> timer \<Rightarrow> ub + timer" where
  "timer_update localtime tv t =
     (let secs = fst tv;
          msecs = snd tv div 1000;
          t1 = t\<lparr>time_current_seconds := secs,
                 time_current_msecs := word_of_int secs * 1000 + word_of_int msecs\<rparr>;
          tm0 = localtime secs;
          tm1 = tm0\<lparr>tm_mon := tm_mon tm0 + 1, tm_year := tm_year tm0 + 1900\<rparr>;
          s = log_stamp tm1 @ [NUL]
      in if length s \<le> log_time_size
         then Inr (t1\<lparr>log_time := s @ drop (length s) (log_time t)\<rparr>)
         else Inl (Out_of_bounds log_time_size))"

definition timer_init :: "(int \<Rightarrow> tm) \<Rightarrow> int \<times> int \<Rightarrow> timer \<Rightarrow> ub + timer" where
  "timer_init localtime tv t = timer_update localtime tv (t\<lparr>log_time := replicate log_time_size NUL\<rparr>)"

text \<open>What the logger copies: \<open>cache_log_time\<close> has the fixed length 20.\<close>

definition cache_log_time :: "timer \<Rightarrow> byte list" where
  "cache_log_time t = take 20 (log_time t)"

section \<open>Facts\<close>

lemma dec_digits_length1: "n < 10 \<Longrightarrow> length (dec_digits n) = 1"
  by (subst dec_digits.simps) simp

lemma dec_digits_length_step: "10 \<le> n \<Longrightarrow> length (dec_digits n) = Suc (length (dec_digits (n div 10)))"
  by (subst dec_digits.simps) simp

lemma dec_digits_length_le: "0 < k \<Longrightarrow> length (dec_digits n) \<le> k \<longleftrightarrow> n < 10 ^ k"
proof (induction k arbitrary: n)
  case (Suc k)
  show ?case
  proof (cases "n < 10")
    case True
    then have "n < 10 ^ Suc k" by (rule less_le_trans) simp
    with True show ?thesis by (simp add: dec_digits_length1)
  next
    case False
    then have l: "length (dec_digits n) = Suc (length (dec_digits (n div 10)))"
      by (intro dec_digits_length_step) simp
    show ?thesis
    proof (cases "k = 0")
      case True
      with False l show ?thesis by (simp add: dec_digits_nonempty)
    next
      case k: False
      have "n div 10 < 10 ^ k \<longleftrightarrow> n < 10 ^ Suc k" by (simp add: div_less_iff_less_mult mult.commute)
      with Suc.IH [of "n div 10"] k l show ?thesis by simp
    qed
  qed
qed simp

lemma fmt_d_length: "0 < k \<Longrightarrow> 0 \<le> i \<Longrightarrow> i < 10 ^ k \<Longrightarrow> length (fmt_d k i) = k"
  using dec_digits_length_le [of k "nat i"] by (simp add: fmt_d_def Let_def nat_less_iff)

lemma fmt_0d_length: "0 < k \<Longrightarrow> 0 \<le> i \<Longrightarrow> i < 10 ^ k \<Longrightarrow> length (fmt_0d k i) = k"
  using dec_digits_length_le [of k "nat i"] by (simp add: fmt_0d_def nat_less_iff)

lemma fmt_d_length_ge:
  assumes "0 < k" "10 ^ k \<le> i"
  shows "k < length (fmt_d k i)"
proof -
  have i: "0 \<le> i" using assms(2) by (rule order_trans [rotated]) simp
  have "(10 :: int) ^ k = int (10 ^ k)" by simp
  then have "10 ^ k \<le> nat i" using assms(2) by (simp only: le_nat_iff [OF i])
  then have "k < length (dec_digits (nat i))" using dec_digits_length_le [OF assms(1), of "nat i"] by simp
  then show ?thesis using i by (simp add: fmt_d_def Let_def)
qed

lemma dec_val_zeros: "dec_val (replicate k (CHR ''0'') @ ds) = dec_val ds"
  by (induction k) (simp_all add: dec_val_def digit_val_def)

lemma zeros_digits: "\<forall>d \<in> set (replicate k (CHR ''0'') @ dec_digits n). c_isdigit d"
  using dec_digits_digits [of n] by (auto simp: list_all_iff char_defs less_eq_char_def)

lemma atoi_fmt_0d: "0 \<le> i \<Longrightarrow> i < 2147483648 \<Longrightarrow> c_atoi (fmt_0d k i) = i"
  using c_atoi_digits [of "fmt_0d k i"] zeros_digits [of "k - length (dec_digits (nat i))" "nat i"]
  by (simp add: fmt_0d_def dec_val_zeros dec_val_digits)

lemma atoi_blanks: "c_atoi (replicate k (CHR '' '') @ s) = c_atoi s"
proof -
  have "dropWhile c_isspace (replicate k (CHR '' '') @ s) = dropWhile c_isspace s"
    by (induction k) (simp_all add: c_isspace_def)
  then show ?thesis by (simp add: c_atoi_def c_strtol_def)
qed

lemma atoi_fmt_d: "0 \<le> i \<Longrightarrow> i < 2147483648 \<Longrightarrow> c_atoi (fmt_d k i) = i"
  using atoi_dec_digits [of "nat i"] by (simp add: fmt_d_def Let_def atoi_blanks nat_less_iff)

text \<open>The ranges in which \<open>localtime\<close> gives its fields.\<close>

definition tm_ok :: "tm \<Rightarrow> bool" where
  "tm_ok tm \<longleftrightarrow> 0 \<le> tm_sec tm \<and> tm_sec tm \<le> 60 \<and> 0 \<le> tm_min tm \<and> tm_min tm < 60 \<and>
     0 \<le> tm_hour tm \<and> tm_hour tm < 24 \<and> 1 \<le> tm_mday tm \<and> tm_mday tm \<le> 31 \<and>
     0 \<le> tm_mon tm \<and> tm_mon tm < 12 \<and> 0 \<le> tm_year tm"

definition stamp_tm :: "tm \<Rightarrow> tm" where
  "stamp_tm tm = tm\<lparr>tm_mon := tm_mon tm + 1, tm_year := tm_year tm + 1900\<rparr>"

lemma fmt_02:
  assumes "tm_ok tm"
  shows "length (fmt_0d 2 (tm_sec tm)) = 2" "length (fmt_0d 2 (tm_min tm)) = 2"
    "length (fmt_0d 2 (tm_hour tm)) = 2" "length (fmt_0d 2 (tm_mday tm)) = 2"
    "length (fmt_0d 2 (tm_mon tm + 1)) = 2"
  using assms by (auto simp: tm_ok_def intro!: fmt_0d_length)

lemma log_stamp_length:
  "tm_ok tm \<Longrightarrow> length (log_stamp (stamp_tm tm)) = length (fmt_d 4 (tm_year tm + 1900)) + 16"
  by (simp add: log_stamp_def stamp_tm_def fmt_02)

lemma timer_update_fits:
  assumes "tm_ok (localtime secs)" "length (log_time t) = log_time_size" "tm_year (localtime secs) + 1900 < 10000"
  shows "\<exists>t'. timer_update localtime (secs, usecs) t = Inr t' \<and> length (log_time t') = log_time_size"
proof -
  have "length (fmt_d 4 (tm_year (localtime secs) + 1900)) = 4"
    using assms by (intro fmt_d_length) (auto simp: tm_ok_def)
  with log_stamp_length [OF assms(1)] assms(2) show ?thesis
    by (simp add: timer_update_def Let_def log_time_size_def flip: stamp_tm_def)
qed

section \<open>Properties\<close>

text \<open>
  C33: the timestamp.  For every broken-down time in the ranges of \<open>localtime\<close> whose year has
  four digits the text and its NUL fill the 21 bytes of \<open>log_time\<close> exactly, the 20 bytes that
  the logger copies are the text, and its columns read back as the year, month, day, hour,
  minute and second; from the year 10000 on the text no longer fits and \<open>sprintf\<close> writes past
  the buffer.
\<close>

theorem timer_update_stamp:
  assumes "tm_ok (localtime secs)" "length (log_time t) = log_time_size"
  shows "if tm_year (localtime secs) + 1900 < 10000
    then \<exists>t'. timer_update localtime (secs, usecs) t = Inr t' \<and> length (log_time t') = log_time_size \<and>
      (let s = cache_log_time t'; tm = localtime secs
       in length s = 20 \<and> log_time t' = s @ [NUL] \<and>
          c_atoi (take 4 s) = tm_year tm + 1900 \<and> c_atoi (take 2 (drop 5 s)) = tm_mon tm + 1 \<and>
          c_atoi (take 2 (drop 8 s)) = tm_mday tm \<and> c_atoi (take 2 (drop 11 s)) = tm_hour tm \<and>
          c_atoi (take 2 (drop 14 s)) = tm_min tm \<and> c_atoi (take 2 (drop 17 s)) = tm_sec tm)
    else timer_update localtime (secs, usecs) t = Inl (Out_of_bounds log_time_size)"
proof (cases "tm_year (localtime secs) + 1900 < 10000")
  case True
  define tm where "tm = localtime secs"
  have y: "length (fmt_d 4 (tm_year tm + 1900)) = 4"
    using True assms(1) by (intro fmt_d_length) (auto simp: tm_def tm_ok_def)
  have l: "length (log_stamp (stamp_tm tm)) = 20" using log_stamp_length [of tm] assms(1) y by (simp add: tm_def)
  define t' where "t' = t\<lparr>time_current_seconds := secs,
      time_current_msecs := word_of_int secs * 1000 + word_of_int (usecs div 1000),
      log_time := log_stamp (stamp_tm tm) @ [NUL]\<rparr>"
  have u: "timer_update localtime (secs, usecs) t = Inr t'"
    using l assms(2) by (simp add: timer_update_def Let_def log_time_size_def t'_def stamp_tm_def tm_def)
  have c: "cache_log_time t' = log_stamp (stamp_tm tm)" by (simp add: cache_log_time_def t'_def l)
  have "c_atoi (take 4 (log_stamp (stamp_tm tm))) = tm_year tm + 1900"
    "c_atoi (take 2 (drop 5 (log_stamp (stamp_tm tm)))) = tm_mon tm + 1"
    "c_atoi (take 2 (drop 8 (log_stamp (stamp_tm tm)))) = tm_mday tm"
    "c_atoi (take 2 (drop 11 (log_stamp (stamp_tm tm)))) = tm_hour tm"
    "c_atoi (take 2 (drop 14 (log_stamp (stamp_tm tm)))) = tm_min tm"
    "c_atoi (take 2 (drop 17 (log_stamp (stamp_tm tm)))) = tm_sec tm"
    using y fmt_02 [of tm] assms(1) True
    by (simp_all add: log_stamp_def stamp_tm_def tm_def atoi_fmt_d atoi_fmt_0d tm_ok_def)
  with u c l True show ?thesis
    by (simp add: Let_def tm_def t'_def log_time_size_def)
next
  case False
  then have "4 < length (fmt_d 4 (tm_year (localtime secs) + 1900))" by (intro fmt_d_length_ge) auto
  with log_stamp_length [OF assms(1)] False show ?thesis
    by (simp add: timer_update_def Let_def log_time_size_def flip: stamp_tm_def)
qed

definition demo_tm :: tm where
  "demo_tm = \<lparr>tm_sec = 9, tm_min = 30, tm_hour = 12, tm_mday = 24, tm_mon = 4, tm_year = 113\<rparr>"

definition demo_timer :: timer where
  "demo_timer = \<lparr>time_current_msecs = 0, time_current_seconds = 0, log_time = replicate log_time_size NUL\<rparr>"

theorem timer_update_stamp_witness:
  "tm_ok demo_tm \<and> length (log_time demo_timer) = log_time_size \<and>
   (\<exists>t'. timer_update (\<lambda>_. demo_tm) (1369398609, 0) demo_timer = Inr t' \<and> c_atoi (take 4 (cache_log_time t')) = 2013)"
  using timer_update_stamp [of "\<lambda>_. demo_tm" 1369398609 demo_timer 0]
  by (auto simp: demo_tm_def tm_ok_def demo_timer_def Let_def)

text \<open>
  C34: the millisecond counter wraps around and still measures intervals.  Between two updates
  less than \<open>2 ^ 32\<close> milliseconds apart, the unsigned difference of the two counters is the
  number of milliseconds between the two times, whatever the times are.
\<close>

theorem timer_elapsed:
  assumes "timer_update lt1 (s1, u1) t = Inr t1" "timer_update lt2 (s2, u2) t1 = Inr t2"
    and "s1 * 1000 + u1 div 1000 \<le> s2 * 1000 + u2 div 1000"
    and "(s2 * 1000 + u2 div 1000) - (s1 * 1000 + u1 div 1000) < 2 ^ 32"
  shows "uint (time_current_msecs t2 - time_current_msecs t1) =
    (s2 * 1000 + u2 div 1000) - (s1 * 1000 + u1 div 1000)"
proof -
  have m: "time_current_msecs t' = word_of_int (s * 1000 + u div 1000)"
    if "timer_update lt (s, u) t0 = Inr t'" for lt s u t0 t'
    using that by (auto simp: timer_update_def Let_def split: if_splits)
  have "time_current_msecs t2 - time_current_msecs t1 =
      word_of_int ((s2 * 1000 + u2 div 1000) - (s1 * 1000 + u1 div 1000))"
    unfolding m [OF assms(1)] m [OF assms(2)] by simp
  then show ?thesis using assms(3,4) by (simp only: uint_word_of_int) simp
qed

theorem timer_elapsed_witness:
  "\<exists>t1 t2. timer_update (\<lambda>_. demo_tm) (4294967, 295000) demo_timer = Inr t1 \<and>
     timer_update (\<lambda>_. demo_tm) (4294967, 300000) t1 = Inr t2 \<and>
     uint (time_current_msecs t2 - time_current_msecs t1) = 5"
proof -
  obtain t1 where t1: "timer_update (\<lambda>_. demo_tm) (4294967, 295000) demo_timer = Inr t1"
    "length (log_time t1) = log_time_size"
    using timer_update_fits [of "\<lambda>_. demo_tm" 4294967 demo_timer 295000]
    by (auto simp: demo_tm_def tm_ok_def demo_timer_def)
  obtain t2 where t2: "timer_update (\<lambda>_. demo_tm) (4294967, 300000) t1 = Inr t2"
    using timer_update_fits [of "\<lambda>_. demo_tm" 4294967 t1 300000] t1(2)
    by (auto simp: demo_tm_def tm_ok_def)
  show ?thesis using timer_elapsed [OF t1(1) t2] t1(1) t2 by (intro exI [of _ t1] exI [of _ t2]) simp
qed

end
