(* ===== verification/Startup.thy ===== *)
theory Startup
  imports ConfFile EventLoop Times
begin

text \<open>
  The life of the process: \<open>network.c\<close> (the module net), \<open>mod_manager.c\<close> and the functions of
  \<open>xpipe.c\<close> around \<open>main\<close>.  Reading the configuration and preparing the modules work on
  the state \<open>prog\<close>; from the initialisation of the modules on the state is \<open>proc\<close>, which has
  the network state in it.  The clock, \<open>localtime\<close>, the events and peers the kernel reports
  and the arrival of \<open>SIGTERM\<close> belong to the environment, and so does the choice of the
  build whether \<open>USE_BACKTRACE\<close> is defined.
\<close>

section \<open>The module net\<close>

text \<open>The end of \<open>init_network_mod\<close>: the listening socket gets a connection and is registered.\<close>

definition start_listening :: "logger_t option \<Rightarrow> net \<Rightarrow> ub + (int \<times> net)" where
  "start_listening lg s =
     (let (conn, s1) = tcp_get_connection s (sv_sock_fd (nt_server s))
      in if conn = NULL
         then Inr (MOD_ERROR, log_error s1 lg 0 ''get connection from pool failed, pool may be full.'')
         else
           let s2 = upd_conn conn (\<lambda>k. k\<lparr>cn_is_listen := 1\<rparr>) s1;
               (r, s3) = add_event s2 conn EV_READ_EVENT H_accept
           in if r = EVENT_ERROR then
                let s4 = log_error s3 lg 0 ''add the read event of listen to event driver failed.'';
                    (_, s5) = os_close s4 (cn_fd (nt_conns s4 conn))
                in sbind (tcp_free_connection s5 conn) (\<lambda>s6. Inr (MOD_ERROR, s6))
              else Inr (MOD_OK, log_info s3 lg 0 ''server is listening''))"

text \<open>
  \<open>init_network_mod\<close>; \<open>cf\<close> is the configuration of the module, \<open>None\<close> when the file has
  no block for it, and \<open>lg\<close> its logger.
\<close>

definition init_network_mod :: "xpipe_net_mod_conf_t option \<Rightarrow> logger_t option \<Rightarrow> net \<Rightarrow> ub + (int \<times> net)" where
  "init_network_mod conf lg s =
     (let (event_driver, s1) = mod_pmalloc s sizeof_net_event_driver_t
      in if event_driver = NULL then Inr (MOD_ERROR, log_error s1 lg 0 ''pmalloc memory failed.'')
         else case conf of None \<Rightarrow> Inl Null_deref
         | Some cf \<Rightarrow>
             let s2 = s1\<lparr>nt_driver := (nt_driver s1)\<lparr>ed_size := int (nc_conns cf div 2), ed_logger := lg\<rparr>\<rparr>;
                 (r, s3) = net_event_init s2
             in if r = EVENT_ERROR then Inr (MOD_ERROR, s3)
                else
                  let s4 = log_info s3 lg 0 ''event driver has been init successfully.'';
                      (server, s5) = mod_pmalloc s4 sizeof_tcp_server_t
                  in if server = NULL then Inr (MOD_ERROR, log_error s5 lg 0 ''pmalloc memory failed.'')
                     else
                       let s6 = s5\<lparr>nt_server := (nt_server s5)\<lparr>sv_port := nc_port cf, sv_connections := nc_conns cf,
                                    sv_nodelay := nc_nodelay cf, sv_request_buf_size := nc_request_buffer_size cf,
                                    sv_logger := lg\<rparr>\<rparr>
                       in sbind (tcp_server_init s6) (\<lambda>(r2, s7).
                          if r2 = TCP_SRV_ERROR then Inr (MOD_ERROR, s7)
                          else start_listening lg (log_info s7 lg 0 ''server init successfully'')))"

definition process_network_mod :: "net \<Rightarrow> ub + (int \<times> net)" where
  "process_network_mod s =
     sbind (process_events s) (\<lambda>(r, s1). Inr (if r = EVENT_ERROR then MOD_ERROR else MOD_OK, s1))"

definition finish_network_mod :: "net \<Rightarrow> int \<times> net" where
  "finish_network_mod s = (MOD_OK, s)"

section \<open>Preparing the modules\<close>

abbreviation (input) MODULE_POOL_SIZE :: nat where "MODULE_POOL_SIZE \<equiv> 2048"

text \<open>The loop of \<open>sys_modules_prepare\<close> from module \<open>i\<close> on.\<close>

fun prepare_mods :: "prog \<Rightarrow> nat \<Rightarrow> nat \<Rightarrow> int \<times> prog" where
  "prepare_mods s i 0 = (MOD_OK, s)"
| "prepare_mods s i (Suc n) =
     (let s1 = (if sm_logger (pg_mods s ! i) = None
                then upd_mod i (\<lambda>m. m\<lparr>sm_logger := rs_default_logger s\<rparr>) s else s)
      in case mem_pool_create s1 (str_data (sm_name (pg_mods s1 ! i))) MODULE_POOL_SIZE (sm_logger (pg_mods s1 ! i)) of
           (None, s2) \<Rightarrow> (MOD_ERROR, log_error s2 (rs_default_logger s2) 0 ''create module's memory pool failed.'')
         | (Some pool, s2) \<Rightarrow> prepare_mods (upd_mod i (\<lambda>m. m\<lparr>sm_pool := Some pool\<rparr>) s2) (Suc i) n)"

definition sys_modules_prepare :: "prog \<Rightarrow> int \<times> prog" where
  "sys_modules_prepare s =
     (let s1 = s\<lparr>cf_pool := (cf_pool s)\<lparr>mp_logger := rs_default_logger s\<rparr>\<rparr>
      in prepare_mods s1 0 (length (pg_mods s1)))"

definition sys_modules_finish :: "prog \<Rightarrow> int \<times> prog" where
  "sys_modules_finish s = (MOD_ERROR, s)"

text \<open>The logger it creates is not stored anywhere.\<close>

definition create_default_logger :: "prog \<Rightarrow> int \<times> prog" where
  "create_default_logger s =
     (if rs_main_logger s \<noteq> None then (XPE_OK, s\<lparr>rs_default_logger := rs_main_logger s\<rparr>)
      else
        let (file, s1) = conf_pmalloc s sizeof_file_t
        in if file = NULL then (XPE_ERROR, s1)
           else
             let (fd, s2) = os_call s1 (Sys_open (default_logger_full_path s1) FL_APPEND 420)
             in if fd = FL_INVALID_FD then (XPE_ERROR, log_error s2 (rs_log_stdout s2) (os_errno s2) ''open error'')
                else (case log_create s2 (cf_pool s2) LOG_LEVEL_INFO
                         \<lparr>fl_fd = fd, fl_offset = mem_long (cm_mem s2) (file + 8), fl_name = xstring (default_logger_full_path s2)\<rparr> of
                    (lg, s3, pool3) \<Rightarrow>
                      let s4 = s3\<lparr>cf_pool := pool3\<rparr>
                      in if lg = None then (XPE_ERROR, log_error s4 (rs_log_stdout s4) 0 ''create default logger failed.'')
                         else (XPE_OK, s4)))"

section \<open>The running process\<close>

record env =
  ev_backtrace :: bool
  ev_localtime :: "int \<Rightarrow> tm"
  ev_clock :: "nat \<Rightarrow> int \<times> int"
  ev_term :: "nat \<Rightarrow> bool"
  ev_events :: "nat \<Rightarrow> (u32 \<times> addr) list"
  ev_peer :: "nat \<Rightarrow> byte list \<times> nat"

record proc =
  pc_net :: net
  pc_mods :: "system_module_t list"
  pc_stop :: int
  pc_default_logger :: "logger_t option"
  pc_timer :: timer
  pc_ticks :: nat

definition upd_net_state :: "(net \<Rightarrow> net) \<Rightarrow> proc \<Rightarrow> proc" where
  "upd_net_state f p = p\<lparr>pc_net := f (pc_net p)\<rparr>"

text \<open>
  \<open>setup_signals\<close> and \<open>init_main_mod\<close>.  \<open>bt\<close> tells whether the program is built with
  \<open>USE_BACKTRACE\<close>; only a build without it handles \<open>SIGTERM\<close>.
\<close>

fun sigactions :: "'a world_scheme \<Rightarrow> string list \<Rightarrow> int \<times> 'a world_scheme" where
  "sigactions s [] = (XPE_OK, s)"
| "sigactions s (sig # sigs) =
     (let (r, s1) = os_call s (Sys_sigaction sig) in if r = -1 then (XPE_ERROR, s1) else sigactions s1 sigs)"

definition setup_signals :: "bool \<Rightarrow> 'a world_scheme \<Rightarrow> int \<times> 'a world_scheme" where
  "setup_signals bt s =
     (let (_, s1) = os_call s (Sys_signal ''SIGHUP'');
          (_, s2) = os_call s1 (Sys_signal ''SIGPIPE'')
      in sigactions s2 (if bt then [''SIGSEGV'', ''SIGBUS'', ''SIGFPE'', ''SIGILL''] else [''SIGTERM'']))"

definition init_main_mod :: "bool \<Rightarrow> 'a world_scheme \<Rightarrow> int \<times> 'a world_scheme" where
  "init_main_mod bt s =
     (let (r, s1) = setup_signals bt s in if r = XPE_ERROR then (XPE_ERROR, s1) else (MOD_OK, s1))"

text \<open>\<open>sig_backtrace_handler\<close>; \<open>msgs\<close> is what \<open>backtrace_symbols\<close> returns.\<close>

definition sig_backtrace_handler :: "logger_t option \<Rightarrow> string list option \<Rightarrow> string \<Rightarrow> 'a world_scheme \<Rightarrow> 'a world_scheme" where
  "sig_backtrace_handler lg msgs sig s =
     (let s1 = (case msgs of None \<Rightarrow> s
                | Some ms \<Rightarrow> log_printf (foldl (\<lambda>s m. log_error s lg 0 m) s ms) ''aaaaaaaa'');
          (_, s2) = os_call s1 (Sys_sigaction sig);
          (_, s3) = os_call s2 Sys_getpid;
          (_, s4) = os_call s3 (Sys_kill sig)
      in s4)"

definition net_conf_of :: "mod_conf option \<Rightarrow> xpipe_net_mod_conf_t option" where
  "net_conf_of c = (case c of Some (Net_conf n) \<Rightarrow> Some n | _ \<Rightarrow> None)"

definition main_conf_of :: "mod_conf option \<Rightarrow> xpipe_main_mod_conf_t option" where
  "main_conf_of c = (case c of Some (Main_conf n) \<Rightarrow> Some n | _ \<Rightarrow> None)"

primrec call_init :: "bool \<Rightarrow> init_mod_fp \<Rightarrow> system_module_t \<Rightarrow> net \<Rightarrow> ub + (int \<times> net)" where
  "call_init bt init_main m s = Inr (init_main_mod bt s)"
| "call_init bt init_network m s = init_network_mod (net_conf_of (sm_conf m)) (sm_logger m) s"

fun init_mods :: "bool \<Rightarrow> system_module_t list \<Rightarrow> logger_t option \<Rightarrow> net \<Rightarrow> ub + (int \<times> net)" where
  "init_mods bt [] lg s = Inr (XPE_OK, s)"
| "init_mods bt (m # ms) lg s =
     sbind (case sm_init m of None \<Rightarrow> Inr (MOD_OK, s) | Some f \<Rightarrow> call_init bt f m s) (\<lambda>(r, s1).
     if r = MOD_ERROR then Inr (XPE_ERROR, s1)
     else init_mods bt ms lg (log_info s1 lg 0 ''module init successfully.''))"

definition system_modules_init :: "bool \<Rightarrow> proc \<Rightarrow> ub + (int \<times> proc)" where
  "system_modules_init bt p =
     sbind (init_mods bt (pc_mods p) (pc_default_logger p) (pc_net p)) (\<lambda>(r, s). Inr (r, p\<lparr>pc_net := s\<rparr>))"

text \<open>How a function ends that may end the process.\<close>

datatype outcome = Returns int | Exits int

definition detach_stdio :: "net \<Rightarrow> net" where
  "detach_stdio s =
     (let (fd, s1) = os_call s (Sys_open ''/dev/null'' FL_RDWR 0)
      in if fd \<noteq> -1 then
           let (_, s2) = os_call s1 (Sys_dup2 fd 0);
               (_, s3) = os_call s2 (Sys_dup2 fd 1);
               (_, s4) = os_call s3 (Sys_dup2 fd 2)
           in if fd > 2 then snd (os_close s4 fd) else s4
         else s1)"

text \<open>\<open>process_daemon\<close> also keeps the descriptor in the \<open>file_t\<close> of the pid file it is given.\<close>

definition process_daemon :: "nat \<Rightarrow> file_t \<Rightarrow> logger_t option \<Rightarrow> net \<Rightarrow> outcome \<times> file_t \<times> net" where
  "process_daemon daemon pid_file lg s =
     (if daemon = 0 then (Returns XPE_OK, pid_file, s)
      else
        let (pid, s1) = os_call s Sys_fork
        in if pid \<noteq> 0 then (Exits 0, pid_file, s1)
           else
             let (_, s2) = os_call s1 Sys_setsid;
                 s3 = detach_stdio s2;
                 (fd, s4) = os_call s3 (Sys_open (str_data (fl_name pid_file)) (FL_WRONLY OR FL_CREATE) 420);
                 pid_file1 = pid_file\<lparr>fl_fd := fd\<rparr>
             in if fd = FL_INVALID_FD then (Returns XPE_ERROR, pid_file1, log_error s4 lg (os_errno s4) ''Open error'')
                else
                  let (self, s5) = os_call s4 Sys_getpid;
                      buffer = fmt_d 0 self;
                      (n, s6) = os_write s5 fd buffer
                  in if n \<noteq> int (length buffer)
                     then (Returns XPE_ERROR, pid_file1, log_error s6 lg (os_errno s6) ''Write pid into file failed.'')
                     else (Returns XPE_OK, pid_file1, s6))"

section \<open>The main loop\<close>

primrec call_process :: "process_mod_fp \<Rightarrow> net \<Rightarrow> ub + (int \<times> net)" where
  "call_process process_network s = process_network_mod s"

fun process_mods :: "system_module_t list \<Rightarrow> logger_t option \<Rightarrow> net \<Rightarrow> ub + net" where
  "process_mods [] lg s = Inr s"
| "process_mods (m # ms) lg s =
     (case sm_process m of None \<Rightarrow> process_mods ms lg s
      | Some f \<Rightarrow> sbind (call_process f s) (\<lambda>(r, s1).
          process_mods ms lg (if r = MOD_ERROR then log_error s1 lg 0 ''process module failed.'' else s1)))"

definition sig_term_handler :: "proc \<Rightarrow> proc" where
  "sig_term_handler p =
     (upd_net_state (\<lambda>s. log_warn s (pc_default_logger p) 0 ''Receive SIGTERM signal, process will exit.'') p)
       \<lparr>pc_stop := 1\<rparr>"

text \<open>One round of the loop of \<open>system_modules_working\<close>; a signal that arrives in the round is
  handled before the loop condition is tested again.\<close>

definition work_round :: "env \<Rightarrow> proc \<Rightarrow> ub + proc" where
  "work_round e p =
     sbind (process_mods (pc_mods p) (pc_default_logger p) (pc_net p)) (\<lambda>s.
     sbind (timer_update (ev_localtime e) (ev_clock e (pc_ticks p)) (pc_timer p)) (\<lambda>t.
     let p1 = p\<lparr>pc_net := s, pc_timer := t, pc_ticks := Suc (pc_ticks p)\<rparr>
     in Inr (if ev_term e (pc_ticks p) \<and> \<not> ev_backtrace e then sig_term_handler p1 else p1)))"

partial_function (option) system_modules_working :: "env \<Rightarrow> proc \<Rightarrow> (ub + proc) option" where
  "system_modules_working e p =
     (if pc_stop p \<noteq> 0 then Some (Inr p)
      else case work_round e p of Inl u \<Rightarrow> Some (Inl u) | Inr p1 \<Rightarrow> system_modules_working e p1)"

section \<open>The function main\<close>

text \<open>The loop at the start of \<open>main\<close> that numbers the modules.\<close>

fun index_mods :: "nat \<Rightarrow> system_module_t list \<Rightarrow> system_module_t list" where
  "index_mods i [] = []"
| "index_mods i (m # ms) = m\<lparr>sm_index := int i\<rparr> # index_mods (Suc i) ms"

definition number_modules :: "prog \<Rightarrow> prog" where
  "number_modules s = s\<lparr>pg_mods := index_mods 0 sys_modules, rs_sys_mod_num := length sys_modules\<rparr>"

definition log_stdout_logger :: logger_t where
  "log_stdout_logger = \<lparr>lg_level = LOG_LEVEL_INFO, lg_file = None\<rparr>"

text \<open>From the start to the prepared modules.\<close>

definition main_prepare :: "prog \<Rightarrow> ub + (int \<times> prog)" where
  "main_prepare s =
     (sbind (conf_file_parser (number_modules s) log_stdout_logger) (\<lambda>(r, s2).
         if r = CONF_ERROR then Inr (XPE_ERROR, s2)
         else
           let s3 = s2\<lparr>rs_stop := 0, rs_log_stdout := Some log_stdout_logger,
                       rs_main_logger := sm_logger (pg_mods s2 ! 0)\<rparr>;
               (r2, s4) = create_default_logger s3
           in if r2 = XPE_ERROR then Inr (XPE_ERROR, s4)
              else
                let s5 = log_info s4 (rs_default_logger s4) 0
                           ''finish building resource, begin to prepare system modules.'';
                    (r3, s6) = sys_modules_prepare s5
                in if r3 = MOD_ERROR
                   then Inr (XPE_ERROR, log_error s6 (rs_default_logger s6) 0 ''prepare all system modules failed.'')
                   else Inr (XPE_OK, s6)))"

text \<open>The same process with the state of the network in place of that of the parser.\<close>

definition to_proc :: "env \<Rightarrow> timer \<Rightarrow> mem_pool_t \<Rightarrow> prog \<Rightarrow> proc" where
  "to_proc e t pool s =
     \<lparr>pc_net = world.extend (world.truncate s)
        \<lparr>os_events = ev_events e, os_peer = ev_peer e, nt_interest = [], nt_conns = (\<lambda>_. connection_zero),
         nt_bufs = (\<lambda>_. \<lparr>bf_buffer = NULL, bf_end = NULL, bf_last = NULL, bf_next = NULL\<rparr>),
         nt_server = \<lparr>sv_port = 0, sv_connections = 0, sv_sock_fd = -1, sv_connection_pool = NULL, sv_sin_port = 0,
           sv_nodelay = 0, sv_request_buf_size = 0, sv_logger = None\<rparr>,
         nt_driver = \<lparr>ed_io_ctx = \<lparr>ep_fd = -1, ep_events = NULL\<rparr>, ed_size = 0, ed_active_conns = NULL, ed_logger = None\<rparr>,
         nt_pool = pool\<rparr>,
      pc_mods = pg_mods s, pc_stop = rs_stop s, pc_default_logger = rs_default_logger s, pc_timer = t, pc_ticks = 1\<rparr>"

text \<open>From the initialisation of the modules to the start of the main loop.\<close>

definition main_init :: "bool \<Rightarrow> proc \<Rightarrow> ub + (outcome \<times> proc)" where
  "main_init bt p =
     sbind (system_modules_init bt p) (\<lambda>(r, p1).
     if r = XPE_ERROR then Inr (Returns XPE_ERROR, p1)
     else case main_conf_of (sm_conf (pc_mods p1 ! 0)) of
         None \<Rightarrow> Inl Null_deref
       | Some cf \<Rightarrow>
           (case process_daemon (mc_daemon cf) (mc_pid_file cf) (pc_default_logger p1) (pc_net p1) of
              (out, f, s) \<Rightarrow>
                Inr (out, p1\<lparr>pc_net := s, pc_mods := (pc_mods p1)[0 := (pc_mods p1 ! 0)
                       \<lparr>sm_conf := Some (Main_conf (cf\<lparr>mc_pid_file := f\<rparr>))\<rparr>]\<rparr>)))"

text \<open>From the initialisation of the modules to the end.\<close>

definition main_run :: "env \<Rightarrow> proc \<Rightarrow> ub + int" where
  "main_run e p =
     sbind (main_init (ev_backtrace e) p) (\<lambda>(out, p').
     case out of
       Exits c \<Rightarrow> Inr c
     | Returns c \<Rightarrow>
         if c = XPE_ERROR then Inr XPE_ERROR
         else (case system_modules_working e p' of
             None \<Rightarrow> Inl Diverges
           | Some (Inl u) \<Rightarrow> Inl u
           | Some (Inr p2) \<Rightarrow> Inr 0))"

definition main_function :: "env \<Rightarrow> timer \<Rightarrow> prog \<Rightarrow> ub + int" where
  "main_function e t0 s =
     sbind (timer_init (ev_localtime e) (ev_clock e 0) t0) (\<lambda>t.
     sbind (main_prepare s) (\<lambda>(r, s1).
     if r = XPE_ERROR then Inr XPE_ERROR
     else case sm_pool (pg_mods s1 ! 1) of None \<Rightarrow> Inl Null_deref
     | Some pool \<Rightarrow>
         main_run e (to_proc e t pool s1)))"

end
