(* ===== verification/Serving.thy ===== *)
theory Serving
  imports EventLoop
begin

text \<open>
  The life of a request on one connection: the response that leaves through
  \<open>tcp_server_send\<close>, and a request that arrives in pieces.
\<close>

section \<open>Sending\<close>

text \<open>The three ways in which the send loop leaves a connection.\<close>

definition finish_req :: "tcp_connection_t \<Rightarrow> tcp_connection_t" where
  "finish_req k = k\<lparr>cn_request := map_option (\<lambda>r. r\<lparr>rq_finish := 1\<rparr>) (cn_request k)\<rparr>"

definition sent_all :: "tcp_connection_t \<Rightarrow> tcp_connection_t" where
  "sent_all k = finish_req (if cn_events k AND EV_WRITE_EVENT \<noteq> 0
     then k\<lparr>cn_dead_events := EV_WRITE_EVENT, cn_write_handler := None\<rparr> else k)"

definition sent_later :: "tcp_connection_t \<Rightarrow> tcp_connection_t" where
  "sent_later k = k\<lparr>cn_add_events := EV_WRITE_EVENT\<rparr>"

definition sent_fail :: "tcp_connection_t \<Rightarrow> tcp_connection_t" where
  "sent_fail k = finish_req (k\<lparr>cn_dead_events := EV_READ_EVENT OR EV_WRITE_EVENT, cn_close := 1\<rparr>)"

text \<open>The bytes that a buffer has still to send.\<close>

definition pending :: "net \<Rightarrow> addr \<Rightarrow> byte list" where
  "pending s b = mem_bytes (cm_mem s) (bf_buffer (nt_bufs s b)) (bf_last (nt_bufs s b) - bf_buffer (nt_bufs s b))"

definition sends :: "net \<Rightarrow> addr \<Rightarrow> addr \<Rightarrow> net \<Rightarrow> bool" where
  "sends s c b s' \<longleftrightarrow>
     cm_mem s' = cm_mem s \<and> cm_live s' = cm_live s \<and> nt_server s' = nt_server s \<and> nt_driver s' = nt_driver s \<and>
     nt_interest s' = nt_interest s \<and> nt_pool s' = nt_pool s \<and> os_fail s' = os_fail s \<and>
     (\<exists>tr k. os_trace s' = os_trace s @ tr \<and> k \<le> length (pending s b) \<and>
        written_to (cn_fd (nt_conns s c)) tr = take k (pending s b) \<and>
        nt_bufs s' = (nt_bufs s)(b := (nt_bufs s b)\<lparr>bf_buffer := bf_buffer (nt_bufs s b) + k\<rparr>) \<and>
        (nt_conns s' = (nt_conns s)(c := sent_all (nt_conns s c)) \<and> k = length (pending s b) \<or>
         nt_conns s' = (nt_conns s)(c := sent_later (nt_conns s c)) \<or>
         nt_conns s' = (nt_conns s)(c := sent_fail (nt_conns s c))))"

lemma upd_req_sel [frame_simps]:
  "nt_conns (upd_req c f s) = (nt_conns s)(c := (nt_conns s c)\<lparr>cn_request := map_option f (cn_request (nt_conns s c))\<rparr>)"
  "cm_mem (upd_req c f s) = cm_mem s" "cm_live (upd_req c f s) = cm_live s"
  "os_answer (upd_req c f s) = os_answer s" "os_fail (upd_req c f s) = os_fail s"
  "os_input (upd_req c f s) = os_input s" "os_calls (upd_req c f s) = os_calls s"
  "os_errno (upd_req c f s) = os_errno s" "os_trace (upd_req c f s) = os_trace s"
  "nt_interest (upd_req c f s) = nt_interest s" "nt_bufs (upd_req c f s) = nt_bufs s"
  "nt_server (upd_req c f s) = nt_server s" "nt_driver (upd_req c f s) = nt_driver s"
  "nt_pool (upd_req c f s) = nt_pool s"
  by (simp_all add: upd_req_def frame_simps)

lemmas log_error_net_sel [frame_simps] = net_more [OF log_more(1)] net_more [OF log_more(2)] net_more [OF log_more(3)]

lemmas mem_net_sel [frame_simps] = net_more [OF mem_more(1)] net_more [OF mem_more(2)] net_more [OF mem_more(3)]

lemma mem_bytes_drop: "mem_bytes m (a + k) n = drop k (mem_bytes m a (k + n))"
  by (simp add: mem_bytes_add)

text \<open>One round of the loop in which the kernel takes some but not all bytes.\<close>

lemma sends_step:
  assumes "k \<le> length (pending s b)"
    and s1: "s1 = upd_buf b (\<lambda>x. x\<lparr>bf_buffer := bf_buffer x + k\<rparr>)
        (os_done s (Sys_write (cn_fd (nt_conns s c)) (pending s b)) (int k))"
    and r: "sends s1 c b s'"
  shows "sends s c b s'"
proof -
  have p: "pending s1 b = drop k (pending s b)"
  proof -
    have "k + (bf_last (nt_bufs s b) - (bf_buffer (nt_bufs s b) + k)) = bf_last (nt_bufs s b) - bf_buffer (nt_bufs s b)"
      using assms(1) by (simp add: pending_def)
    then show ?thesis
      using mem_bytes_drop [of "cm_mem s" "bf_buffer (nt_bufs s b)" k] by (simp add: s1 pending_def frame_simps)
  qed
  obtain tr j where h: "os_trace s' = os_trace s1 @ tr" "j \<le> length (pending s1 b)"
    "written_to (cn_fd (nt_conns s1 c)) tr = take j (pending s1 b)"
    "nt_bufs s' = (nt_bufs s1)(b := (nt_bufs s1 b)\<lparr>bf_buffer := bf_buffer (nt_bufs s1 b) + j\<rparr>)"
    "nt_conns s' = (nt_conns s1)(c := sent_all (nt_conns s1 c)) \<and> j = length (pending s1 b) \<or>
     nt_conns s' = (nt_conns s1)(c := sent_later (nt_conns s1 c)) \<or>
     nt_conns s' = (nt_conns s1)(c := sent_fail (nt_conns s1 c))"
    using r unfolding sends_def by blast
  have t: "take (k + j) (pending s b) = take k (pending s b) @ take j (drop k (pending s b))" by (simp add: take_add)
  have f: "cm_mem s1 = cm_mem s" "cm_live s1 = cm_live s" "nt_server s1 = nt_server s" "nt_driver s1 = nt_driver s"
    "nt_interest s1 = nt_interest s" "nt_pool s1 = nt_pool s" "os_fail s1 = os_fail s" "nt_conns s1 = nt_conns s"
    "os_trace s1 = os_trace s @ [(Sys_write (cn_fd (nt_conns s c)) (pending s b), int k)]"
    "nt_bufs s1 = (nt_bufs s)(b := (nt_bufs s b)\<lparr>bf_buffer := bf_buffer (nt_bufs s b) + k\<rparr>)"
    by (simp_all add: s1 frame_simps)
  have g: "cm_mem s' = cm_mem s \<and> cm_live s' = cm_live s \<and> nt_server s' = nt_server s \<and> nt_driver s' = nt_driver s \<and>
     nt_interest s' = nt_interest s \<and> nt_pool s' = nt_pool s \<and> os_fail s' = os_fail s"
    using r f(1-7) by (simp add: sends_def)
  note h1 = h [unfolded p f(8-10)]
  show ?thesis
    unfolding sends_def
    using g h1 assms(1) t
    by (intro conjI exI [of _ "(Sys_write (cn_fd (nt_conns s c)) (pending s b), int k) # tr"] exI [of _ "k + j"])
      (auto simp: add.assoc)
qed

lemma os_send_range:
  assumes "os_send s fd bs = (n, s1)"
  shows "-1 \<le> n" "n \<le> int (length bs)" "n = 0 \<longrightarrow> bs = []" "s1 = os_done s (Sys_write fd bs) n"
  using assms by (cases bs; auto simp: os_send_def Let_def split: if_splits)+

lemma send_loop_unfold:
  assumes "bf_buffer (nt_bufs s b) \<le> bf_last (nt_bufs s b)" "bf_last (nt_bufs s b) < bf_buffer (nt_bufs s b) + size_mod"
    and "os_send s (cn_fd (nt_conns s c)) (pending s b) = (n, s1)"
  shows "send_loop s c b =
    (if n = -1 then Some (if os_errno s1 = EAGAIN
        then upd_conn c (\<lambda>k. k\<lparr>cn_add_events := EV_WRITE_EVENT\<rparr>) s1
        else upd_req c (\<lambda>r. r\<lparr>rq_finish := 1\<rparr>)
           (upd_conn c (\<lambda>k. k\<lparr>cn_dead_events := EV_READ_EVENT OR EV_WRITE_EVENT, cn_close := 1\<rparr>)
             (log_error s1 (cn_logger (nt_conns s1 c)) 0 ''Connection is error, will close it.'')))
     else let s2 = upd_buf b (\<lambda>k. k\<lparr>bf_buffer := bf_buffer k + nat n\<rparr>) s1
       in if bf_buffer (nt_bufs s2 b) = bf_last (nt_bufs s2 b)
          then Some (upd_req c (\<lambda>r. r\<lparr>rq_finish := 1\<rparr>)
            (if cn_events (nt_conns s2 c) AND EV_WRITE_EVENT \<noteq> 0
             then upd_conn c (\<lambda>k. k\<lparr>cn_dead_events := EV_WRITE_EVENT, cn_write_handler := None\<rparr>) s2 else s2))
          else send_loop s2 c b)"
proof -
  have room: "to_size_t (int (bf_last (nt_bufs s b)) - int (bf_buffer (nt_bufs s b))) =
      bf_last (nt_bufs s b) - bf_buffer (nt_bufs s b)"
    using assms(1,2) by (simp add: to_size_t_nonneg nat_diff_distrib)
  show ?thesis
    using send_loop.simps [of s c b, unfolded Let_def room, folded pending_def, unfolded assms(3) prod.case]
    by (simp add: Let_def)
qed

text \<open>The two ways in which one call ends the loop.\<close>

lemma sends_failed:
  assumes "os_send s (cn_fd (nt_conns s c)) (pending s b) = (-1, s1)"
  shows "sends s c b (if os_errno s1 = EAGAIN
        then upd_conn c (\<lambda>k. k\<lparr>cn_add_events := EV_WRITE_EVENT\<rparr>) s1
        else upd_req c (\<lambda>r. r\<lparr>rq_finish := 1\<rparr>)
           (upd_conn c (\<lambda>k. k\<lparr>cn_dead_events := EV_READ_EVENT OR EV_WRITE_EVENT, cn_close := 1\<rparr>)
             (log_error s1 (cn_logger (nt_conns s1 c)) 0 ''Connection is error, will close it.'')))"
  unfolding sends_def
  by (intro conjI exI [of _ "[(Sys_write (cn_fd (nt_conns s c)) (pending s b), -1)]"] exI [of _ 0])
    (auto simp: os_send_range(4) [OF assms] frame_simps sent_later_def sent_fail_def finish_req_def)

lemma sends_all:
  assumes "os_send s (cn_fd (nt_conns s c)) (pending s b) = (n, s1)" "nat n = length (pending s b)" "n \<noteq> -1"
    and "s2 = upd_buf b (\<lambda>k. k\<lparr>bf_buffer := bf_buffer k + nat n\<rparr>) s1"
  shows "sends s c b (upd_req c (\<lambda>r. r\<lparr>rq_finish := 1\<rparr>)
          (if cn_events (nt_conns s2 c) AND EV_WRITE_EVENT \<noteq> 0
           then upd_conn c (\<lambda>k. k\<lparr>cn_dead_events := EV_WRITE_EVENT, cn_write_handler := None\<rparr>) s2 else s2))"
  unfolding sends_def
  by (intro conjI exI [of _ "[(Sys_write (cn_fd (nt_conns s c)) (pending s b), n)]"] exI [of _ "nat n"])
    (auto simp: assms(2-4) os_send_range(4) [OF assms(1)] frame_simps sent_all_def finish_req_def)

lemma send_loop_sends:
  assumes "bf_buffer (nt_bufs s b) \<le> bf_last (nt_bufs s b)" "bf_last (nt_bufs s b) < bf_buffer (nt_bufs s b) + size_mod"
  shows "\<exists>s'. send_loop s c b = Some s' \<and> sends s c b s'"
  using assms
proof (induction "bf_last (nt_bufs s b) - bf_buffer (nt_bufs s b)" arbitrary: s rule: less_induct)
  case less
  let ?buf = "nt_bufs s b"
  obtain n s1 where o: "os_send s (cn_fd (nt_conns s c)) (pending s b) = (n, s1)" by fastforce
  note n = os_send_range [OF o]
  have len: "length (pending s b) = bf_last ?buf - bf_buffer ?buf" by (simp add: pending_def)
  define s2 where "s2 = upd_buf b (\<lambda>k. k\<lparr>bf_buffer := bf_buffer k + nat n\<rparr>) s1"
  have b2: "bf_buffer (nt_bufs s2 b) = bf_buffer ?buf + nat n" "bf_last (nt_bufs s2 b) = bf_last ?buf"
    by (simp_all add: s2_def n(4) frame_simps)
  note unf = send_loop_unfold [OF less.prems o, folded s2_def, unfolded Let_def]
  consider (failed) "n = -1" | (all) "n \<noteq> -1" "bf_buffer (nt_bufs s2 b) = bf_last (nt_bufs s2 b)"
    | (more) "n \<noteq> -1" "bf_buffer (nt_bufs s2 b) \<noteq> bf_last (nt_bufs s2 b)" by blast
  then show ?case
  proof cases
    case failed
    with unf sends_failed [OF o [unfolded failed]] show ?thesis by (simp split del: if_split)
  next
    case all
    then have "nat n = length (pending s b)" using b2 len by simp
    from sends_all [OF o this all(1) s2_def] unf all show ?thesis by (simp split del: if_split)
  next
    case more
    then have k: "nat n \<le> length (pending s b)" "int (nat n) = n" using n by auto
    have "0 < nat n" using n(1,3) more len less.prems b2 by (cases "n = 0") auto
    then have "bf_last (nt_bufs s2 b) - bf_buffer (nt_bufs s2 b) < bf_last ?buf - bf_buffer ?buf"
      using b2 k len by simp
    moreover have "bf_buffer (nt_bufs s2 b) \<le> bf_last (nt_bufs s2 b)" "bf_last (nt_bufs s2 b) < bf_buffer (nt_bufs s2 b) + size_mod"
      using b2 k len less.prems by auto
    ultimately obtain s' where s': "send_loop s2 c b = Some s'" "sends s2 c b s'" using less.hyps by blast
    have "sends s c b s'" using sends_step [OF k(1) _ s'(2)] k(2) by (simp add: s2_def n(4))
    with unf more s'(1) show ?thesis by simp
  qed
qed

section \<open>A new request\<close>

lemma pmalloc_first_chunk:
  assumes "mp_chunks p = [c]" "mp_current p = 0" "sz \<le> mp_max p" "ck_last c + sz \<le> ck_end c" "ck_end c < size_mod"
  shows "pmalloc w p sz = (ck_last c, w, p\<lparr>mp_chunks := [c\<lparr>ck_last := ck_last c + sz\<rparr>]\<rparr>)"
proof -
  have "chunk_room c = ck_end c - ck_last c"
    using assms(4,5) by (simp add: chunk_room_def to_size_t_nonneg nat_diff_distrib)
  moreover have "sz \<le> ck_end c - ck_last c" using assms(4) by simp
  ultimately show ?thesis using assms(1-3) by (simp add: pmalloc_def pmalloc_small_def)
qed

text \<open>
  The request of a connection: its buffers and its protocol structure lie one after the other
  in the first chunk of its pool, which is one block of memory.
\<close>

definition request_ready :: "net \<Rightarrow> addr \<Rightarrow> block list \<Rightarrow> nat \<Rightarrow> tcp_request_t \<Rightarrow> bool" where
  "request_ready s c L n rq \<longleftrightarrow> cn_request (nt_conns s c) = Some rq \<and> rq_error rq = 0 \<and> rq_finish rq = 0 \<and>
     mp_large (rq_pool rq) = [] \<and> tl (mp_chunks (rq_pool rq)) = [] \<and> 
     cm_live s = (mp_self (rq_pool rq), REQUEST_POOL_SIZE) # L \<and> mp_self (rq_pool rq) \<noteq> NULL \<and>
     mp_self (rq_pool rq) \<notin> fst ` set L \<and>
     rq_response rq \<noteq> rq_last_buffer rq \<and>
     bf_end (nt_bufs s (rq_last_buffer rq)) = bf_buffer (nt_bufs s (rq_last_buffer rq)) + n \<and>
     bf_end (nt_bufs s (rq_last_buffer rq)) \<le> addr_top \<and>
     bf_last (nt_bufs s (rq_response rq)) = bf_buffer (nt_bufs s (rq_response rq)) \<and>
     bf_buffer (nt_bufs s (rq_response rq)) + n \<le> addr_top \<and>
     bf_end (nt_bufs s (rq_response rq)) = bf_buffer (nt_bufs s (rq_response rq)) + n"

lemma tcp_request_init_ready:
  assumes n: "n = clamp_buf_size (sv_request_buf_size (nt_server s))" "n \<le> 4064"
    and p: "mem_pool_create s ''request'' REQUEST_POOL_SIZE (cn_logger (nt_conns s c)) = (Some pool, s1)"
  shows "\<exists>rq s'. tcp_request_init s c = (Some rq, s') \<and> request_ready s' c (cm_live s) n rq \<and>
    rq_protocol rq = protocol_zero \<and> bf_last (nt_bufs s' (rq_last_buffer rq)) = bf_buffer (nt_bufs s' (rq_last_buffer rq)) \<and>
    cn_fd (nt_conns s' c) = cn_fd (nt_conns s c) \<and> os_answer s' = os_answer s \<and> os_input s' = os_input s \<and>
    os_calls s' = os_calls s \<and> os_trace s' = os_trace s \<and>
    nt_conns s' = (nt_conns s)(c := (nt_conns s c)\<lparr>cn_request := Some rq\<rparr>)"
proof -
  note m = net_more [OF mem_pool_create_more [OF p]]
  note C = mem_pool_create_Some [OF p]
  define P where "P = mp_self pool"
  have f: "fresh_block (cm_live s) P REQUEST_POOL_SIZE" "P \<noteq> NULL" "cm_live s1 = (P, REQUEST_POOL_SIZE) # cm_live s"
    using C(1,2) by (auto elim!: malloc_cases simp: P_def)
  have P: "P \<noteq> NULL" "P + REQUEST_POOL_SIZE \<le> addr_top" "P \<notin> fst ` set (cm_live s)"
    using f(1,2) by (auto simp: fresh_block_def list_all_iff apart_def blk_end_def)
  note C' = C(3-8) [folded P_def]
  have top: "P + REQUEST_POOL_SIZE < size_mod" using P(2) by (simp add: addr_top_def)
  have n1: "1024 \<le> n" using n(1) by (simp add: clamp_buf_size_def)
  show ?thesis
    using P f(3) n1 n(2) top C'
    by (simp add: P_def [symmetric] tcp_request_init_def Let_def p pmalloc_first_chunk protocol_init_def pcalloc_def frame_simps
        sizeof_defs sizeof_buffer_t_def sizeof_tcp_request_t_def sizeof_protocol_t_def offsetof_chunk_def m n(1) [symmetric]
        new_buffer_def request_ready_def)
qed

section \<open>A request that arrives in pieces\<close>

text \<open>
  The connection has received \<open>xs\<close> and waits for more: the bytes are in the buffer and the
  protocol structure and the memory are what one parse of \<open>xs\<close> leaves.
\<close>

definition receiving :: "net \<Rightarrow> addr \<Rightarrow> block list \<Rightarrow> nat \<Rightarrow> byte list \<Rightarrow> bool" where
  "receiving s c L n xs \<longleftrightarrow> (\<exists>rq m. request_ready s c L n rq \<and>
     (let b = rq_last_buffer rq; buf = nt_bufs s b
      in bf_last buf = bf_buffer buf + length xs \<and> holds m (bf_buffer buf) xs \<and>
         protocol_parse b m protocol_zero (bf_buffer buf) (bf_buffer buf + length xs) = (PROTOCOL_OK, rq_protocol rq, cm_mem s)))"

lemma parse_nothing: "protocol_parse lb m protocol_zero a a = (PROTOCOL_OK, protocol_zero, m)"
  by (simp add: protocol_parse_def parse_end_def Let_def protocol_zero_def)

lemma receiving_start:
  "request_ready s c L n rq \<Longrightarrow> rq_protocol rq = protocol_zero \<Longrightarrow>
   bf_last (nt_bufs s (rq_last_buffer rq)) = bf_buffer (nt_bufs s (rq_last_buffer rq)) \<Longrightarrow> receiving s c L n []"
  unfolding receiving_def Let_def
  by (intro exI [of _ rq] exI [of _ "cm_mem s"]) (simp add: parse_nothing)

text \<open>The state after the bytes have been read and parsed, before the result is acted on.\<close>

definition parsed :: "net \<Rightarrow> addr \<Rightarrow> tcp_request_t \<Rightarrow> byte list \<Rightarrow> protocol_t \<Rightarrow> (addr \<Rightarrow> byte) \<Rightarrow> net" where
  "parsed s c rq bs pro m = upd_buf (rq_last_buffer rq) (\<lambda>k. k\<lparr>bf_last := bf_last k + length bs\<rparr>)
     (upd_req c (\<lambda>r. r\<lparr>rq_protocol := pro\<rparr>) (s\<lparr>cm_mem := m\<rparr>))"

lemma recv_data_parsed:
  assumes "request_ready s c L n rq" "bf_last (nt_bufs s (rq_last_buffer rq)) = bf_buffer (nt_bufs s (rq_last_buffer rq)) + length xs"
    and "holds m (bf_buffer (nt_bufs s (rq_last_buffer rq))) xs"
    and "protocol_parse (rq_last_buffer rq) m protocol_zero (bf_buffer (nt_bufs s (rq_last_buffer rq)))
       (bf_buffer (nt_bufs s (rq_last_buffer rq)) + length xs) = (PROTOCOL_OK, rq_protocol rq, cm_mem s)"
    and len: "length (xs @ bs) \<le> n"
  shows "\<exists>pro m2 m'. recv_data s c rq bs = sbind (tcp_request_process (parsed s c rq bs pro m2) c (spec_parse (xs @ bs))) (\<lambda>(_, s4). Inr (TCP_SRV_OK, s4)) \<and>
     holds m' (bf_buffer (nt_bufs s (rq_last_buffer rq))) (xs @ bs) \<and>
     (spec_parse (xs @ bs) = PROTOCOL_OK \<longrightarrow>
        protocol_parse (rq_last_buffer rq) m' protocol_zero (bf_buffer (nt_bufs s (rq_last_buffer rq)))
          (bf_buffer (nt_bufs s (rq_last_buffer rq)) + length (xs @ bs)) = (PROTOCOL_OK, pro, m2)) \<and>
     pr_type pro = pr_type (fst (snd (protocol_parse (rq_last_buffer rq) m' protocol_zero (bf_buffer (nt_bufs s (rq_last_buffer rq)))
          (bf_buffer (nt_bufs s (rq_last_buffer rq)) + length (xs @ bs)))))"
proof -
  let ?b = "rq_last_buffer rq" let ?s0 = "bf_buffer (nt_bufs s (rq_last_buffer rq))"
  let ?q = "?s0 + length xs"
  have top: "?s0 + length (xs @ bs) \<le> addr_top" using assms(1) len by (simp add: request_ready_def)
  obtain r pro m2 where p: "protocol_parse ?b (paste ?q bs (cm_mem s)) (rq_protocol rq) ?q (?q + length bs) = (r, pro, m2)"
    using prod_cases3 by blast
  note M = parse_more [OF assms(3) top assms(4) refl refl p]
  have w: "cm_mem (write_bytes s ?q bs) = paste ?q bs (cm_mem s)" by (rule write_bytes_paste)
  have e: "(write_bytes s ?q bs)\<lparr>cm_mem := m2\<rparr> = s\<lparr>cm_mem := m2\<rparr>" by (simp add: write_bytes_def)
  have "recv_data s c rq bs = sbind (tcp_request_process (parsed s c rq bs pro m2) c r) (\<lambda>(_, s4). Inr (TCP_SRV_OK, s4))"
    unfolding recv_data_def Let_def assms(2) w p prod.case parsed_def e ..
  then show ?thesis using M by (intro exI [of _ pro] exI [of _ m2] exI [of _ "paste ?q bs m"]) auto
qed

lemma request_ready_cong:
  assumes "cn_request (nt_conns s' c) = cn_request (nt_conns s c)" "cm_live s' = cm_live s" "nt_bufs s' = nt_bufs s"
  shows "request_ready s' c L n rq = request_ready s c L n rq"
  by (simp add: request_ready_def assms)

lemma request_ready_parsed:
  "request_ready s c L n rq \<Longrightarrow> request_ready (parsed s c rq bs pro m) c L n (rq\<lparr>rq_protocol := pro\<rparr>)"
  by (simp add: request_ready_def parsed_def frame_simps)

text \<open>What the handler needs of the kernel for one piece, and what it leaves.\<close>

definition gives :: "net \<Rightarrow> byte list \<Rightarrow> bool" where
  "gives s bs \<longleftrightarrow> 0 \<le> os_answer s (os_calls s) \<and> os_input s (os_calls s) = bs"

definition after_call :: "net \<Rightarrow> addr \<Rightarrow> net \<Rightarrow> bool" where
  "after_call s c s' \<longleftrightarrow> os_answer s' = os_answer s \<and> os_input s' = os_input s \<and> os_fail s' = os_fail s \<and> os_calls s' = Suc (os_calls s) \<and>
     cn_fd (nt_conns s' c) = cn_fd (nt_conns s c) \<and> cn_close (nt_conns s' c) = cn_close (nt_conns s c) \<and>
     cn_add_events (nt_conns s' c) = cn_add_events (nt_conns s c) \<and> (\<exists>k j. os_trace s' = os_trace s @ [(Sys_read (cn_fd (nt_conns s c)) k, j)])"

lemma recv_reads:
  assumes R: "request_ready s c L n rq" and last: "bf_last (nt_bufs s (rq_last_buffer rq)) = bf_buffer (nt_bufs s (rq_last_buffer rq)) + k"
    and g: "gives s bs" "bs \<noteq> []" "k + length bs \<le> n"
  shows "tcp_server_recv s c = recv_data (os_done s (Sys_read (cn_fd (nt_conns s c)) (n - k)) (int (length bs))) c rq bs"
proof -
  have room: "to_size_t (int (bf_end (nt_bufs s (rq_last_buffer rq))) - int (bf_last (nt_bufs s (rq_last_buffer rq)))) = n - k"
    using R last g(3) by (simp add: request_ready_def to_size_t_nonneg addr_top_def nat_diff_distrib)
  have rq: "cn_request (nt_conns s c) = Some rq" using R by (simp add: request_ready_def)
  have "take (n - k) bs = bs" using g(3) by simp
  then have "os_read s (cn_fd (nt_conns s c)) (n - k) =
      (Some bs, os_done s (Sys_read (cn_fd (nt_conns s c)) (n - k)) (int (length bs)))"
    using g(1) by (simp add: os_read_def gives_def Let_def)
  with rq room g(2) show ?thesis by (simp add: tcp_server_recv_def Let_def)
qed

text \<open>One piece: it is read, parsed, and the result is handed on.\<close>

lemma recv_split:
  assumes R: "receiving s c L n xs" and g: "gives s bs" "bs \<noteq> []" "length (xs @ bs) \<le> n"
  obtains s2 rq m where
    "tcp_server_recv s c = sbind (tcp_request_process s2 c (spec_parse (xs @ bs))) (\<lambda>(_, s4). Inr (TCP_SRV_OK, s4))"
    "request_ready s2 c L n rq" "after_call s c s2"
    "bf_last (nt_bufs s2 (rq_last_buffer rq)) = bf_buffer (nt_bufs s2 (rq_last_buffer rq)) + length (xs @ bs)"
    "spec_parse (xs @ bs) = PROTOCOL_OK \<Longrightarrow> receiving s2 c L n (xs @ bs)"
    "holds m (bf_buffer (nt_bufs s2 (rq_last_buffer rq))) (xs @ bs)"
    "pr_type (rq_protocol rq) = pr_type (fst (snd (protocol_parse (rq_last_buffer rq) m protocol_zero
       (bf_buffer (nt_bufs s2 (rq_last_buffer rq))) (bf_buffer (nt_bufs s2 (rq_last_buffer rq)) + length (xs @ bs)))))"
proof -
  obtain rq m where h: "request_ready s c L n rq"
    "bf_last (nt_bufs s (rq_last_buffer rq)) = bf_buffer (nt_bufs s (rq_last_buffer rq)) + length xs"
    "holds m (bf_buffer (nt_bufs s (rq_last_buffer rq))) xs"
    "protocol_parse (rq_last_buffer rq) m protocol_zero (bf_buffer (nt_bufs s (rq_last_buffer rq)))
       (bf_buffer (nt_bufs s (rq_last_buffer rq)) + length xs) = (PROTOCOL_OK, rq_protocol rq, cm_mem s)"
    using R unfolding receiving_def Let_def by blast
  define s1 where "s1 = os_done s (Sys_read (cn_fd (nt_conns s c)) (n - length xs)) (int (length bs))"
  have f: "nt_bufs s1 = nt_bufs s" "nt_conns s1 = nt_conns s" "cm_mem s1 = cm_mem s" "cm_live s1 = cm_live s"
    by (simp_all add: s1_def frame_simps)
  have r1: "request_ready s1 c L n rq" using h(1) request_ready_cong [of s1 c s] f by simp
  have recv: "tcp_server_recv s c = recv_data s1 c rq bs"
    unfolding s1_def using recv_reads [OF h(1,2) g(1,2)] g(3) by simp
  let ?s0 = "bf_buffer (nt_bufs s (rq_last_buffer rq))"
  obtain pro m2 m' where d:
    "recv_data s1 c rq bs = sbind (tcp_request_process (parsed s1 c rq bs pro m2) c (spec_parse (xs @ bs))) (\<lambda>(_, s4). Inr (TCP_SRV_OK, s4))"
    "holds m' ?s0 (xs @ bs)"
    "spec_parse (xs @ bs) = PROTOCOL_OK \<longrightarrow>
       protocol_parse (rq_last_buffer rq) m' protocol_zero ?s0 (?s0 + length (xs @ bs)) = (PROTOCOL_OK, pro, m2)"
    "pr_type pro = pr_type (fst (snd (protocol_parse (rq_last_buffer rq) m' protocol_zero ?s0 (?s0 + length (xs @ bs)))))"
    using recv_data_parsed [OF r1, of xs m bs] h(2-4) g(3) unfolding f by blast
  define s2 rq2 where "s2 = parsed s1 c rq bs pro m2" and "rq2 = rq\<lparr>rq_protocol := pro\<rparr>"
  have r2: "request_ready s2 c L n rq2" unfolding s2_def rq2_def by (rule request_ready_parsed [OF r1])
  have b2: "nt_bufs s2 (rq_last_buffer rq2) = (nt_bufs s (rq_last_buffer rq))\<lparr>bf_last := ?s0 + length (xs @ bs)\<rparr>"
    using h(2) f by (simp add: s2_def rq2_def parsed_def frame_simps)
  have lb: "rq_last_buffer rq2 = rq_last_buffer rq" "rq_protocol rq2 = pro" "cm_mem s2 = m2"
    by (simp_all add: rq2_def s2_def parsed_def frame_simps)
  have "receiving s2 c L n (xs @ bs)" if "spec_parse (xs @ bs) = PROTOCOL_OK"
    unfolding receiving_def Let_def using r2 b2 d(2,3) lb that
    by (intro exI [of _ rq2] exI [of _ m']) simp
  moreover have "after_call s c s2"
    unfolding after_call_def by (auto simp: s2_def s1_def parsed_def frame_simps)
  ultimately show thesis
    using that [of s2 rq2 m'] recv d(1,2,4) r2 b2 lb by (simp flip: s2_def)
qed

text \<open>A piece after which the request is still incomplete.\<close>

lemma recv_more:
  assumes R: "receiving s c L n xs" and g: "gives s bs" "bs \<noteq> []" "length (xs @ bs) < n"
    and ok: "spec_parse (xs @ bs) = PROTOCOL_OK"
  shows "\<exists>s'. tcp_server_recv s c = Inr (TCP_SRV_OK, s') \<and> receiving s' c L n (xs @ bs) \<and> after_call s c s'"
proof -
  obtain s2 rq where s2: "tcp_server_recv s c = sbind (tcp_request_process s2 c PROTOCOL_OK) (\<lambda>(_, s4). Inr (TCP_SRV_OK, s4))"
    "request_ready s2 c L n rq" "after_call s c s2" "receiving s2 c L n (xs @ bs)"
    "bf_last (nt_bufs s2 (rq_last_buffer rq)) = bf_buffer (nt_bufs s2 (rq_last_buffer rq)) + length (xs @ bs)"
    using recv_split [OF R g(1,2)] g(3) ok by (metis less_imp_le)
  have "tcp_request_process s2 c PROTOCOL_OK = Inr (TCP_SRV_OK, s2)"
    using s2(2,5) g(3) by (simp add: tcp_request_process_def request_ready_def Let_def)
  with s2 show ?thesis by auto
qed

text \<open>The kernel takes everything that is pending in one call.\<close>

lemma send_loop_once:
  assumes "bf_buffer (nt_bufs s b) < bf_last (nt_bufs s b)" "bf_last (nt_bufs s b) < size_mod"
    and "int (length (pending s b)) \<le> os_answer s (os_calls s)"
  shows "\<exists>s'. send_loop s c b = Some s' \<and> nt_conns s' = (nt_conns s)(c := sent_all (nt_conns s c)) \<and>
    cm_live s' = cm_live s \<and> os_trace s' = os_trace s @ [(Sys_write (cn_fd (nt_conns s c)) (pending s b), int (length (pending s b)))]"
proof -
  let ?buf = "nt_bufs s b"
  have room: "to_size_t (int (bf_last ?buf) - int (bf_buffer ?buf)) = bf_last ?buf - bf_buffer ?buf"
    using assms(1,2) by (simp add: to_size_t_nonneg nat_diff_distrib)
  define k where "k = length (pending s b)"
  have len: "bf_buffer ?buf + k = bf_last ?buf" "pending s b \<noteq> []" using assms(1) by (auto simp: pending_def k_def simp flip: length_greater_0_conv)
  have o: "os_send s (cn_fd (nt_conns s c)) (pending s b) =
      (int k, os_done s (Sys_write (cn_fd (nt_conns s c)) (pending s b)) (int k))"
    using assms(3) len(2) by (simp add: os_send_def Let_def k_def)
  show ?thesis
    unfolding send_loop.simps [of s c b, unfolded Let_def room, folded pending_def, unfolded o prod.case] k_def [symmetric]
    using len(1) by (simp add: frame_simps sent_all_def finish_req_def)
qed

lemma destroy_request:
  assumes "request_ready s c L n rq" "cm_live s' = cm_live s"
  shows "\<exists>s2. mem_pool_destroy s' (rq_pool rq) = Inr s2 \<and> cm_live s2 = L"
proof -
  let ?P = "mp_self (rq_pool rq)"
  have h: "mp_large (rq_pool rq) = []" "tl (mp_chunks (rq_pool rq)) = []" "?P \<noteq> NULL"
    "cm_live s' = (?P, REQUEST_POOL_SIZE) # L" "?P \<notin> fst ` set L"
    using assms by (auto simp: request_ready_def)
  have "filter (\<lambda>x. fst x \<noteq> ?P) L = L" using h(5) by (force simp: filter_id_conv)
  then show ?thesis using h by (simp add: mem_pool_destroy_def c_free_def frame_simps)
qed

text \<open>The end of a \<open>PUT\<close> request: the response leaves and the request is gone.\<close>

lemma finish_put:
  assumes R: "request_ready s c L n rq" and put: "pr_type (rq_protocol rq) = PUT_T" and n: "1024 \<le> n"
    and w: "4 \<le> os_answer s (os_calls s)"
  shows "\<exists>s'. tcp_request_finish s c = Inr (TCP_SRV_OK, s') \<and> cn_request (nt_conns s' c) = None \<and> cm_live s' = L \<and>
    os_trace s' = os_trace s @ [(Sys_write (cn_fd (nt_conns s c)) (''ok'' @ CRLF), 4)] \<and>
    cn_close (nt_conns s' c) = cn_close (nt_conns s c) \<and> cn_add_events (nt_conns s' c) = cn_add_events (nt_conns s c)"
proof -
  let ?b = "rq_response rq"
  have rq: "cn_request (nt_conns s c) = Some rq" "rq_error rq = 0"
    and b: "bf_last (nt_bufs s ?b) = bf_buffer (nt_bufs s ?b)" "bf_buffer (nt_bufs s ?b) + n \<le> addr_top"
      "bf_end (nt_bufs s ?b) = bf_buffer (nt_bufs s ?b) + n"
    using R by (simp_all add: request_ready_def)
  define s3 where "s3 = upd_buf ?b (\<lambda>k. k\<lparr>bf_last := bf_last (nt_bufs s ?b) + length (''ok'' @ CRLF)\<rparr>)
    (write_bytes s (bf_last (nt_bufs s ?b)) ((''ok'' @ CRLF) @ [NUL]))"
  have gen: "tcp_respone_generate s rq = Inr s3"
    using put rq(2) b n by (simp add: s3_def tcp_respone_generate_def put_text_def Let_def CRLF_def)
  have f: "nt_conns s3 = nt_conns s" "cm_live s3 = cm_live s" "os_trace s3 = os_trace s" "os_calls s3 = os_calls s"
    "os_answer s3 = os_answer s"
    by (simp_all add: s3_def frame_simps write_bytes_def)
  have bl: "bf_buffer (nt_bufs s3 ?b) < bf_last (nt_bufs s3 ?b)" "bf_last (nt_bufs s3 ?b) < size_mod"
    using b n by (simp_all add: s3_def frame_simps CRLF_def addr_top_def)
  have pend: "pending s3 ?b = ''ok'' @ CRLF"
    using b(1) mem_bytes_write [of s "bf_last (nt_bufs s ?b)" "(''ok'' @ CRLF) @ [NUL]"]
    by (simp add: pending_def s3_def frame_simps mem_bytes_Suc CRLF_def eval_nat_numeral)
  obtain s4 where s4: "send_loop s3 c ?b = Some s4" "nt_conns s4 = (nt_conns s3)(c := sent_all (nt_conns s3 c))"
    "cm_live s4 = cm_live s3" "os_trace s4 = os_trace s3 @ [(Sys_write (cn_fd (nt_conns s c)) (''ok'' @ CRLF), 4)]"
    using send_loop_once [OF bl, of c] w unfolding pend f by (auto simp: CRLF_def)
  have rq4: "cn_request (nt_conns s4 c) = Some (rq\<lparr>rq_finish := 1\<rparr>)"
    using rq(1) by (simp add: s4(2) f(1) sent_all_def finish_req_def)
  obtain s5 where s5: "mem_pool_destroy s4 (rq_pool rq) = Inr s5" "cm_live s5 = L"
    using destroy_request [OF R, of s4] s4(3) f(2) by auto
  have "tcp_server_send s3 c = Inr (TCP_SRV_OK, s4)" using rq(1) f(1) s4(1) by (simp add: tcp_server_send_def)
  then have "tcp_request_finish s c = Inr (TCP_SRV_OK, upd_conn c (\<lambda>k. k\<lparr>cn_request := None\<rparr>) s5)"
    using rq(1) rq4 s5(1) gen by (simp add: tcp_request_finish_def)
  then show ?thesis
    using s5(2) s4(2,4) f(1,3) net_more(6,10) [OF mem_pool_destroy_more [OF s5(1)]]
    by (simp add: frame_simps sent_all_def finish_req_def)
qed

text \<open>The piece that completes a \<open>PUT\<close> request.\<close>

lemma recv_done:
  assumes R: "receiving s c L n xs" and g: "gives s bs" "bs \<noteq> []" "length (xs @ bs) \<le> n" and n: "1024 \<le> n"
    and put: "xs @ bs = put_request pre hs da" "list_all is_blank pre" "list_all is_header_char hs" "da \<noteq> []"
      "length da < 2147483648"
    and w: "4 \<le> os_answer s (Suc (os_calls s))"
  shows "\<exists>s' tr. tcp_server_recv s c = Inr (TCP_SRV_OK, s') \<and> cn_request (nt_conns s' c) = None \<and> cm_live s' = L \<and>
    os_trace s' = os_trace s @ tr \<and> written_to (cn_fd (nt_conns s c)) tr = ''ok'' @ CRLF \<and>
    cn_close (nt_conns s' c) = cn_close (nt_conns s c) \<and> cn_add_events (nt_conns s' c) = cn_add_events (nt_conns s c)"
proof -
  have dn: "spec_parse (xs @ bs) = PROTOCOL_DONE" using spec_parse_done put_request_is put by simp
  obtain s2 rq m where s2: "tcp_server_recv s c = sbind (tcp_request_process s2 c PROTOCOL_DONE) (\<lambda>(_, s4). Inr (TCP_SRV_OK, s4))"
    "request_ready s2 c L n rq" "after_call s c s2"
    "holds m (bf_buffer (nt_bufs s2 (rq_last_buffer rq))) (xs @ bs)"
    "pr_type (rq_protocol rq) = pr_type (fst (snd (protocol_parse (rq_last_buffer rq) m protocol_zero
       (bf_buffer (nt_bufs s2 (rq_last_buffer rq))) (bf_buffer (nt_bufs s2 (rq_last_buffer rq)) + length (xs @ bs)))))"
    using recv_split [OF R g] dn by metis
  have "bf_buffer (nt_bufs s2 (rq_last_buffer rq)) + length (xs @ bs) \<le> addr_top"
    using s2(2) g(3) by (simp add: request_ready_def)
  then have type: "pr_type (rq_protocol rq) = PUT_T"
    using s2(4,5) put_request_type [OF put(2-5), of m] by (simp add: put(1))
  define s3 where "s3 = upd_req c (\<lambda>r. r\<lparr>rq_done := 1\<rparr>) s2"
  have r3: "request_ready s3 c L n (rq\<lparr>rq_done := 1\<rparr>)" using s2(2) by (simp add: s3_def request_ready_def frame_simps)
  have a3: "4 \<le> os_answer s3 (os_calls s3)" "cn_fd (nt_conns s3 c) = cn_fd (nt_conns s c)" "os_trace s3 = os_trace s2"
    "cn_close (nt_conns s3 c) = cn_close (nt_conns s c)" "cn_add_events (nt_conns s3 c) = cn_add_events (nt_conns s c)"
    using s2(3) w by (simp_all add: s3_def after_call_def frame_simps)
  obtain s' where s': "tcp_request_finish s3 c = Inr (TCP_SRV_OK, s')" "cn_request (nt_conns s' c) = None" "cm_live s' = L"
    "os_trace s' = os_trace s2 @ [(Sys_write (cn_fd (nt_conns s c)) (''ok'' @ CRLF), 4)]"
    "cn_close (nt_conns s' c) = cn_close (nt_conns s c)" "cn_add_events (nt_conns s' c) = cn_add_events (nt_conns s c)"
    using finish_put [OF r3 _ n a3(1)] type a3(2-5) by auto
  have "tcp_request_process s2 c PROTOCOL_DONE = Inr (TCP_SRV_OK, s')"
    using s2(2) s'(1) by (simp add: tcp_request_process_def request_ready_def Let_def flip: s3_def)
  moreover obtain k j where "os_trace s2 = os_trace s @ [(Sys_read (cn_fd (nt_conns s c)) k, j)]"
    using s2(3) by (auto simp: after_call_def)
  ultimately show ?thesis
    using s2(1) s'(2-6)
    by (intro exI [of _ s'] exI [of _ "[(Sys_read (cn_fd (nt_conns s c)) k, j), (Sys_write (cn_fd (nt_conns s c)) (''ok'' @ CRLF), 4)]"])
      (simp add: CRLF_def)
qed

text \<open>The handler called once per piece.\<close>

fun recv_times :: "nat \<Rightarrow> net \<Rightarrow> addr \<Rightarrow> ub + net" where
  "recv_times 0 s c = Inr s"
| "recv_times (Suc k) s c = sbind (tcp_server_recv s c) (\<lambda>(_, s1). recv_times k s1 c)"

text \<open>The kernel delivers the pieces with the next calls and then takes the response.\<close>

definition delivers :: "net \<Rightarrow> byte list list \<Rightarrow> bool" where
  "delivers s ps \<longleftrightarrow> (\<forall>i < length ps. 0 \<le> os_answer s (os_calls s + i) \<and> os_input s (os_calls s + i) = ps ! i) \<and>
     4 \<le> os_answer s (os_calls s + length ps)"

lemma delivers_Cons:
  assumes "delivers s (p # ps)"
  shows "gives s p" "after_call s c s' \<Longrightarrow> delivers s' ps" "ps = [] \<Longrightarrow> 4 \<le> os_answer s (Suc (os_calls s))"
  using assms by (force simp: delivers_def gives_def after_call_def)+

lemma serve_pieces:
  assumes "receiving s c L n xs" "ps \<noteq> []" "list_all (\<lambda>p. p \<noteq> []) ps" "xs @ concat ps = put_request pre hs da"
    and "length (put_request pre hs da) \<le> n" "1024 \<le> n" "delivers s ps"
    and put: "list_all is_blank pre" "list_all is_header_char hs" "da \<noteq> []" "length da < 2147483648"
  shows "\<exists>s' tr. recv_times (length ps) s c = Inr s' \<and> cn_request (nt_conns s' c) = None \<and> cm_live s' = L \<and>
    os_trace s' = os_trace s @ tr \<and> written_to (cn_fd (nt_conns s c)) tr = ''ok'' @ CRLF"
  using assms(1-5,7)
proof (induction ps arbitrary: s xs)
  case (Cons p ps)
  note g = delivers_Cons [OF Cons.prems(6)]
  have p: "p \<noteq> []" using Cons.prems(3) by simp
  show ?case
  proof (cases "ps = []")
    case True
    with Cons.prems(4) have e: "xs @ p = put_request pre hs da" by simp
    from recv_done [OF Cons.prems(1) g(1) p _ assms(6) e put g(3)] e Cons.prems(5) True show ?thesis by auto
  next
    case False
    then obtain q qs where ps: "ps = q # qs" by (cases ps) auto
    obtain b y where q: "q = b # y" using Cons.prems(3) ps by (cases q) auto
    have e: "put_request pre hs da = (xs @ p) @ b # (y @ concat qs)" using Cons.prems(4) by (simp add: ps q)
    have l: "length (xs @ p) < n" using Cons.prems(5) by (simp add: e)
    have "spec_parse (xs @ p) = PROTOCOL_OK"
      using spec_parse_prefix [of "xs @ p" b "y @ concat qs"] put_request_is [OF put] e by simp
    from recv_more [OF Cons.prems(1) g(1) p l this] obtain s1 where
      s1: "tcp_server_recv s c = Inr (TCP_SRV_OK, s1)" "receiving s1 c L n (xs @ p)" "after_call s c s1" by blast
    have "(xs @ p) @ concat ps = put_request pre hs da" using Cons.prems(4) by simp
    from Cons.IH [OF s1(2) False _ this Cons.prems(5) g(2) [OF s1(3)]] Cons.prems(3) obtain s' tr where
      r: "recv_times (length ps) s1 c = Inr s'" "cn_request (nt_conns s' c) = None" "cm_live s' = L"
      "os_trace s' = os_trace s1 @ tr" "written_to (cn_fd (nt_conns s1 c)) tr = ''ok'' @ CRLF" by auto
    moreover obtain k j where "os_trace s1 = os_trace s @ [(Sys_read (cn_fd (nt_conns s c)) k, j)]"
      "cn_fd (nt_conns s1 c) = cn_fd (nt_conns s c)"
      using s1(3) by (auto simp: after_call_def)
    ultimately show ?thesis
      using s1(1) by (intro exI [of _ s'] exI [of _ "(Sys_read (cn_fd (nt_conns s c)) k, j) # tr"]) simp
  qed
qed simp

section \<open>Properties\<close>

text \<open>
  C4: a \<open>PUT\<close> request is served, however it arrives.  A connection without a request gets the
  bytes of a \<open>PUT\<close> request in any number of nonempty pieces, one per call of the read handler.
  When the memory for the request is available, the request fits the receive buffer and the
  kernel takes the four bytes of the response, then after the last piece exactly \<open>ok\<close> and CR LF
  have been written to the client, the connection is free for the next request, and all memory
  of the request has been given back.
\<close>

theorem put_request_served:
  assumes "cn_request (nt_conns s c) = None"
    and "mem_pool_create s ''request'' REQUEST_POOL_SIZE (cn_logger (nt_conns s c)) = (Some pool, s1)"
    and n: "clamp_buf_size (sv_request_buf_size (nt_server s)) \<le> 4064"
      "length (put_request pre hs da) \<le> clamp_buf_size (sv_request_buf_size (nt_server s))"
    and ps: "concat ps = put_request pre hs da" "list_all (\<lambda>p. p \<noteq> []) ps"
    and put: "list_all is_blank pre" "list_all is_header_char hs" "da \<noteq> []"
    and "delivers s ps"
  shows "\<exists>s' tr. recv_times (length ps) s c = Inr s' \<and> os_trace s' = os_trace s @ tr \<and>
    written_to (cn_fd (nt_conns s c)) tr = ''ok'' @ CRLF \<and>
    cn_request (nt_conns s' c) = None \<and> cm_live s' = cm_live s"
proof -
  let ?n = "clamp_buf_size (sv_request_buf_size (nt_server s))"
  obtain rq s2 where i: "tcp_request_init s c = (Some rq, s2)" "request_ready s2 c (cm_live s) ?n rq"
    "rq_protocol rq = protocol_zero" "bf_last (nt_bufs s2 (rq_last_buffer rq)) = bf_buffer (nt_bufs s2 (rq_last_buffer rq))"
    and f: "cn_fd (nt_conns s2 c) = cn_fd (nt_conns s c)" "os_answer s2 = os_answer s" "os_input s2 = os_input s"
      "os_calls s2 = os_calls s" "os_trace s2 = os_trace s"
    using tcp_request_init_ready [OF refl n(1) assms(2)] by fastforce
  have "ps \<noteq> []" using ps(1) put(3) by (auto simp: put_request_def)
  then obtain k where k: "length ps = Suc k" by (cases ps) auto
  have "cn_request (nt_conns s2 c) = Some rq" using i(2) by (simp add: request_ready_def)
  then have "tcp_server_recv s c = tcp_server_recv s2 c" using assms(1) i(1) by (simp add: tcp_server_recv_def)
  then have r: "recv_times (length ps) s c = recv_times (length ps) s2 c" by (simp add: k)
  have da: "length da < 2147483648" using n by (simp add: put_request_def)
  have d: "delivers s2 ps" using assms(10) f by (simp add: delivers_def)
  have n1: "1024 \<le> ?n" by (simp add: clamp_buf_size_def)
  show ?thesis
    using serve_pieces [OF receiving_start [OF i(2-4)] \<open>ps \<noteq> []\<close> ps(2) _ n(2) n1 d put da] ps(1) f r by auto
qed

text \<open>A request in two pieces on a fresh connection.\<close>

definition demo_pieces :: "byte list list" where
  "demo_pieces = [take 9 (put_request [] ''k=v1'' ''hello''), drop 9 (put_request [] ''k=v1'' ''hello'')]"

definition demo_serve :: net where
  "demo_serve = demo_net (\<lambda>_. 4) (\<lambda>i. if i = 0 then demo_pieces ! 0 else demo_pieces ! 1)"

lemma demo_request: "put_request [] ''k=v1'' ''hello'' = ''PUT'' @ CRLF @ ''k=v1'' @ CRLF @ [digit_char 5] @ CRLF @ ''hello''"
  by (simp add: put_request_def dec_digits.simps eval_nat_numeral)

lemma demo_serve_create:
  "\<exists>pool s1. mem_pool_create demo_serve ''request'' REQUEST_POOL_SIZE None = (Some pool, s1)"
  by (simp add: demo_serve_def demo_net_def demo_world_def world.defs cmem.defs demo_eval apart_def)

theorem put_request_served_witness:
  "delivers demo_serve demo_pieces \<and> concat demo_pieces = put_request [] ''k=v1'' ''hello'' \<and>
   (\<exists>s'. recv_times 2 demo_serve 4096 = Inr s' \<and> written_to 7 (os_trace s') = ''ok'' @ CRLF \<and> cm_live s' = cm_live demo_serve)"
proof -
  obtain pool s1 where p: "mem_pool_create demo_serve ''request'' REQUEST_POOL_SIZE None = (Some pool, s1)"
    using demo_serve_create by blast
  have c: "nt_conns demo_serve 4096 = connection_zero\<lparr>cn_fd := 7\<rparr>" "sv_request_buf_size (nt_server demo_serve) = 0"
    "os_trace demo_serve = []"
    by (simp_all add: demo_serve_def demo_net_def demo_world_def world.defs cmem.defs)
  have d: "delivers demo_serve demo_pieces"
    by (simp add: delivers_def demo_serve_def less_Suc_eq demo_pieces_def)
  have l: "concat demo_pieces = put_request [] ''k=v1'' ''hello''" "list_all (\<lambda>p. p \<noteq> []) demo_pieces"
    "length (put_request [] ''k=v1'' ''hello'') \<le> 1024" "length demo_pieces = 2"
    by (simp_all add: demo_pieces_def demo_request CRLF_def)
  show ?thesis
    using put_request_served [of demo_serve 4096 pool s1 "[]" "''k=v1''" "''hello''" demo_pieces] p c d l demo_put_pre(2)
    by (auto simp: connection_zero_def clamp_buf_size_def)
qed

end
