(* ===== verification/NetRun.thy ===== *)
theory NetRun
  imports Serving
begin

text \<open>
  The event loop always ends: an invariant of the network state that every handler keeps, and
  the termination of the loops below \<open>process_events\<close>.
\<close>

section \<open>Operations on one connection\<close>

definition buf_ok :: "buffer_t \<Rightarrow> bool" where
  "buf_ok b \<longleftrightarrow> bf_buffer b \<le> bf_last b \<and> bf_last b \<le> bf_end b \<and> bf_end b \<le> bf_buffer b + BUFFER_MAX_SIZE"

definition bufs_ok :: "net \<Rightarrow> bool" where
  "bufs_ok s \<longleftrightarrow> (\<forall>b. buf_ok (nt_bufs s b))"

text \<open>
  What most operations leave alone: the kernel's interest list, the free list, the descriptor
  and the links of every connection, and whether it has a pool.
\<close>

definition same_conn :: "tcp_connection_t \<Rightarrow> tcp_connection_t \<Rightarrow> bool" where
  "same_conn k k' \<longleftrightarrow> cn_next k' = cn_next k \<and> cn_fd k' = cn_fd k \<and> (cn_pool k' = None \<longleftrightarrow> cn_pool k = None)"

definition quiet :: "net \<Rightarrow> net \<Rightarrow> bool" where
  "quiet s s' \<longleftrightarrow> nt_interest s' = nt_interest s \<and> nt_server s' = nt_server s \<and> os_fail s' = os_fail s \<and>
     (\<forall>c. same_conn (nt_conns s c) (nt_conns s' c)) \<and> bufs_ok s'"

definition ends :: "ub \<Rightarrow> bool" where
  "ends u \<longleftrightarrow> u \<noteq> Diverges \<and> u \<noteq> Null_deref"

definition settles :: "net \<Rightarrow> ub + (int \<times> net) \<Rightarrow> bool" where
  "settles s m \<longleftrightarrow> (case m of Inl u \<Rightarrow> ends u | Inr (r, s') \<Rightarrow> quiet s s')"

lemma quiet_refl: "bufs_ok s \<Longrightarrow> quiet s s"
  by (simp add: quiet_def same_conn_def)

lemma quiet_trans: "quiet s s1 \<Longrightarrow> quiet s1 s2 \<Longrightarrow> quiet s s2"
  by (auto simp: quiet_def same_conn_def)

lemma quiet_bufs: "quiet s s' \<Longrightarrow> bufs_ok s'"
  by (simp add: quiet_def)

lemma quiet_more:
  assumes "quiet s s1" "cmem.more s2 = cmem.more s1"
  shows "quiet s s2"
  using assms(1) net_more [OF assms(2)] by (simp add: quiet_def bufs_ok_def)

lemma quiet_step:
  assumes "quiet s s1"
  shows "quiet s (os_done s1 x r)" "quiet s (log_error s1 lg e t)" "quiet s (log_warn s1 lg e t)" "quiet s (log_info s1 lg e t)"
    "quiet s (write_bytes s1 a bs)" "quiet s (s1\<lparr>cm_mem := m\<rparr>)"
    "(\<And>k. same_conn k (f k)) \<Longrightarrow> quiet s (upd_conn c f s1)" "quiet s (upd_req c g s1)"
    "(buf_ok (nt_bufs s1 b) \<Longrightarrow> buf_ok (h (nt_bufs s1 b))) \<Longrightarrow> quiet s (upd_buf b h s1)"
  using assms by (auto simp: quiet_def bufs_ok_def frame_simps write_bytes_def same_conn_def)

lemma settles_Inl [simp]: "settles s (Inl u) = ends u"
  by (simp add: settles_def)

lemma settles_Inr [simp]: "settles s (Inr (r, s')) = quiet s s'"
  by (simp add: settles_def)

lemma settles_sbind:
  "settles s m \<Longrightarrow> (\<And>r s1. m = Inr (r, s1) \<Longrightarrow> quiet s s1 \<Longrightarrow> settles s (f (r, s1))) \<Longrightarrow> settles s (sbind m f)"
  by (cases m) (auto simp: settles_def)

lemma settles_trans: "quiet s s1 \<Longrightarrow> settles s1 m \<Longrightarrow> settles s m"
  by (auto simp: settles_def intro: quiet_trans split: sum.splits prod.splits)

lemma ends_ub [simp]: "ends (Invalid_free a)" "ends (Out_of_bounds a)" "ends Null_call"
  by (simp_all add: ends_def)

lemma sbind_Inl_iff: "sbind m f = Inl e \<longleftrightarrow> m = Inl e \<or> (\<exists>x. m = Inr x \<and> f x = Inl e)"
  by (cases m) auto

lemma c_free_ends: "c_free w a = Inl u \<Longrightarrow> ends u"
  by (auto simp: c_free_def split: if_splits)

lemma mem_pool_destroy_ends: "mem_pool_destroy w p = Inl u \<Longrightarrow> ends u"
proof -
  have l: "free_larges v ls = Inl u \<Longrightarrow> ends u" for v :: "'b cmem_scheme" and ls u
    by (induction v ls rule: free_larges.induct) (auto dest: c_free_ends split: sum.splits)
  have c: "free_chunks v cs = Inl u \<Longrightarrow> ends u" for v :: "'b cmem_scheme" and cs u
    by (induction v cs rule: free_chunks.induct) (auto dest: c_free_ends split: sum.splits)
  show "mem_pool_destroy w p = Inl u \<Longrightarrow> ends u"
    unfolding mem_pool_destroy_def by (auto dest: l c c_free_ends split: sum.splits)
qed

lemma settles_destroy:
  assumes "quiet s s1" "\<And>s2. quiet s s2 \<Longrightarrow> settles s (f s2)"
  shows "settles s (sbind (mem_pool_destroy s1 p) f)"
proof (cases "mem_pool_destroy s1 p")
  case (Inl u)
  then show ?thesis using mem_pool_destroy_ends by simp
next
  case (Inr s2)
  then show ?thesis using assms quiet_more mem_pool_destroy_more by fastforce
qed

section \<open>Requests\<close>

lemma buf_ok_new: "n \<le> BUFFER_MAX_SIZE \<Longrightarrow> buf_ok (new_buffer p n)"
  by (simp add: buf_ok_def new_buffer_def)

lemma protocol_init_more: "protocol_init w p = (r, w', p') \<Longrightarrow> cmem.more w' = cmem.more w"
  by (auto simp: protocol_init_def dest: pcalloc_more split: prod.splits if_splits)

lemma tcp_request_init_quiet:
  assumes "bufs_ok s" "tcp_request_init s c = (r, s')"
  shows "quiet s s'"
proof -
  let ?n = "clamp_buf_size (sv_request_buf_size (nt_server s))"
  have n: "buf_ok (new_buffer p ?n)" for p by (rule buf_ok_new) (simp add: clamp_buf_size_def)
  obtain po s1 where p0: "mem_pool_create s ''request'' REQUEST_POOL_SIZE (cn_logger (nt_conns s c)) = (po, s1)"
    by fastforce
  note q1 = quiet_more [OF quiet_refl [OF assms(1)] mem_pool_create_more [OF p0]]
  show ?thesis
  proof (cases po)
    case None
    then show ?thesis using assms(2) p0 q1 by (auto simp: tcp_request_init_def quiet_step)
  next
    case (Some pool)
    obtain ra s2 pool2 where p1: "pmalloc s1 pool sizeof_tcp_request_t = (ra, s2, pool2)" using prod_cases3 by blast
    note q2 = quiet_more [OF q1 pmalloc_more [OF p1]]
    obtain b s3 pool3 where p2: "pmalloc s2 pool2 (?n + sizeof_buffer_t) = (b, s3, pool3)" using prod_cases3 by blast
    note q3 = quiet_more [OF q2 pmalloc_more [OF p2]]
    define s4 where "s4 = upd_buf b (\<lambda>_. new_buffer b ?n) s3"
    have q4: "quiet s s4" using q3 n by (simp add: s4_def quiet_step)
    obtain b1 s5 pool5 where p3: "pmalloc s4 pool3 (?n + sizeof_buffer_t) = (b1, s5, pool5)" using prod_cases3 by blast
    note q5 = quiet_more [OF q4 pmalloc_more [OF p3]]
    define s6 where "s6 = upd_buf b1 (\<lambda>_. new_buffer b1 ?n) s5"
    have q6: "quiet s s6" using q5 n by (simp add: s6_def quiet_step)
    obtain pr s7 pool7 where p4: "protocol_init s6 pool5 = (pr, s7, pool7)" using prod_cases3 by blast
    note q7 = quiet_more [OF q6 protocol_init_more [OF p4]]
    show ?thesis
      using assms(2) q2 q3 q5 q7
      unfolding tcp_request_init_def Let_def p0 prod.case Some option.case p1 p2 s4_def [symmetric] p3 s6_def [symmetric] p4
      by (auto simp: same_conn_def split: if_splits option.splits intro!: quiet_step)
  qed
qed

lemma tcp_request_init_request:
  "tcp_request_init s c = (Some r, s') \<Longrightarrow> cn_request (nt_conns s' c) = Some r"
  by (auto simp: tcp_request_init_def Let_def frame_simps split: prod.splits option.splits if_splits)

lemma put_text_quiet: "quiet s0 s \<Longrightarrow> put_text s b t = Inr s' \<Longrightarrow> quiet s0 s'"
  by (auto simp: put_text_def Let_def buf_ok_def frame_simps write_bytes_def split: if_splits intro!: quiet_step)

lemma put_text_conns: "put_text s b t = Inr s' \<Longrightarrow> nt_conns s' = nt_conns s"
  by (auto simp: put_text_def Let_def frame_simps write_bytes_def split: if_splits)

lemma tcp_respone_generate_quiet:
  "quiet s0 s \<Longrightarrow> tcp_respone_generate s r = Inr s' \<Longrightarrow> quiet s0 s' \<and> nt_conns s' = nt_conns s"
  by (auto simp: tcp_respone_generate_def put_text_conns split: if_splits intro: put_text_quiet)

lemma tcp_respone_generate_ends: "tcp_respone_generate s r = Inl u \<Longrightarrow> ends u"
  by (auto simp: tcp_respone_generate_def put_text_def Let_def split: if_splits)

lemma send_loop_quiet:
  assumes "bufs_ok s"
  shows "\<exists>s'. send_loop s c b = Some s' \<and> quiet s s' \<and>
    (cn_request (nt_conns s' c) = None \<longleftrightarrow> cn_request (nt_conns s c) = None)"
proof -
  have b: "buf_ok (nt_bufs s b)" using assms by (simp add: bufs_ok_def)
  then obtain s' where s': "send_loop s c b = Some s'" "sends s c b s'"
    using send_loop_sends [of s b c] by (auto simp: buf_ok_def)
  obtain k where k: "k \<le> length (pending s b)"
      "nt_bufs s' = (nt_bufs s)(b := (nt_bufs s b)\<lparr>bf_buffer := bf_buffer (nt_bufs s b) + k\<rparr>)"
    and c: "nt_conns s' = (nt_conns s)(c := sent_all (nt_conns s c)) \<or>
      nt_conns s' = (nt_conns s)(c := sent_later (nt_conns s c)) \<or>
      nt_conns s' = (nt_conns s)(c := sent_fail (nt_conns s c))"
    using s'(2) unfolding sends_def by blast
  have "buf_ok (nt_bufs s' b)" using b k by (auto simp: buf_ok_def pending_def)
  then have "bufs_ok s'" using assms k(2) by (auto simp: bufs_ok_def)
  moreover have "same_conn (nt_conns s x) (nt_conns s' x)" for x
    using c by (cases "x = c") (auto simp: same_conn_def sent_all_def sent_later_def sent_fail_def finish_req_def split: if_splits)
  moreover have "cn_request (nt_conns s' c) = None \<longleftrightarrow> cn_request (nt_conns s c) = None"
    using c by (auto simp: sent_all_def sent_later_def sent_fail_def finish_req_def split: if_splits)
  ultimately show ?thesis using s' by (auto simp: quiet_def sends_def)
qed

lemma tcp_server_send_settles:
  assumes "bufs_ok s"
  shows "\<exists>s'. tcp_server_send s c = Inr (TCP_SRV_OK, s') \<and> quiet s s' \<and>
    (cn_request (nt_conns s' c) = None \<longleftrightarrow> cn_request (nt_conns s c) = None)"
proof (cases "cn_request (nt_conns s c)")
  case None
  then show ?thesis using quiet_refl [OF assms] by (simp add: tcp_server_send_def)
next
  case (Some r)
  then show ?thesis using send_loop_quiet [OF assms, of c "rq_response r"] by (auto simp: tcp_server_send_def)
qed

lemma tcp_request_finish_settles:
  assumes "bufs_ok s" "cn_request (nt_conns s c) \<noteq> None"
  shows "settles s (tcp_request_finish s c)"
proof -
  obtain r where r: "cn_request (nt_conns s c) = Some r" using assms(2) by blast
  show ?thesis
  proof (cases "tcp_respone_generate s r")
    case (Inl u)
    then show ?thesis using r tcp_respone_generate_ends by (simp add: tcp_request_finish_def)
  next
    case (Inr s0)
    have q0: "quiet s s0" "nt_conns s0 = nt_conns s"
      using tcp_respone_generate_quiet [OF quiet_refl [OF assms(1)] Inr] by auto
    obtain s1 where s1: "tcp_server_send s0 c = Inr (TCP_SRV_OK, s1)" "quiet s0 s1"
      "cn_request (nt_conns s1 c) = None \<longleftrightarrow> cn_request (nt_conns s0 c) = None"
      using tcp_server_send_settles [OF quiet_bufs [OF q0(1)], of c] by auto
    obtain r1 where r1: "cn_request (nt_conns s1 c) = Some r1" using s1(3) r q0(2) by auto
    have q1: "quiet s s1" using q0(1) s1(2) by (rule quiet_trans)
    have "settles s (sbind (mem_pool_destroy s1 (rq_pool r1)) (\<lambda>s2.
        Inr (TCP_SRV_OK, upd_conn c (\<lambda>k. k\<lparr>cn_request := None\<rparr>) s2)))"
      by (rule settles_destroy [OF q1]) (simp add: quiet_step same_conn_def)
    then show ?thesis using r Inr s1(1) r1 q1 by (simp add: tcp_request_finish_def)
  qed
qed

lemma settles_ignore: "settles s m \<Longrightarrow> settles s (sbind m (\<lambda>(_, s1). Inr (k, s1)))"
  by (rule settles_sbind) auto

lemma tcp_request_process_settles:
  assumes "bufs_ok s" "cn_request (nt_conns s c) \<noteq> None"
  shows "settles s (tcp_request_process s c ret)"
proof -
  obtain r where r: "cn_request (nt_conns s c) = Some r" using assms(2) by blast
  note q = quiet_refl [OF assms(1)]
  have fin: "settles s (sbind (tcp_request_finish s1 c) (\<lambda>(_, s2). Inr (TCP_SRV_OK, s2)))"
    if "quiet s s1" "cn_request (nt_conns s1 c) \<noteq> None" for s1
    using settles_trans [OF that(1) settles_ignore [OF tcp_request_finish_settles [OF quiet_bufs [OF that(1)] that(2)]]] .
  obtain p s1 pool1 where p: "pmalloc s (rq_pool r) (BUFFER_MIN_SIZE + sizeof_buffer_t) = (p, s1, pool1)"
    using prod_cases3 by blast
  have q1: "quiet s s1" using quiet_more [OF q pmalloc_more [OF p]] .
  have c1: "cn_request (nt_conns s1 c) = Some r" using r net_more(10) [OF pmalloc_more [OF p]] by simp
  have b: "buf_ok (new_buffer p BUFFER_MIN_SIZE)" for p by (rule buf_ok_new) simp
  have grow: "case grow_request s c r of Inl s1 \<Rightarrow> quiet s s1 \<and> cn_request (nt_conns s1 c) \<noteq> None | Inr s1 \<Rightarrow> quiet s s1"
    using q1 c1 b unfolding grow_request_def p
    by (auto simp: Let_def frame_simps intro!: quiet_step) (auto simp: buf_ok_def)
  show ?thesis
  proof (cases "ret = PROTOCOL_OK")
    case True
    then show ?thesis using r grow q fin by (auto simp: tcp_request_process_def Let_def split: sum.splits)
  next
    case False
    then show ?thesis
      using r by (auto simp: tcp_request_process_def Let_def frame_simps intro!: fin quiet_step q)
  qed
qed

lemma recv_data_settles:
  assumes "bufs_ok s" "cn_request (nt_conns s c) \<noteq> None"
    "bf_last (nt_bufs s (rq_last_buffer r)) + length bs \<le> bf_end (nt_bufs s (rq_last_buffer r))"
  shows "settles s (recv_data s c r bs)"
proof -
  let ?b = "rq_last_buffer r"
  obtain ret pro m where p: "protocol_parse ?b (cm_mem (write_bytes s (bf_last (nt_bufs s ?b)) bs)) (rq_protocol r)
      (bf_last (nt_bufs s ?b)) (bf_last (nt_bufs s ?b) + length bs) = (ret, pro, m)" using prod_cases3 by blast
  define s3 where "s3 = upd_buf ?b (\<lambda>k. k\<lparr>bf_last := bf_last k + length bs\<rparr>)
    (upd_req c (\<lambda>r. r\<lparr>rq_protocol := pro\<rparr>) ((write_bytes s (bf_last (nt_bufs s ?b)) bs)\<lparr>cm_mem := m\<rparr>))"
  have "quiet s s3"
    unfolding s3_def using assms(3)
    by (intro quiet_step(9)) (auto intro!: quiet_step quiet_refl assms(1) simp: frame_simps write_bytes_def buf_ok_def)
  moreover have "cn_request (nt_conns s3 c) \<noteq> None" using assms(2) by (simp add: s3_def frame_simps write_bytes_def)
  ultimately have "settles s (tcp_request_process s3 c ret)"
    using settles_trans tcp_request_process_settles quiet_bufs by blast
  from settles_ignore [OF this] show ?thesis unfolding recv_data_def Let_def p prod.case s3_def [symmetric] .
qed

lemma tcp_server_recv_settles:
  assumes "bufs_ok s"
  shows "settles s (tcp_server_recv s c)"
proof -
  obtain rq s1 where i: "(case cn_request (nt_conns s c) of Some r \<Rightarrow> (Some r, s) | None \<Rightarrow> tcp_request_init s c) = (rq, s1)"
    by fastforce
  have q: "quiet s s1" "\<And>r. rq = Some r \<Longrightarrow> cn_request (nt_conns s1 c) = Some r"
    using i tcp_request_init_quiet [OF assms] tcp_request_init_request quiet_refl [OF assms] by (auto split: option.splits)
  show ?thesis
  proof (cases rq)
    case None
    then show ?thesis unfolding tcp_server_recv_def i by (simp add: quiet_step q)
  next
    case (Some r)
    let ?buf = "nt_bufs s1 (rq_last_buffer r)"
    let ?n = "to_size_t (int (bf_end ?buf) - int (bf_last ?buf))"
    have b: "buf_ok ?buf" using quiet_bufs [OF q(1)] by (simp add: bufs_ok_def)
    then have room: "?n = bf_end ?buf - bf_last ?buf" by (simp add: buf_ok_def to_size_t_nonneg nat_diff_distrib)
    obtain res s2 where rd: "os_read s1 (cn_fd (nt_conns s1 c)) ?n = (res, s2)" by fastforce
    have s2: "\<exists>n k. s2 = os_done s1 (Sys_read (cn_fd (nt_conns s1 c)) n) k" and
      len: "\<And>bs. res = Some bs \<Longrightarrow> length bs \<le> ?n"
      using rd by (auto simp: os_read_def Let_def split: if_splits)
    have q2: "quiet s s2" using s2 q(1) quiet_step(1) by blast
    have f2: "nt_conns s2 = nt_conns s1" "nt_bufs s2 = nt_bufs s1" using s2 by (auto simp: frame_simps)
    have "settles s2 (recv_data s2 c r bs)" if "res = Some bs" for bs
      using len [OF that] room b q(2) [OF Some] f2
      by (intro recv_data_settles quiet_bufs [OF q2]) (auto simp: buf_ok_def)
    then show ?thesis
      unfolding tcp_server_recv_def i Some using rd settles_trans [OF q2]
      by (auto simp: Let_def kill_conn_def same_conn_def intro!: quiet_step q2 split: option.splits)
  qed
qed

section \<open>The invariant of the network state\<close>

text \<open>
  \<open>free\<close> is the free list; a registered connection is not free, has the descriptor it is
  registered with, and has a pool.  \<open>act\<close> is the list of active connections that starts at
  \<open>cur\<close>, which shares the field \<open>next\<close> with the free list.  Not every later call is
  interrupted.
\<close>

definition in_use :: "net \<Rightarrow> addr list \<Rightarrow> addr \<Rightarrow> bool" where
  "in_use s free c \<longleftrightarrow> c \<noteq> NULL \<and> c \<notin> set free \<and> cn_pool (nt_conns s c) \<noteq> None"

definition held :: "net \<Rightarrow> addr list \<Rightarrow> addr \<Rightarrow> addr list \<Rightarrow> bool" where
  "held s free cur act \<longleftrightarrow> free_list s free \<and> bufs_ok s \<and> (\<forall>n. \<exists>m \<ge> n. os_fail s m \<noteq> EINTR) \<and>
     (\<forall>(fd, m, c) \<in> set (nt_interest s). in_use s free c \<and> cn_fd (nt_conns s c) = fd) \<and>
     chain (nt_conns s) cur act \<and> distinct act \<and> (\<forall>c \<in> set act. in_use s free c)"

lemma chain_next:
  "(\<And>c. cn_next (conns' c) = cn_next (conns c)) \<Longrightarrow> chain conns' p xs = chain conns p xs"
  by (induction xs arbitrary: p) auto

lemma held_quiet:
  assumes "held s free cur act" "quiet s s'"
  shows "held s' free cur act"
proof -
  have n: "cn_next (nt_conns s' c) = cn_next (nt_conns s c)" "cn_fd (nt_conns s' c) = cn_fd (nt_conns s c)"
    "cn_pool (nt_conns s' c) = None \<longleftrightarrow> cn_pool (nt_conns s c) = None" for c
    using assms(2) by (simp_all add: quiet_def same_conn_def)
  have u: "in_use s' free c = in_use s free c" for c by (simp add: in_use_def n)
  show ?thesis
    using assms chain_next [of "nt_conns s'" "nt_conns s", OF n(1)]
    by (simp add: held_def quiet_def free_list_def u n)
qed

lemma held_bufs: "held s free cur act \<Longrightarrow> bufs_ok s"
  by (simp add: held_def)

text \<open>An operation keeps the invariant, or the run ends by one of the abnormal ends that are left.\<close>

definition keeps :: "addr \<Rightarrow> addr list \<Rightarrow> ub + (int \<times> net) \<Rightarrow> bool" where
  "keeps cur act m \<longleftrightarrow> (case m of Inl u \<Rightarrow> ends u | Inr (r, s') \<Rightarrow> \<exists>free'. held s' free' cur act)"

lemma keeps_simps [simp]:
  "keeps cur act (Inl u) = ends u" "keeps cur act (Inr (r, s')) = (\<exists>free'. held s' free' cur act)"
  by (simp_all add: keeps_def)

lemma keeps_settles: "held s free cur act \<Longrightarrow> settles s m \<Longrightarrow> keeps cur act m"
  by (auto simp: keeps_def settles_def split: sum.splits prod.splits intro: held_quiet)

text \<open>Calls of the kernel on the interest list.\<close>

lemma held_interest:
  assumes "held s free cur act" "set (nt_interest s') \<subseteq> set (nt_interest s) \<union> {(cn_fd (nt_conns s c), m, c)}"
    "in_use s free c" "nt_conns s' = nt_conns s" "nt_server s' = nt_server s" "nt_bufs s' = nt_bufs s" "os_fail s' = os_fail s"
  shows "held s' free cur act"
proof -
  have u: "in_use s' free x = in_use s free x" for x by (simp add: in_use_def assms(4))
  have "in_use s free x \<and> cn_fd (nt_conns s x) = fd" if "(fd, k, x) \<in> set (nt_interest s')" for fd k x
    using that assms(1-3) by (auto simp: held_def)
  then show ?thesis using assms(1) unfolding held_def free_list_def bufs_ok_def u assms(4-7) by blast
qed

lemma os_epoll_ctl_frame:
  assumes "os_epoll_ctl s efd op fd ev p = (r, s')"
  shows "set (nt_interest s') \<subseteq> set (nt_interest s) \<union> {(fd, ev, p)}" "nt_conns s' = nt_conns s" "nt_server s' = nt_server s"
    "nt_bufs s' = nt_bufs s" "os_fail s' = os_fail s" "nt_driver s' = nt_driver s"
  using assms by (cases rule: os_epoll_ctl_cases; auto simp: frame_simps)+

lemma epoll_events_held:
  assumes "held s free cur act" "in_use s free c"
  shows "held (snd (epoll_add_event s c ev)) free cur act" "held (snd (epoll_del_event s c ev)) free cur act"
proof -
  have "held (upd_conn c (\<lambda>k. k\<lparr>cn_events := e\<rparr>) s1) free cur act" "held s1 free cur act"
    if "os_epoll_ctl s efd op (cn_fd (nt_conns s c)) m c = (r, s1)" for efd op m r s1 e
  proof -
    note f = os_epoll_ctl_frame [OF that]
    show h: "held s1 free cur act" using held_interest [OF assms(1) f(1) assms(2) f(2-5)] .
    then show "held (upd_conn c (\<lambda>k. k\<lparr>cn_events := e\<rparr>) s1) free cur act"
      using held_quiet [OF h quiet_step(7) [OF quiet_refl [OF held_bufs [OF h]]]] by (simp add: same_conn_def)
  qed
  then show "held (snd (epoll_add_event s c ev)) free cur act" "held (snd (epoll_del_event s c ev)) free cur act"
    by (auto simp: epoll_add_event_def epoll_del_event_def Let_def split: prod.splits)
qed

lemma held_upd_conn:
  assumes "held s free cur act" "\<And>k. same_conn k (f k)"
  shows "held (upd_conn c f s) free cur act"
  using held_quiet [OF assms(1) quiet_step(7) [OF quiet_refl [OF held_bufs [OF assms(1)]] assms(2)]] .

lemma add_event_held:
  assumes "held s free cur act" "in_use s free c"
  shows "held (snd (add_event s c ev h)) free cur act"
  using epoll_events_held(1) [OF assms, of ev]
  by (auto simp: add_event_def Let_def same_conn_def split: prod.splits intro!: held_upd_conn)

lemma del_event_held:
  assumes "held s free cur act" "in_use s free c"
  shows "held (snd (del_event s c ev)) free cur act"
  using epoll_events_held(2) [OF assms, of ev] assms(1) by (auto simp: del_event_def split: prod.splits)

lemma add_event_pool: "cn_pool (nt_conns (snd (add_event s c ev h)) x) = cn_pool (nt_conns s x)"
proof -
  obtain r s1 where a: "os_epoll_ctl s (ep_fd (ed_io_ctx (nt_driver s))) (if cn_events (nt_conns s c) = EV_NONE_EVENT then EPOLL_CTL_ADD
      else EPOLL_CTL_MOD) (cn_fd (nt_conns s c)) (epoll_mask (ev OR cn_events (nt_conns s c))) c = (r, s1)" by fastforce
  show ?thesis
    unfolding add_event_def epoll_add_event_def Let_def a
    using os_epoll_ctl_frame(2) [OF a] by (simp add: frame_simps)
qed

lemma held_set_pool:
  assumes "held s free cur act" "cn_pool (nt_conns s c) \<noteq> None"
  shows "held (upd_conn c (\<lambda>k. k\<lparr>cn_pool := Some p\<rparr>) s) free cur act"
  using assms by (intro held_quiet [OF assms(1)]) (auto simp: quiet_def same_conn_def frame_simps held_def bufs_ok_def)

lemma os_close_frame:
  "set (nt_interest (snd (os_close s fd))) = {e \<in> set (nt_interest s). fst e \<noteq> fd}" "nt_conns (snd (os_close s fd)) = nt_conns s"
  "nt_server (snd (os_close s fd)) = nt_server s" "nt_bufs (snd (os_close s fd)) = nt_bufs s"
  "os_fail (snd (os_close s fd)) = os_fail s" "nt_driver (snd (os_close s fd)) = nt_driver s"
  by (auto simp: os_close_def Let_def frame_simps)

lemma os_close_held: "held s free cur act \<Longrightarrow> held (snd (os_close s fd)) free cur act"
  by (auto simp: held_def free_list_def bufs_ok_def in_use_def os_close_frame)

section \<open>Accepting\<close>

lemma accept_loop_ends:
  assumes "bufs_ok s" "\<forall>n. \<exists>m \<ge> n. os_fail s m \<noteq> EINTR"
  shows "\<exists>fd s'. accept_loop s s_fd = Some (fd, s') \<and> quiet s s'"
proof -
  obtain m where m: "os_calls s \<le> m" "os_fail s m \<noteq> EINTR" using assms(2) by blast
  have q: "quiet s s" using quiet_refl [OF assms(1)] .
  show ?thesis
    using m q
  proof (induction "m - os_calls s" arbitrary: s rule: less_induct)
    case less
    obtain c s1 where a: "os_accept s s_fd = (c, s1)" by fastforce
    have s1: "s1 = os_done s (Sys_accept s_fd) c" using a by (auto simp: os_accept_def Let_def)
    have q1: "quiet s s1" using less.prems(3) by (simp add: s1 quiet_step)
    show ?case
    proof (cases "c = -1 \<and> os_errno s1 = EINTR")
      case True
      then have "os_fail s (os_calls s) = EINTR" by (auto simp: s1 os_done_def)
      then have "os_calls s \<noteq> m" using less.prems(2) by auto
      moreover have "os_calls s1 = Suc (os_calls s)" "os_fail s1 = os_fail s" by (simp_all add: s1 frame_simps)
      moreover from calculation have "m - os_calls s1 < m - os_calls s" using less.prems(1) by simp
      ultimately obtain fd s' where "accept_loop s1 s_fd = Some (fd, s')" "quiet s1 s'"
        using less.hyps [of s1] less.prems(1,2) quiet_refl [OF quiet_bufs [OF q1]] by auto
      then show ?thesis using a True quiet_trans [OF q1] by (subst accept_loop.simps) auto
    next
      case False
      then show ?thesis using a q1 by (subst accept_loop.simps) auto
    qed
  qed
qed

lemma set_nonblock_quiet: "quiet s0 s \<Longrightarrow> set_nonblock s fd = (r, s') \<Longrightarrow> quiet s0 s'"
  by (auto simp: set_nonblock_def os_call_def Let_def split: if_splits intro!: quiet_step)

lemma set_nodelay_quiet: "quiet s0 s \<Longrightarrow> set_nodelay s fd = (r, s') \<Longrightarrow> quiet s0 s'"
  by (auto simp: set_nodelay_def os_call_def Let_def split: if_splits intro!: quiet_step)

lemma tcp_get_connection_held:
  assumes "held s free cur act" "tcp_get_connection s fd = (c, s')"
  shows "c = NULL \<and> held s' free cur act \<or>
    (\<exists>ys. free = c # ys \<and> held s' ys cur act \<and> in_use s' ys c \<and> c \<notin> set act \<and> c \<notin> (snd \<circ> snd) ` set (nt_interest s'))"
  using assms(2)
proof (cases rule: tcp_get_connection_cases)
  case none
  then show ?thesis using held_quiet [OF assms(1) quiet_more [OF quiet_refl [OF held_bufs [OF assms(1)]]]] by blast
next
  case (some pool s1)
  have "conn_get s fd = (Some c, s')" using assms(2) some(2) by (simp add: conn_get_def)
  moreover have fl: "free_list s free" using assms(1) by (simp add: held_def)
  ultimately obtain ys where ys: "free = c # ys" "free_list s' ys" using conns.get_some by blast
  have d: "c \<notin> set ys" using fl ys(1) by (auto simp: free_list_def)
  note m = net_more [OF some(3)]
  have f: "nt_interest s' = nt_interest s" "nt_bufs s' = nt_bufs s" "os_fail s' = os_fail s" "\<And>x. x \<noteq> c \<Longrightarrow> nt_conns s' x = nt_conns s x"
    "cn_pool (nt_conns s' c) = Some pool"
    using m by (simp_all add: some(5) frame_simps)
  have u: "x \<noteq> c" "in_use s' ys x" "nt_conns s' x = nt_conns s x" if "in_use s free x" for x
    using that ys(1) f(4) by (auto simp: in_use_def)
  have "\<exists>k. nt_conns s' = (nt_conns s)(c := k)" using m(10) by (simp add: some(5) frame_simps) blast
  moreover have ca: "c \<notin> set act" using assms(1) u(1) by (auto simp: held_def)
  ultimately have "chain (nt_conns s') cur act" using assms(1) by (auto simp: held_def chain_other)
  then have "held s' ys cur act"
    using assms(1) ys(2) u f(1-3) by (auto simp: held_def bufs_ok_def)
  moreover have "c \<notin> (snd \<circ> snd) ` set (nt_interest s')" using assms(1) u(1) [of c] f(1) by (force simp: held_def)
  moreover have "in_use s' ys c" using d f(5) some(2) by (simp add: in_use_def)
  ultimately show ?thesis using ys(1) ca by blast
qed

lemma tcp_free_connection_held:
  assumes "held s free cur act" "in_use s free c" "c \<notin> set act" "c \<notin> (snd \<circ> snd) ` set (nt_interest s)"
    "tcp_free_connection s c = Inr s'"
  shows "held s' (c # free) cur act"
proof -
  note e = tcp_free_connection_effect [OF assms(5)]
  have u: "in_use s' (c # free) x" "nt_conns s' x = nt_conns s x" if "in_use s free x" "x \<noteq> c" for x
    using that by (auto simp: in_use_def e(2))
  have "free_list s' (c # free)"
    using assms(1,2) by (simp add: held_def free_list_def in_use_def e(1,2) chain_other)
  moreover have "chain (nt_conns s') cur act" using assms(1,3) by (simp add: held_def e(2) chain_other)
  moreover have "in_use s' (c # free) x \<and> cn_fd (nt_conns s' x) = fd" if "(fd, k, x) \<in> set (nt_interest s')" for fd k x
    using that assms(1,4) u [of x] by (force simp: held_def e(3))
  moreover have "in_use s' (c # free) x" if "x \<in> set act" for x using that assms(1,3) u(1) [of x] by (auto simp: held_def)
  ultimately show ?thesis using assms(1) e(4,5) by (auto simp: held_def bufs_ok_def)
qed

lemma tcp_free_connection_ends:
  assumes "in_use s free c" "tcp_free_connection s c = Inl u"
  shows "ends u"
proof -
  obtain pool where "cn_pool (nt_conns s c) = Some pool" using assms(1) by (auto simp: in_use_def)
  then show ?thesis
    using assms(2) mem_pool_destroy_ends
    by (cases "cn_request (nt_conns s c)") (auto simp: tcp_free_connection_def Let_def sbind_Inl_iff)
qed

text \<open>A connection that is closed and given back.\<close>

lemma close_free_held:
  assumes "held s free cur act" "in_use s free c" "c \<notin> set act" "tcp_free_connection (snd (os_close s (cn_fd (nt_conns s c)))) c = m"
  shows "case m of Inl u \<Rightarrow> ends u | Inr s' \<Rightarrow> held s' (c # free) cur act"
proof -
  let ?s = "snd (os_close s (cn_fd (nt_conns s c)))"
  have h: "held ?s free cur act" using os_close_held [OF assms(1)] .
  have u: "in_use ?s free c" using assms(2) by (simp add: in_use_def os_close_frame)
  have "c \<notin> (snd \<circ> snd) ` set (nt_interest ?s)" using assms(1) by (auto simp: os_close_frame held_def)
  then show ?thesis
    using assms(3,4) tcp_free_connection_ends [OF u] tcp_free_connection_held [OF h u] by (auto split: sum.splits)
qed

lemma accept_conn_keeps:
  assumes "held s free cur act"
  shows "keeps cur act (accept_conn s conn c_fd peer)"
proof -
  let ?lg = "cn_logger (nt_conns s conn)"
  obtain c s1 where g: "tcp_get_connection s c_fd = (c, s1)" by fastforce
  have logs: "held (log_error s' lg e t) free' cur act" if "held s' free' cur act" for s' free' lg e t
    using held_quiet [OF that quiet_step(2) [OF quiet_refl [OF held_bufs [OF that]]]] .
  show ?thesis
  proof (cases "c = NULL")
    case True
    then have "held s1 free cur act" using tcp_get_connection_held [OF assms g] by (auto simp: in_use_def)
    then have "held (snd (os_close (log_error s1 ?lg 0 ''get connection from pool failed, the pool may be full.'') c_fd)) free cur act"
      by (intro os_close_held logs)
    then show ?thesis using True g by (auto simp: accept_conn_def Let_def)
  next
    case False
    then obtain ys where h1: "held s1 ys cur act" "in_use s1 ys c" "c \<notin> set act"
      using tcp_get_connection_held [OF assms g] by auto
    obtain r s2 where a: "add_event s1 c EV_READ_EVENT H_recv = (r, s2)" by fastforce
    have h2: "held s2 ys cur act" using add_event_held [OF h1(1,2), of EV_READ_EVENT H_recv] a by simp
    have p2: "cn_pool (nt_conns s2 c) = cn_pool (nt_conns s1 c)" using add_event_pool [of s1 c EV_READ_EVENT H_recv] a by simp
    then have u2: "in_use s2 ys c" using h1(2) by (simp add: in_use_def)
    show ?thesis
    proof (cases "r = EVENT_ERROR")
      case True
      let ?s3 = "log_error s2 ?lg 0 ''add the read event of connection to event driver failed.''"
      have u3: "in_use ?s3 ys c" using u2 by (simp add: in_use_def frame_simps)
      from close_free_held [OF logs [OF h2] u3 h1(3) refl]
      have "keeps cur act (sbind (tcp_free_connection (snd (os_close ?s3 (cn_fd (nt_conns ?s3 c)))) c) (\<lambda>s5. Inr (TCP_SRV_ERROR, s5)))"
        by (auto split: sum.splits)
      then show ?thesis using True False g a by (simp add: accept_conn_def Let_def case_prod_beta)
    next
      case ok: False
      obtain pool where pool: "cn_pool (nt_conns s2 c) = Some pool" using u2 by (auto simp: in_use_def)
      obtain d s3 pool3 where p3: "pmalloc s2 pool 128 = (d, s3, pool3)" using prod_cases3 by blast
      have h3: "held s3 ys cur act" using held_quiet [OF h2 quiet_more [OF quiet_refl [OF held_bufs [OF h2]] pmalloc_more [OF p3]]] .
      have p: "cn_pool (nt_conns s3 c) \<noteq> None" using pool net_more(10) [OF pmalloc_more [OF p3]] by simp
      have h4: "held (upd_conn c (\<lambda>k. k\<lparr>cn_pool := Some pool3\<rparr>) s3) ys cur act"
        using held_set_pool [OF h3 p] .
      have "held (upd_conn c (\<lambda>k. k\<lparr>cn_client_addr := x, cn_client_port := y\<rparr>)
          (write_bytes (upd_conn c (\<lambda>k. k\<lparr>cn_pool := Some pool3\<rparr>) s3) d z)) ys cur act" for x y z
        by (rule held_upd_conn [OF held_quiet [OF h4 quiet_step(5) [OF quiet_refl [OF held_bufs [OF h4]]]]]) (simp add: same_conn_def)
      then show ?thesis using ok False g a pool p3 h4 by (auto simp: accept_conn_def Let_def)
    qed
  qed
qed

lemma tcp_server_accept_keeps:
  assumes "held s free cur act"
  shows "keeps cur act (tcp_server_accept s conn)"
proof -
  obtain c s1 where a: "accept_loop s (cn_fd (nt_conns s conn)) = Some (c, s1)" "quiet s s1"
    using accept_loop_ends [of s "cn_fd (nt_conns s conn)"] assms by (auto simp: held_def)
  obtain nb s2 where nb: "set_nonblock s1 c = (nb, s2)" by fastforce
  note q2 = set_nonblock_quiet [OF a(2) nb]
  obtain nd s3 where nd: "set_nodelay s2 c = (nd, s3)" by fastforce
  note q3 = set_nodelay_quiet [OF q2 nd]
  have k: "\<exists>free'. held s' free' cur act" if "quiet s s'" for s' using held_quiet [OF assms that] by blast
  have cl: "\<exists>free'. held (snd (os_close s' c)) free' cur act" if "quiet s s'" for s'
    using os_close_held [OF held_quiet [OF assms that]] by blast
  have ac: "keeps cur act (accept_conn s' conn c peer)" if "quiet s s'" for s' peer
    using accept_conn_keeps [OF held_quiet [OF assms that]] .
  show ?thesis
    using a nb nd q2 q3
    by (auto simp: tcp_server_accept_def Let_def intro!: k cl ac quiet_step)
qed

lemma call_handler_keeps:
  assumes "held s free cur act"
  shows "keeps cur act (call_handler h s conn)"
proof -
  have "keeps cur act (tcp_server_send s conn)"
    using tcp_server_send_settles [OF held_bufs [OF assms], of conn] held_quiet [OF assms] by fastforce
  then show ?thesis
    using tcp_server_accept_keeps [OF assms] keeps_settles [OF assms tcp_server_recv_settles [OF held_bufs [OF assms]]]
    by (auto simp: call_handler_def split: option.split handler.split)
qed

lemma run_handlers_keeps:
  assumes "held s free cur act"
  shows "case run_handlers s conn of Inl u \<Rightarrow> ends u | Inr s' \<Rightarrow> \<exists>free'. held s' free' cur act"
proof -
  have step: "(\<exists>u. m = Inl u \<and> ends u) \<or> (\<exists>s' free'. m = Inr s' \<and> held s' free' cur act)"
    if "held s free cur act" "m = (if b then sbind (call_handler h s conn) (\<lambda>(_, s1). Inr s1) else Inr s)" for b h s free m
    using call_handler_keeps [OF that(1), of h conn] that
    by (cases "call_handler h s conn") (auto simp: keeps_def split: prod.splits)
  from step [OF assms refl, of "cn_active_events (nt_conns s conn) AND EV_READ_EVENT \<noteq> 0" "cn_read_handler (nt_conns s conn)"]
  show ?thesis
  proof (elim disjE exE conjE)
    fix s1 free1
    assume m: "(if cn_active_events (nt_conns s conn) AND EV_READ_EVENT \<noteq> 0
        then sbind (call_handler (cn_read_handler (nt_conns s conn)) s conn) (\<lambda>(_, s1). Inr s1) else Inr s) = Inr s1"
      and h: "held s1 free1 cur act"
    from step [OF h refl, of "cn_active_events (nt_conns s1 conn) AND EV_WRITE_EVENT \<noteq> 0" "cn_write_handler (nt_conns s1 conn)"]
    show ?thesis unfolding run_handlers_def m by auto
  qed (simp add: run_handlers_def)
qed

section \<open>The loop\<close>

lemma held_tl:
  assumes "held s free c (c # rest)"
  shows "held s free (cn_next (nt_conns s c)) rest" "in_use s free c" "c \<notin> set rest"
  using assms by (auto simp: held_def)

lemma clean_conn_held:
  assumes "held s free c (c # rest)"
  shows "case clean_conn s c of Inl u \<Rightarrow> ends u | Inr (nxt, s') \<Rightarrow> \<exists>free'. held s' free' nxt rest"
proof -
  define s1 where "s1 = (if cn_dead_events (nt_conns s c) \<noteq> 0
    then upd_conn c (\<lambda>k. k\<lparr>cn_dead_events := EV_NONE_EVENT\<rparr>) (snd (del_event s c (cn_dead_events (nt_conns s c)))) else s)"
  have h1: "held s1 free c (c # rest)"
    using assms del_event_held [OF assms held_tl(2) [OF assms]]
    by (auto simp: s1_def same_conn_def intro!: held_upd_conn)
  note t1 = held_tl [OF h1]
  show ?thesis
  proof (cases "cn_close (nt_conns s1 c) \<noteq> 0")
    case True
    let ?s2 = "snd (os_close s1 (cn_fd (nt_conns s1 c)))"
    have "clean_conn s c = sbind (tcp_free_connection ?s2 c) (\<lambda>s3. Inr (cn_next (nt_conns s1 c), s3))"
      using True unfolding clean_conn_def Let_def s1_def [symmetric] by (simp add: case_prod_beta os_close_frame)
    then show ?thesis using close_free_held [OF t1 refl] by (auto split: sum.splits)
  next
    case False
    define s2 where "s2 = (if cn_add_events (nt_conns s1 c) \<noteq> 0
      then upd_conn c (\<lambda>k. k\<lparr>cn_add_events := EV_NONE_EVENT\<rparr>) (snd (add_event s1 c (cn_add_events (nt_conns s1 c)) H_send)) else s1)"
    have "held s2 free c (c # rest)"
      using h1 add_event_held [OF h1 t1(2)] by (auto simp: s2_def same_conn_def intro!: held_upd_conn)
    moreover have "clean_conn s c = Inr (cn_next (nt_conns s2 c), s2)"
      using False unfolding clean_conn_def Let_def s1_def [symmetric] s2_def [symmetric] by simp
    ultimately show ?thesis using held_tl(1) [of s2] by fastforce
  qed
qed

lemma events_loop_ends:
  "held s free cur act \<Longrightarrow>
   \<exists>m. events_loop s cur = Some m \<and> (case m of Inl u \<Rightarrow> ends u | Inr s' \<Rightarrow> \<exists>free'. held s' free' NULL [])"
proof (induction act arbitrary: s free cur)
  case Nil
  then have "cur = NULL" by (simp add: held_def)
  then show ?case using Nil by (subst events_loop.simps) auto
next
  case (Cons c rest)
  then have c: "cur = c" "c \<noteq> NULL" by (auto simp: held_def)
  have h: "held s free c (c # rest)" using Cons.prems c(1) by simp
  show ?case
  proof (cases "run_handlers s c")
    case (Inl u)
    then show ?thesis using run_handlers_keeps [OF h, of c] c by (subst events_loop.simps) simp
  next
    case (Inr s1)
    then obtain free1 where h1: "held s1 free1 c (c # rest)" using run_handlers_keeps [OF h, of c] by auto
    show ?thesis
    proof (cases "clean_conn s1 c")
      case Inl': (Inl u)
      then show ?thesis using clean_conn_held [OF h1] Inr c by (subst events_loop.simps) simp
    next
      case Inr': (Inr x)
      obtain nxt s2 where x: "x = (nxt, s2)" by fastforce
      then obtain free2 where "held s2 free2 nxt rest" using clean_conn_held [OF h1] Inr' by auto
      from Cons.IH [OF this] show ?thesis using Inr Inr' x c by (subst events_loop.simps) simp
    qed
  qed
qed

lemma distinct_events_ptrs:
  "distinct (map snd (distinct_events es))" "set (distinct_events es) \<subseteq> set es"
proof (induction es)
  case (Cons e es)
  { case 1 show ?case using Cons.IH(1) by (auto simp: distinct_map_filter) }
  { case 2 show ?case using Cons.IH(2) by auto }
qed simp_all

lemma poll_events_held:
  assumes "held s free (ed_active_conns (nt_driver s)) act" "distinct (map snd evs)"
    "\<forall>e \<in> set evs. in_use s free (snd e) \<and> snd e \<notin> set act"
  shows "held (foldl poll_event s evs) free (ed_active_conns (nt_driver (foldl poll_event s evs))) (rev (map snd evs) @ act)"
  using assms
proof (induction evs arbitrary: s act)
  case (Cons e evs)
  let ?c = "snd e" and ?s = "poll_event s e"
  have f: "nt_conns ?s = (nt_conns s)(?c := (nt_conns s ?c)\<lparr>cn_active_events := active_mask (fst e),
      cn_next := ed_active_conns (nt_driver s)\<rparr>)" "ed_active_conns (nt_driver ?s) = ?c" "nt_interest ?s = nt_interest s"
    "nt_server ?s = nt_server s" "nt_bufs ?s = nt_bufs s" "os_fail ?s = os_fail s"
    by (simp_all add: poll_event_def Let_def frame_simps)
  have u: "in_use ?s free x = in_use s free x" "cn_fd (nt_conns ?s x) = cn_fd (nt_conns s x)" for x
    by (simp_all add: in_use_def f(1))
  have c: "?c \<noteq> NULL" "?c \<notin> set free" "?c \<notin> set act" using Cons.prems(3) by (auto simp: in_use_def)
  have "held ?s free ?c (?c # act)"
    using Cons.prems(1,3) c unfolding held_def free_list_def bufs_ok_def u f(3-6) by (auto simp: f(1) chain_other)
  then have "held ?s free (ed_active_conns (nt_driver ?s)) (?c # act)" by (simp add: f(2))
  from Cons.IH [OF this] Cons.prems(2,3) show ?case by (auto simp: u image_iff) metis
qed simp

lemma epoll_polling_held:
  assumes "held s free NULL []" "ed_active_conns (nt_driver s) = NULL" "epoll_polling s = Inr (r, s')"
  shows "\<exists>act. held s' free (ed_active_conns (nt_driver s')) act"
proof -
  obtain evs s1 where w: "os_epoll_wait s (ep_fd (ed_io_ctx (nt_driver s))) (ed_size (nt_driver s)) = (evs, s1)" by fastforce
  have s1: "\<exists>x r. s1 = os_done s x r" and evs: "evs = [] \<or> evs = take (nat (ed_size (nt_driver s)))
      (distinct_events (filter (event_allowed (nt_interest s)) (os_events s (os_calls s))))"
    using w by (auto simp: os_epoll_wait_def Let_def)
  have d: "distinct (map snd evs)"
    using evs distinct_events_ptrs(1) [of "filter (event_allowed (nt_interest s)) (os_events s (os_calls s))"]
    by (auto simp flip: take_map)
  have "in_use s free (snd e)" if "e \<in> set evs" for e
  proof -
    have "event_allowed (nt_interest s) e"
      using that evs distinct_events_ptrs(2) [of "filter (event_allowed (nt_interest s)) (os_events s (os_calls s))"]
      by (auto dest!: in_set_takeD)
    then show ?thesis using assms(1) by (fastforce simp: event_allowed_def list_ex_iff held_def)
  qed
  moreover have "held s1 free (ed_active_conns (nt_driver s1)) []"
    using s1 assms held_quiet [OF assms(1) quiet_step(1) [OF quiet_refl [OF held_bufs [OF assms(1)]]]] by (auto simp: frame_simps)
  moreover have "in_use s1 free x = in_use s free x" for x using s1 by (auto simp: in_use_def frame_simps)
  ultimately show ?thesis using poll_events_held [of s1 free "[]" evs] d w assms(3)
    by (auto simp: epoll_polling_def Let_def split: if_splits)
qed

definition net_ready :: "net \<Rightarrow> bool" where
  "net_ready s \<longleftrightarrow> (\<exists>free. held s free NULL []) \<and> ed_active_conns (nt_driver s) = NULL"

lemma process_events_ready:
  assumes "net_ready s"
  shows "case process_events s of Inl u \<Rightarrow> ends u | Inr (r, s') \<Rightarrow> r = EVENT_OK \<and> net_ready s'"
proof (cases "epoll_polling s")
  case (Inl u)
  then have "ends u" by (auto simp: epoll_polling_def Let_def ends_def split: if_splits prod.splits)
  then show ?thesis using Inl by (simp add: process_events_def)
next
  case (Inr x)
  then obtain r s1 where p: "epoll_polling s = Inr (r, s1)" by (cases x) simp
  obtain free act where "held s1 free (ed_active_conns (nt_driver s1)) act"
    using assms epoll_polling_held [OF _ _ p] unfolding net_ready_def by blast
  from events_loop_ends [OF this] obtain m where m: "events_loop s1 (ed_active_conns (nt_driver s1)) = Some m"
    "case m of Inl u \<Rightarrow> ends u | Inr s' \<Rightarrow> \<exists>free'. held s' free' NULL []" by blast
  have drv: "held (s'\<lparr>nt_driver := d\<rparr>) free' NULL [] = held s' free' NULL []" for s' d free'
    by (simp add: held_def free_list_def bufs_ok_def in_use_def)
  show ?thesis
    using m p by (cases m) (auto simp: process_events_def net_ready_def drv)
qed

section \<open>Properties\<close>

text \<open>
  C3: a round of the event loop always ends.  Whatever the kernel answers (it may fail any
  call, report any events of registered connections, deliver and take any number of bytes),
  as long as it does not interrupt every \<open>accept\<close> for ever: from a state in which the free
  list is intact and the registered connections are in use, \<open>process_events\<close> runs the handlers
  of all active connections to the end and leaves such a state again; or the run ends
  abnormally, but never in an endless loop and never by following a null pointer to a request,
  a pool or the settings.
\<close>

theorem process_events_ends:
  assumes "net_ready s"
  shows "case process_events s of Inl u \<Rightarrow> u \<noteq> Diverges \<and> u \<noteq> Null_deref
    | Inr (r, s') \<Rightarrow> r = EVENT_OK \<and> net_ready s'"
  using process_events_ready [OF assms] by (auto simp: ends_def split: sum.splits)

text \<open>A connection that is registered for reading and has something to read.\<close>

definition demo_active :: net where
  "demo_active = (demo_net (\<lambda>_. 4) (\<lambda>_. ''PUT''))
     \<lparr>os_events := (\<lambda>_. [(EPOLLIN, 4096)]), nt_interest := [(7, EPOLLIN, 4096)],
      nt_conns := (\<lambda>_. connection_zero\<lparr>cn_fd := 7, cn_events := EV_READ_EVENT, cn_read_handler := Some H_recv,
        cn_pool := Some demo_pool\<rparr>)\<rparr>"

lemma demo_active_ready: "net_ready demo_active"
  unfolding net_ready_def held_def
  by (rule conjI, rule exI [of _ "[]"]) (auto simp: demo_active_def demo_net_def demo_world_def world.defs cmem.defs free_list_def bufs_ok_def buf_ok_def in_use_def)

theorem process_events_ends_witness:
  "net_ready demo_active \<and> (case process_events demo_active of Inl u \<Rightarrow> u \<noteq> Diverges \<and> u \<noteq> Null_deref
    | Inr (r, s') \<Rightarrow> r = EVENT_OK \<and> net_ready s')"
  using process_events_ends [OF demo_active_ready] demo_active_ready by simp

end
