(* ===== verification/Balance.thy ===== *)
theory Balance
  imports Modules
begin

text \<open>
  Telling whether an allocation has failed.  While nothing is freed, the number of live blocks
  and the number of calls of \<open>malloc\<close> grow together, and a call that fails makes the balance
  of the two sink.  Here: the balance through the operations that allocate, and what each of
  them leaves of the state of the program.
\<close>

section \<open>The balance of allocations\<close>

definition balance :: "'a cmem_scheme \<Rightarrow> int" where
  "balance w = int (length (cm_live w)) - int (cm_calls w)"

lemma balance_more [simp]:
  "balance (log_error w lg e f) = balance w" "balance (log_stderr w e f) = balance w"
  "balance (write_bytes w a bs) = balance w" "balance (memset w a c n) = balance w"
  "balance (os_done v sc r) = balance v"
  by (simp_all add: balance_def frame_simps write_bytes_def memset_def)

lemma malloc_balance:
  assumes "malloc w n = (a, w')"
  shows "balance w' = (if a = NULL then balance w - 1 else balance w)"
  using assms by (auto elim!: malloc_cases simp: balance_def)

lemma balance_free_block: "balance (free_block w a) \<le> balance w"
  by (simp add: balance_def frame_simps)

lemma add_mem_chunk_balance:
  assumes "add_mem_chunk w p n = (a, w', p')"
  shows "balance w' = (if a = NULL then balance w - 1 else balance w)"
proof -
  obtain c w1 where m: "malloc w (if n > mp_total p then n else mp_total p) = (c, w1)" by fastforce
  show ?thesis using assms m malloc_balance [OF m]
    by (auto simp: add_mem_chunk_def Let_def split: prod.splits if_splits)
qed

lemma pmalloc_small_balance:
  assumes wf: "chunks_wf w p" and r: "pmalloc_small w p n = (a, w', p')"
  shows "balance w' = (if a = NULL then balance w - 1 else balance w)"
proof (cases "chunk_scan n (drop (mp_current p) (mp_chunks p))")
  case None
  with r show ?thesis by (intro add_mem_chunk_balance [of w p n a w' p']) (simp add: pmalloc_small_def Let_def)
next
  case (Some x)
  obtain b rest where x: "x = (b, rest)" by (cases x)
  have "grants w p b n w (p\<lparr>mp_chunks := take (mp_current p) (mp_chunks p) @ rest\<rparr>)"
    using scan_spec [OF wf Some [unfolded x] refl] .
  with Some x r show ?thesis by (auto simp: pmalloc_small_def Let_def grants_def)
qed

lemma pmalloc_balance:
  assumes wf: "pool_wf w p" and r: "pmalloc w p n = (a, w', p')"
  shows "balance w' \<le> balance w" "a = NULL \<longleftrightarrow> balance w' < balance w"
proof -
  have "balance w' \<le> balance w \<and> (a = NULL \<longleftrightarrow> balance w' < balance w)"
  proof (cases "n \<le> mp_max p")
    case True
    then show ?thesis
      using pmalloc_small_balance [of w p n a w' p'] wf r by (auto simp: pmalloc_def pool_wf_def split: if_splits)
  next
    case False
    then have r1: "alloc_large_mem w p n = (a, w', p')" using r by (simp add: pmalloc_def)
    obtain d w1 where m: "malloc w n = (d, w1)" by fastforce
    have wf1: "chunks_wf w1 p" using pool_wf_malloc [OF wf m] by (simp add: pool_wf_def)
    obtain h w2 p2 where h: "pmalloc_small w1 p sizeof_mem_pool_large_t = (h, w2, p2)" using prod_cases3 by blast
    note b = malloc_balance [OF m] pmalloc_small_balance [OF wf1 h]
      balance_free_block [of "log_error w2 (mp_logger p) 0 ''alloc_large_mem - header failed.''" d]
    show ?thesis using r1 m h b
      by (auto simp: alloc_large_mem_def Let_def split: if_splits option.splits)
  qed
  then show "balance w' \<le> balance w" "a = NULL \<longleftrightarrow> balance w' < balance w" by auto
qed

section \<open>What stays of the program's state\<close>

text \<open>The part of the state that allocating from the pool of the configuration leaves alone.\<close>

definition settled :: "prog \<Rightarrow> prog \<Rightarrow> bool" where
  "settled s s' \<longleftrightarrow> os_answer s' = os_answer s \<and> os_fail s' = os_fail s \<and> os_input s' = os_input s \<and> os_calls s' = os_calls s \<and>
     os_trace s' = os_trace s \<and> pg_install_dir s' = pg_install_dir s \<and> pg_mods s' = pg_mods s \<and>
     cf_file s' = cf_file s \<and> cf_mod_cmds s' = cf_mod_cmds s \<and> cf_mod_cfs s' = cf_mod_cfs s"

lemma prog_more:
  fixes s s' :: prog
  assumes "cmem.more s' = cmem.more s"
  shows "settled s s'" "cf_pool s' = cf_pool s" "rs_sys_mod_num s' = rs_sys_mod_num s"
  using assms unfolding settled_def by (cases s; cases s'; simp)+

lemma settled_refl [simp, intro]: "settled s s" by (simp add: settled_def)

lemma settled_trans [trans]: "settled s t \<Longrightarrow> settled t u \<Longrightarrow> settled s u"
  by (simp add: settled_def)

lemma settled_upd [simp]:
  "settled s (t\<lparr>cf_pool := p\<rparr>) = settled s t" "settled s (t\<lparr>cf_blocks := n\<rparr>) = settled s t"
  by (simp_all add: settled_def)

text \<open>The pool of the configuration: well-formed and of the size that \<open>conf_file_init\<close> gives it.\<close>

definition pool_good :: "prog \<Rightarrow> mem_pool_t \<Rightarrow> bool" where
  "pool_good s p \<longleftrightarrow> pool_wf s p \<and> mp_max p = 1024 \<and> 1024 \<le> mp_total p"

definition fits_conf :: "nat \<Rightarrow> bool" where
  "fits_conf n \<longleftrightarrow> n \<le> 992 \<or> 1024 < n"

lemma fits_conf_request: "pool_good s p \<Longrightarrow> fits_conf n \<Longrightarrow> request_fits p n"
  by (auto simp: pool_good_def fits_conf_def request_fits_def sizeof_defs)

lemma pool_good_cong:
  assumes "pool_good s p" "cm_live s' = cm_live s"
  shows "pool_good s' p"
proof -
  have "live_wf s" using assms(1) by (simp add: pool_good_def pool_wf_def chunks_wf_def)
  then have "live_wf s'" using assms(2) by (simp add: live_wf_def)
  then show ?thesis using pool_wf_mono [of s p s'] assms by (simp add: pool_good_def)
qed

text \<open>
  How far an operation has brought the state: nothing of it but memory, pool and log has
  changed, and the balance tells whether an allocation failed.
\<close>

definition allocs :: "prog \<Rightarrow> prog \<times> mem_pool_t \<Rightarrow> bool \<Rightarrow> bool" where
  "allocs s t failed \<longleftrightarrow> pool_good (fst t) (snd t) \<and> settled s (fst t) \<and> balance (fst t) \<le> balance s \<and>
     (failed \<longleftrightarrow> balance (fst t) < balance s)"

lemma allocs_trans: "allocs s (t, p) False \<Longrightarrow> allocs t u b \<Longrightarrow> allocs s u b"
  by (auto simp: allocs_def intro: settled_trans)

lemma allocs_refl: "pool_good s p \<Longrightarrow> allocs s (s, p) False"
  by (simp add: allocs_def)

text \<open>The relation does not depend on the bytes of the memory, the log, and the field for the pool.\<close>

lemma allocs_cong:
  assumes "settled t t'" "cm_live t' = cm_live t" "balance t' = balance t"
  shows "allocs s (t', p) b = allocs s (t, p) b"
proof -
  have "settled s t' = settled s t" using assms(1) by (auto simp: settled_def)
  moreover have "pool_good t' p = pool_good t p" using pool_good_cong [of t p t'] pool_good_cong [of t' p t] assms(2) by auto
  ultimately show ?thesis using assms(3) by (simp add: allocs_def)
qed

lemma allocs_simps [simp]:
  "allocs s (log_error t lg e f, p) b = allocs s (t, p) b" "allocs s (log_stderr t e f, p) b = allocs s (t, p) b"
  "allocs s (write_bytes t a bs, p) b = allocs s (t, p) b" "allocs s (memset t a c n, p) b = allocs s (t, p) b"
  "allocs s (t\<lparr>cf_pool := q\<rparr>, p) b = allocs s (t, p) b"
proof -
  have m: "cmem.more (log_error t lg e f) = cmem.more t" "cmem.more (log_stderr t e f) = cmem.more t"
    "cmem.more (write_bytes t a bs) = cmem.more t" "cmem.more (memset t a c n) = cmem.more t"
    by (simp_all add: frame_simps log_stderr_def log_emit_def)
  note P = prog_more(1) [OF m(1)] prog_more(1) [OF m(2)] prog_more(1) [OF m(3)] prog_more(1) [OF m(4)]
  show "allocs s (log_error t lg e f, p) b = allocs s (t, p) b" "allocs s (log_stderr t e f, p) b = allocs s (t, p) b"
    "allocs s (write_bytes t a bs, p) b = allocs s (t, p) b" "allocs s (memset t a c n, p) b = allocs s (t, p) b"
    "allocs s (t\<lparr>cf_pool := q\<rparr>, p) b = allocs s (t, p) b"
    by (rule allocs_cong; use P in \<open>simp add: frame_simps write_bytes_def memset_def balance_def\<close>)+
qed

lemma allocs_from [simp]: "allocs (s\<lparr>cf_pool := q\<rparr>) t b = allocs s t b"
  by (simp add: allocs_def settled_def balance_def)

lemma pool_good_upd [simp]: "pool_good (s\<lparr>cf_pool := q\<rparr>) p = pool_good s p"
  using pool_good_cong [of s p "s\<lparr>cf_pool := q\<rparr>"] pool_good_cong [of "s\<lparr>cf_pool := q\<rparr>" p s] by auto

lemma allocs_good: "allocs s (t, p) b \<Longrightarrow> pool_good t p"
  by (simp add: allocs_def)

lemma pmalloc_allocs:
  assumes "pool_good s p" "fits_conf n" "pmalloc s p n = (a, s', p')"
  shows "allocs s (s', p') (a = NULL)" "a \<noteq> NULL \<Longrightarrow> 0 < n \<Longrightarrow> a + n \<le> addr_top"
proof -
  have wf: "pool_wf s p" using assms(1) by (simp add: pool_good_def)
  have st: "pool_step s p a n s' p'" by (rule pmalloc_spec [OF wf fits_conf_request [OF assms(1,2)] assms(3)])
  have wf': "pool_wf s' p'" using st by (simp add: pool_step_def)
  have "settled s s'" by (rule prog_more(1) [OF pmalloc_more [OF assms(3)]])
  then show "allocs s (s', p') (a = NULL)"
    using st assms(1) pmalloc_balance [OF wf assms(3)] by (auto simp: allocs_def pool_good_def pool_step_def)
  show "a + n \<le> addr_top" if "a \<noteq> NULL" "0 < n"
  proof -
    have "a + (n - 1) \<in> pool_owned s' p'" using st that by (auto simp: pool_step_def cells_def)
    then have "a + (n - 1) \<in> live_set s'" using pool_owned_live [OF wf'] by blast
    moreover have "live_wf s'" using wf' by (simp add: pool_wf_def chunks_wf_def)
    ultimately show ?thesis using live_set_top [of s'] that by fastforce
  qed
qed

section \<open>The operations on the state of the program\<close>

abbreviation pool_ok :: "prog \<Rightarrow> bool" where
  "pool_ok s \<equiv> pool_good s (cf_pool s)"

abbreviation allocates :: "prog \<Rightarrow> prog \<Rightarrow> bool \<Rightarrow> bool" where
  "allocates s t failed \<equiv> allocs s (t, cf_pool t) failed"

lemma conf_pmalloc_allocates:
  assumes "pool_ok s" "fits_conf n" "conf_pmalloc s n = (a, s')"
  shows "allocates s s' (a = NULL)" "a \<noteq> NULL \<Longrightarrow> 0 < n \<Longrightarrow> a + n \<le> addr_top"
proof -
  obtain s1 p1 where r: "pmalloc s (cf_pool s) n = (a, s1, p1)" "s' = s1\<lparr>cf_pool := p1\<rparr>"
    using assms(3) by (auto simp: conf_pmalloc_def split: prod.splits)
  from pmalloc_allocs [OF assms(1,2) r(1)]
  show "allocates s s' (a = NULL)" "a \<noteq> NULL \<Longrightarrow> 0 < n \<Longrightarrow> a + n \<le> addr_top" by (simp_all add: r(2))
qed

lemma conf_pcalloc_allocates:
  assumes "pool_ok s" "fits_conf n" "conf_pcalloc s n = (a, s')"
  shows "allocates s s' (a = NULL)" "a \<noteq> NULL \<Longrightarrow> 0 < n \<Longrightarrow> a + n \<le> addr_top"
    "a \<noteq> NULL \<Longrightarrow> a \<le> x \<Longrightarrow> x < a + n \<Longrightarrow> cm_mem s' x = NUL"
proof -
  obtain s1 p1 where r: "pmalloc s (cf_pool s) n = (a, s1, p1)"
    "s' = (if a \<noteq> NULL then memset s1 a NUL n else s1)\<lparr>cf_pool := p1\<rparr>"
    using assms(3) by (auto simp: conf_pcalloc_def pcalloc_def split: prod.splits if_splits)
  note P = pmalloc_allocs [OF assms(1,2) r(1)]
  show "allocates s s' (a = NULL)" using P(1) by (auto simp: r(2))
  show "a \<noteq> NULL \<Longrightarrow> 0 < n \<Longrightarrow> a + n \<le> addr_top" by (rule P(2))
  show "a \<noteq> NULL \<Longrightarrow> a \<le> x \<Longrightarrow> x < a + n \<Longrightarrow> cm_mem s' x = NUL" by (simp add: r(2) memset_def)
qed

lemma create_allocs:
  assumes "pool_good s p" "dynamic_array_create s p 10 16 = (r, s', p')"
  shows "allocs s (s', p') (r = None)"
    "r = Some a \<Longrightarrow> array_wf a \<and> elems a = [] \<and> da_size a = 16 \<and> da_nalloc a = 10"
proof -
  obtain d s1 p1 where m1: "pmalloc s p sizeof_dynamic_array_t = (d, s1, p1)" using prod_cases3 by blast
  obtain e s2 p2 where m2: "pmalloc s1 p1 160 = (e, s2, p2)" using prod_cases3 by blast
  show "r = Some a \<Longrightarrow> array_wf a \<and> elems a = [] \<and> da_size a = 16 \<and> da_nalloc a = 10"
    using assms(2) m1 m2 by (auto simp: dynamic_array_create_def array_wf_def array_shape_def elems_def split: if_splits)
  have A1: "allocs s (s1, p1) (d = NULL)"
    by (rule pmalloc_allocs(1) [OF assms(1) _ m1]) (simp add: fits_conf_def sizeof_defs)
  have A2: "allocs s1 (s2, p2) (e = NULL)"
    by (rule pmalloc_allocs(1) [OF allocs_good [OF A1] _ m2]) (simp add: fits_conf_def)
  show "allocs s (s', p') (r = None)"
    using A1 A2 allocs_trans [of s s1 p1 "(s2, p2)" "e = NULL"] assms(2) m1 m2
    by (auto simp: dynamic_array_create_def split: if_splits)
qed

lemma init_allocs:
  assumes "pool_good s p" "n \<le> 10" "0 < n" "dynamic_array_init s p n sizeof_ptr = (r, s', p')"
  shows "allocs s (s', p') (r = None)"
    "r = Some a \<Longrightarrow> array_wf a \<and> elems a = [] \<and> da_size a = 8 \<and> da_nalloc a = n"
proof -
  have "n * sizeof_ptr mod size_mod = n * 8" using assms(2) by (simp add: sizeof_defs)
  then obtain e where m: "pmalloc s p (n * 8) = (e, s', p')" "r = None \<longleftrightarrow> e = NULL"
    and a: "r = Some a \<Longrightarrow> a = \<lparr>da_elts = e, da_size = sizeof_ptr, da_nelts = 0, da_nalloc = n, da_cells = Map.empty\<rparr>"
    using assms(4) by (auto simp: dynamic_array_init_def split: prod.splits if_splits)
  show "allocs s (s', p') (r = None)"
    using pmalloc_allocs(1) [OF assms(1) _ m(1)] assms(2) m(2) by (simp add: fits_conf_def)
  show "array_wf a \<and> elems a = [] \<and> da_size a = 8 \<and> da_nalloc a = n" if "r = Some a"
    using a [OF that] m(2) that assms(2,3) by (simp add: array_wf_def array_shape_def elems_def sizeof_defs)
qed

text \<open>An array of arguments: the sizes it grows through are those of doubled capacities.\<close>

definition args_wf :: "'e dynamic_array_t \<Rightarrow> bool" where
  "args_wf a \<longleftrightarrow> array_wf a \<and> da_size a = 16 \<and> (\<exists>j. da_nalloc a = 10 * 2 ^ j)"

lemma fits_doubled: "fits_conf (320 * 2 ^ j)"
proof (cases "j < 2")
  case True
  then show ?thesis by (auto simp: fits_conf_def less_2_cases_iff)
next
  case False
  then have "(2::nat) ^ 2 \<le> 2 ^ j" by (intro power_increasing) auto
  then show ?thesis by (simp add: fits_conf_def)
qed

lemma push_allocs:
  assumes "pool_good s p" "args_wf a" "da_nelts a < 2147483648" "dynamic_array_push s p a = (q, s', p', a')"
  shows "allocs s (s', p') (q = NULL)"
    "q \<noteq> NULL \<Longrightarrow> args_wf (da_store a' q x) \<and> elems (da_store a' q x) = elems a @ [x] \<and>
       da_nelts (da_store a' q x) = Suc (da_nelts a)"
proof -
  have wf: "array_wf a" "da_size a = 16" using assms(2) by (auto simp: args_wf_def)
  note D = array_wfD [OF wf(1)]
  obtain j where j: "da_nalloc a = 10 * 2 ^ j" using assms(2) by (auto simp: args_wf_def)
  have g: "fits_conf (grow_request a)"
    using D(3) wf(2) fits_doubled [of j] by (simp add: grow_request_def j)
  from assms(4) show "allocs s (s', p') (q = NULL)"
  proof (cases rule: push_cases)
    case room
    then show ?thesis using D(5) allocs_refl [OF assms(1)] by simp
  next
    case (fail w1)
    then show ?thesis using pmalloc_allocs(1) [OF assms(1) g fail(3)] by simp
  next
    case (grow new)
    then show ?thesis using pmalloc_allocs(1) [OF assms(1) g grow(2)] by simp
  qed
  assume q: "q \<noteq> NULL"
  have v: "da_push_value s p a x = (q, s', p', da_store a' q x)"
    using q assms(4) by (simp add: da_push_value_def)
  have V: "array_wf (da_store a' q x)" "elems (da_store a' q x) = elems a @ [x]"
    using da_push_value_spec [OF wf(1) assms(3) v] q by auto
  have "da_nelts (da_store a' q x) = length (elems (da_store a' q x))" using V(1) by simp
  then have n: "da_nelts (da_store a' q x) = Suc (da_nelts a)" using V(2) wf(1) by simp
  from assms(4) have "da_size a' = 16 \<and> (\<exists>j. da_nalloc a' = 10 * 2 ^ j)"
  proof (cases rule: push_cases)
    case (grow new)
    have "da_nalloc (grown a new) = 10 * 2 ^ Suc j"
      using grown_wf(4) [OF wf(1) grow(1), of new] grow assms(3) by (simp add: j)
    then have "da_nalloc a' = 10 * 2 ^ Suc j" using grow(5) by (simp only: next_slot_def) simp
    moreover have "da_size a' = 16" using wf(2) grow(5) by (simp add: next_slot_def grown_def)
    ultimately show ?thesis by blast
  qed (use q wf(2) j in \<open>auto simp: next_slot_def\<close>)
  then show "args_wf (da_store a' q x) \<and> elems (da_store a' q x) = elems a @ [x] \<and>
       da_nelts (da_store a' q x) = Suc (da_nelts a)"
    using V n by (simp add: args_wf_def da_store_def)
qed

end
