(* ===== verification/ConfSpec.thy ===== *)
theory ConfSpec
  imports ConfFile
begin

text \<open>
  The configuration language.  \<open>conf_spec_step\<close> is the parser without memory: its state has the
  settings, and an argument is its bytes.  \<open>config\<close> is the abstract syntax, \<open>print_conf\<close> its
  layout and \<open>eval_conf\<close> its meaning; the parser without memory computes that meaning.
\<close>

section \<open>Settings\<close>

record settings =
  set_main :: "xpipe_main_mod_conf_t option"
  set_net :: "xpipe_net_mod_conf_t option"
  set_main_log :: "(log_level \<times> byte list) option"
  set_net_log :: "(log_level \<times> byte list) option"

definition no_settings :: settings where
  "no_settings = \<lparr>set_main = None, set_net = None, set_main_log = None, set_net_log = None\<rparr>"

definition main_default :: "byte list \<Rightarrow> xpipe_main_mod_conf_t" where
  "main_default dir = \<lparr>mc_daemon = 0,
     mc_pid_file = \<lparr>fl_fd = FL_INVALID_FD, fl_offset = 0, fl_name = xstring (dir @ ''/log/xpipe.pid'')\<rparr>,
     mc_log = string_null\<rparr>"

definition net_default :: xpipe_net_mod_conf_t where
  "net_default = \<lparr>nc_port = 0, nc_conns = 0, nc_nodelay = 0, nc_request_buffer_size = 0, nc_netwk = NULL\<rparr>"

text \<open>The file an argument names: relative names start at the install directory.\<close>

definition file_name :: "byte list \<Rightarrow> byte list \<Rightarrow> byte list" where
  "file_name dir a = (if a \<noteq> [] \<and> hd a = CHR ''/'' then a else cstr (full_name_of dir a))"

definition level_named :: "byte list \<Rightarrow> log_level option" where
  "level_named a = map_of [(''error'', LOG_LEVEL_ERROR), (''warn'', LOG_LEVEL_WARN), (''info'', LOG_LEVEL_INFO),
     (''debug'', LOG_LEVEL_DEBUG), (''stdout'', LOG_LEVEL_STDOUT)] (cstr a)"

definition positive_number :: "byte list \<Rightarrow> nat option" where
  "positive_number a =
     (if a \<noteq> [] \<and> hd a \<noteq> CHR ''0'' \<and> list_all is_digit a then Some (to_uint (c_atoi a)) else None)"

section \<open>The meaning of blocks and commands\<close>

text \<open>Entering a block resets the configuration of its module.\<close>

definition spec_enter :: "byte list \<Rightarrow> byte list \<Rightarrow> settings \<Rightarrow> (nat \<times> settings) option" where
  "spec_enter dir name st =
     (if cstr name = ''main'' then Some (0, st\<lparr>set_main := Some (main_default dir)\<rparr>)
      else if cstr name = ''net'' then Some (1, st\<lparr>set_net := Some net_default\<rparr>)
      else None)"

definition spec_main_cmd :: "byte list \<Rightarrow> byte list \<Rightarrow> byte list list \<Rightarrow>
    (xpipe_main_mod_conf_t \<Rightarrow> xpipe_main_mod_conf_t) option" where
  "spec_main_cmd dir name args =
     (case args of [a] \<Rightarrow>
        if name = ''daemon'' then Some (\<lambda>c. c\<lparr>mc_daemon := (if cstr a = ''off'' then 0 else 1)\<rparr>)
        else Some (\<lambda>c. c\<lparr>mc_pid_file := (mc_pid_file c)\<lparr>fl_fd := FL_INVALID_FD, fl_name := xstring (file_name dir a)\<rparr>\<rparr>)
      | _ \<Rightarrow> None)"

definition spec_net_cmd :: "byte list \<Rightarrow> byte list list \<Rightarrow> (xpipe_net_mod_conf_t \<Rightarrow> xpipe_net_mod_conf_t) option" where
  "spec_net_cmd name args =
     (if name = ''nodelay'' then (if args = [] then Some (\<lambda>c. c\<lparr>nc_nodelay := 1\<rparr>) else None)
      else (case args of [a] \<Rightarrow>
          map_option (\<lambda>n c. if name = ''listen'' then c\<lparr>nc_port := n\<rparr>
                            else if name = ''connections'' then c\<lparr>nc_conns := n\<rparr>
                            else c\<lparr>nc_request_buffer_size := n\<rparr>) (positive_number a)
        | _ \<Rightarrow> None))"

definition spec_log_cmd :: "byte list \<Rightarrow> byte list list \<Rightarrow> (log_level \<times> byte list) option" where
  "spec_log_cmd dir args =
     (case args of [f, l] \<Rightarrow> map_option (\<lambda>level. (level, file_name dir f)) (level_named l) | _ \<Rightarrow> None)"

definition set_log :: "nat \<Rightarrow> log_level \<times> byte list \<Rightarrow> settings \<Rightarrow> settings" where
  "set_log i l st = (if i = 0 then st\<lparr>set_main_log := Some l\<rparr> else st\<lparr>set_net_log := Some l\<rparr>)"

text \<open>A command in the block of module \<open>i\<close>: those of the module first, then the global ones.\<close>

fun spec_cmd :: "byte list \<Rightarrow> nat \<Rightarrow> byte list list \<Rightarrow> settings \<Rightarrow> settings option" where
  "spec_cmd dir i [] st = None"
| "spec_cmd dir i (name # args) st =
     (if i = 0 \<and> name \<in> set [''daemon'', ''pid''] then
        map_option (\<lambda>f. st\<lparr>set_main := map_option f (set_main st)\<rparr>) (spec_main_cmd dir name args)
      else if i \<noteq> 0 \<and> name \<in> set [''listen'', ''connections'', ''nodelay'', ''request_buffer_size''] then
        map_option (\<lambda>f. st\<lparr>set_net := map_option f (set_net st)\<rparr>) (spec_net_cmd name args)
      else if name = ''log'' then map_option (\<lambda>l. set_log i l st) (spec_log_cmd dir args)
      else None)"

section \<open>The parser without memory\<close>

datatype bad_conf = Reject | Overflow

record sparser =
  sp_set :: settings
  sp_state :: cstate
  sp_old_state :: cstate
  sp_key :: "byte list"
  sp_args :: "byte list list"
  sp_mod :: nat

definition spec_put :: "byte \<Rightarrow> sparser \<Rightarrow> bad_conf + sparser" where
  "spec_put ch p = (if length (sp_key p) < 256 then Inr (p\<lparr>sp_key := sp_key p @ [ch]\<rparr>) else Inl Overflow)"

definition spec_end :: "sparser \<Rightarrow> bad_conf + sparser" where
  "spec_end p = (if length (sp_key p) < 256 then Inr p else Inl Overflow)"

definition spec_enter_mod :: "byte list \<Rightarrow> sparser \<Rightarrow> bad_conf + sparser" where
  "spec_enter_mod dir p =
     (case spec_enter dir (sp_key p) (sp_set p) of
        None \<Rightarrow> Inl Reject
      | Some (i, st) \<Rightarrow> Inr (p\<lparr>sp_set := st, sp_mod := i, sp_key := []\<rparr>))"

definition spec_push :: "sparser \<Rightarrow> bad_conf + sparser" where
  "spec_push p = sbind (spec_end p) (\<lambda>p. Inr (p\<lparr>sp_args := sp_args p @ [sp_key p], sp_key := []\<rparr>))"

definition spec_run :: "byte list \<Rightarrow> sparser \<Rightarrow> bad_conf + sparser" where
  "spec_run dir p =
     (case spec_cmd dir (sp_mod p) (sp_args p) (sp_set p) of
        None \<Rightarrow> Inl Reject
      | Some st \<Rightarrow> Inr (p\<lparr>sp_set := st, sp_state := sw_mod_block\<rparr>))"

definition name_char :: "byte \<Rightarrow> bool" where
  "name_char ch \<longleftrightarrow> is_letter ch \<or> is_digit ch \<or> ch = CHR ''_'' \<or> ch = CHR ''-''"

definition spec_mod_block :: "sparser \<Rightarrow> byte \<Rightarrow> bad_conf + sparser" where
  "spec_mod_block p ch =
     (if ch = CHR ''#'' then Inr (p\<lparr>sp_old_state := sw_mod_block, sp_state := sw_comment\<rparr>)
      else if is_blank ch then Inr p
      else if is_letter ch then spec_put ch (p\<lparr>sp_state := sw_command, sp_args := []\<rparr>)
      else if ch = CHR 0x7D then Inr (p\<lparr>sp_state := sw_out\<rparr>)
      else Inl Reject)"

fun conf_spec_step :: "byte list \<Rightarrow> sparser \<Rightarrow> byte \<Rightarrow> bad_conf + sparser" where
  "conf_spec_step dir p ch =
     (case sp_state p of
        sw_out \<Rightarrow>
          if ch = CHR ''#'' then Inr (p\<lparr>sp_old_state := sw_out, sp_state := sw_comment\<rparr>)
          else if is_letter ch then spec_put ch (p\<lparr>sp_state := sw_mod_name\<rparr>)
          else if is_blank ch then Inr p else Inl Reject
      | sw_comment \<Rightarrow> if ch = LF then Inr (p\<lparr>sp_state := sp_old_state p\<rparr>) else Inr p
      | sw_mod_name \<Rightarrow>
          if name_char ch then spec_put ch p
          else if is_blank ch then sbind (spec_end (p\<lparr>sp_state := sw_mod_name_end_blank\<rparr>)) (spec_enter_mod dir)
          else if ch = CHR 0x7B then sbind (spec_end (p\<lparr>sp_state := sw_mod_block\<rparr>)) (spec_enter_mod dir)
          else if ch = CHR ''#'' then
            sbind (spec_end (p\<lparr>sp_old_state := sw_mod_name_end_blank, sp_state := sw_comment\<rparr>)) (spec_enter_mod dir)
          else Inl Reject
      | sw_mod_name_end_blank \<Rightarrow>
          if ch = CHR 0x7B then Inr (p\<lparr>sp_state := sw_mod_block\<rparr>)
          else if is_blank ch then Inr p else Inl Reject
      | sw_mod_block \<Rightarrow> spec_mod_block p ch
      | sw_command \<Rightarrow>
          if is_blank ch then spec_push (p\<lparr>sp_state := sw_command_blank\<rparr>)
          else if ch = CHR '';'' then sbind (spec_push (p\<lparr>sp_state := sw_command_end\<rparr>)) (spec_run dir)
          else spec_put ch p
      | sw_command_blank \<Rightarrow>
          if ch = CHR '';'' then spec_run dir (p\<lparr>sp_state := sw_command_end\<rparr>)
          else if is_blank ch then Inr p
          else spec_put ch (p\<lparr>sp_state := sw_command\<rparr>)
      | _ \<Rightarrow> Inl Reject)"

declare conf_spec_step.simps [simp del]

definition spec_start :: "settings \<Rightarrow> sparser" where
  "spec_start st = \<lparr>sp_set = st, sp_state = sw_out, sp_old_state = sw_out, sp_key = [], sp_args = [], sp_mod = 0\<rparr>"

text \<open>The whole file: it must end outside of blocks and comments.\<close>

definition conf_spec_parse :: "byte list \<Rightarrow> settings \<Rightarrow> byte list \<Rightarrow> bad_conf + settings" where
  "conf_spec_parse dir st bs =
     sbind (run (conf_spec_step dir) (spec_start st) bs) (\<lambda>p. if sp_state p = sw_out then Inr (sp_set p) else Inl Reject)"

section \<open>Syntax and layout\<close>

datatype item = Cmd "byte list list" | Note "byte list"
datatype part = Block "byte list" "item list" | Remark "byte list"
type_synonym config = "part list"

definition print_note :: "byte list \<Rightarrow> byte list" where
  "print_note t = CHR ''#'' # t @ [LF]"

text \<open>\<open>ws\<close> is the white space between the words.\<close>

fun print_cmd :: "byte list \<Rightarrow> byte list list \<Rightarrow> byte list" where
  "print_cmd ws [] = []"
| "print_cmd ws [a] = a @ '';''"
| "print_cmd ws (a # b # args) = a @ ws @ print_cmd ws (b # args)"

fun print_item :: "byte list \<Rightarrow> item \<Rightarrow> byte list" where
  "print_item ws (Cmd args) = ws @ print_cmd ws args"
| "print_item ws (Note t) = ws @ print_note t"

fun print_part :: "byte list \<Rightarrow> part \<Rightarrow> byte list" where
  "print_part ws (Block name items) = name @ ws @ CHR 0x7B # concat (map (print_item ws) items) @ ws @ CHR 0x7D # ws"
| "print_part ws (Remark t) = print_note t @ ws"

definition print_conf :: "byte list \<Rightarrow> config \<Rightarrow> byte list" where
  "print_conf ws cfg = concat (map (print_part ws) cfg)"

fun eval_item :: "byte list \<Rightarrow> nat \<Rightarrow> item \<Rightarrow> settings \<Rightarrow> settings option" where
  "eval_item dir i (Cmd args) st = spec_cmd dir i args st"
| "eval_item dir i (Note t) st = Some st"

fun eval_items :: "byte list \<Rightarrow> nat \<Rightarrow> item list \<Rightarrow> settings \<Rightarrow> settings option" where
  "eval_items dir i [] st = Some st"
| "eval_items dir i (it # its) st = Option.bind (eval_item dir i it st) (eval_items dir i its)"

fun eval_part :: "byte list \<Rightarrow> part \<Rightarrow> settings \<Rightarrow> settings option" where
  "eval_part dir (Block name items) st =
     Option.bind (spec_enter dir name st) (\<lambda>(i, st1). eval_items dir i items st1)"
| "eval_part dir (Remark t) st = Some st"

fun eval_conf :: "byte list \<Rightarrow> config \<Rightarrow> settings \<Rightarrow> settings option" where
  "eval_conf dir [] st = Some st"
| "eval_conf dir (c # cs) st = Option.bind (eval_part dir c st) (eval_conf dir cs)"

text \<open>What can be written down: words without blanks and semicolons, commands and names that
  start with a letter, and nothing longer than the buffer \<open>key\<close>.\<close>

definition word_ok :: "byte list \<Rightarrow> bool" where
  "word_ok a \<longleftrightarrow> a \<noteq> [] \<and> length a < 256 \<and> list_all (\<lambda>c. \<not> is_blank c \<and> c \<noteq> CHR '';'') a"

fun item_ok :: "item \<Rightarrow> bool" where
  "item_ok (Cmd args) \<longleftrightarrow> args \<noteq> [] \<and> list_all word_ok args \<and> is_letter (hd (hd args))"
| "item_ok (Note t) \<longleftrightarrow> LF \<notin> set t"

fun part_ok :: "part \<Rightarrow> bool" where
  "part_ok (Block name items) \<longleftrightarrow> word_ok name \<and> is_letter (hd name) \<and> list_all name_char name \<and> list_all item_ok items"
| "part_ok (Remark t) \<longleftrightarrow> LF \<notin> set t"

definition blanks_ok :: "byte list \<Rightarrow> bool" where
  "blanks_ok ws \<longleftrightarrow> ws \<noteq> [] \<and> list_all is_blank ws"

section \<open>The parser computes the meaning\<close>

lemma run_Cons_Inr: "step s b = Inr s1 \<Longrightarrow> run step s (b # bs) = run step s1 bs"
  by simp

lemma blank_facts:
  assumes "is_blank c"
  shows "\<not> is_letter c" "\<not> is_digit c" "\<not> name_char c" "c \<noteq> CHR ''#''" "c \<noteq> CHR '';''" "c \<noteq> CHR 0x7B" "c \<noteq> CHR 0x7D"
  using assms by (auto simp: char_defs name_char_def)

text \<open>White space where it is skipped.\<close>

lemma skip_blanks:
  assumes "list_all is_blank ws" "sp_state p \<in> {sw_out, sw_mod_name_end_blank, sw_mod_block, sw_command_blank}"
  shows "run (conf_spec_step dir) p (ws @ bs) = run (conf_spec_step dir) p bs"
  using assms(1)
proof (induction ws)
  case (Cons c ws)
  then have "conf_spec_step dir p c = Inr p"
    using assms(2) by (auto simp: conf_spec_step.simps spec_mod_block_def blank_facts)
  with Cons show ?case by simp
qed simp

text \<open>The bytes of a word are collected in the key.\<close>

lemma run_word:
  assumes "\<And>c q. c \<in> set a \<Longrightarrow> sp_state q = sp_state p \<Longrightarrow> conf_spec_step dir q c = spec_put c q"
    "length (sp_key p) + length a \<le> 256"
  shows "run (conf_spec_step dir) p (a @ bs) = run (conf_spec_step dir) (p\<lparr>sp_key := sp_key p @ a\<rparr>) bs"
  using assms
proof (induction a arbitrary: p)
  case (Cons c a)
  have s: "conf_spec_step dir p c = Inr (p\<lparr>sp_key := sp_key p @ [c]\<rparr>)"
    using Cons.prems by (simp add: spec_put_def)
  have "run (conf_spec_step dir) (p\<lparr>sp_key := sp_key p @ [c]\<rparr>) (a @ bs) =
    run (conf_spec_step dir) (p\<lparr>sp_key := sp_key p @ c # a\<rparr>) bs"
    using Cons.IH [of "p\<lparr>sp_key := sp_key p @ [c]\<rparr>"] Cons.prems by simp
  with s show ?case by simp
qed simp

lemma run_comment:
  assumes "sp_state p = sw_comment" "LF \<notin> set t"
  shows "run (conf_spec_step dir) p (t @ LF # bs) = run (conf_spec_step dir) (p\<lparr>sp_state := sp_old_state p\<rparr>) bs"
  using assms by (induction t) (auto simp: conf_spec_step.simps)

lemma run_note:
  assumes "sp_state p \<in> {sw_out, sw_mod_block}" "LF \<notin> set t"
  shows "run (conf_spec_step dir) p (print_note t @ bs) = run (conf_spec_step dir) (p\<lparr>sp_old_state := sp_state p\<rparr>) bs"
proof -
  have "conf_spec_step dir p (CHR ''#'') = Inr (p\<lparr>sp_old_state := sp_state p, sp_state := sw_comment\<rparr>)"
    using assms(1) by (auto simp: conf_spec_step.simps spec_mod_block_def)
  then show ?thesis
    using run_comment [of "p\<lparr>sp_old_state := sp_state p, sp_state := sw_comment\<rparr>" t dir bs] assms(2)
    by (simp add: print_note_def)
qed

text \<open>A command, from the first byte of a word to the semicolon.\<close>

definition after_cmd :: "byte list \<Rightarrow> sparser \<Rightarrow> byte list list \<Rightarrow> byte list \<Rightarrow> bad_conf + sparser" where
  "after_cmd dir p args bs =
     (case spec_cmd dir (sp_mod p) args (sp_set p) of
        None \<Rightarrow> Inl Reject
      | Some st \<Rightarrow> run (conf_spec_step dir)
          (p\<lparr>sp_args := args, sp_key := [], sp_set := st, sp_state := sw_mod_block\<rparr>) bs)"

lemma run_command_word:
  assumes "word_ok a" "sp_state p = sw_command" "sp_key p = []"
  shows "run (conf_spec_step dir) p (a @ bs) = run (conf_spec_step dir) (p\<lparr>sp_key := a\<rparr>) bs"
proof -
  have "run (conf_spec_step dir) p (a @ bs) = run (conf_spec_step dir) (p\<lparr>sp_key := sp_key p @ a\<rparr>) bs"
    using assms by (intro run_word) (auto simp: word_ok_def list_all_iff conf_spec_step.simps)
  with assms(3) show ?thesis by simp
qed

lemma run_next_word:
  assumes "word_ok a" "sp_state p = sw_command_blank" "sp_key p = []"
  shows "run (conf_spec_step dir) p (a @ bs) = run (conf_spec_step dir) (p\<lparr>sp_state := sw_command\<rparr>) (a @ bs)"
  using assms by (cases a) (auto simp: word_ok_def conf_spec_step.simps spec_put_def)

lemma run_args:
  assumes "blanks_ok ws" "args \<noteq> []" "list_all word_ok args"
    "sp_state p = sw_command" "sp_key p = []"
  shows "run (conf_spec_step dir) p (print_cmd ws args @ bs) = after_cmd dir p (sp_args p @ args) bs"
  using assms(2-)
proof (induction args arbitrary: p rule: induct_list012)
  case (2 a)
  then have a: "word_ok a" "length a < 256" by (simp_all add: word_ok_def)
  have "conf_spec_step dir (p\<lparr>sp_key := a\<rparr>) (CHR '';'') =
      spec_run dir (p\<lparr>sp_state := sw_command_end, sp_args := sp_args p @ [a], sp_key := []\<rparr>)"
    using 2 a(2) by (simp add: conf_spec_step.simps spec_push_def spec_end_def is_blank_def char_defs)
  with run_command_word [OF a(1), of p dir "CHR '';'' # bs"] 2 show ?case
    by (simp add: after_cmd_def spec_run_def split: option.splits)
next
  case (3 a b args)
  then have a: "word_ok a" "word_ok b" "length a < 256" by (simp_all add: word_ok_def)
  obtain c ws' where ws: "ws = c # ws'" "is_blank c" "list_all is_blank ws'"
    using assms(1) by (cases ws) (auto simp: blanks_ok_def)
  let ?q = "p\<lparr>sp_state := sw_command_blank, sp_args := sp_args p @ [a]\<rparr>"
  have "conf_spec_step dir (p\<lparr>sp_key := a\<rparr>) c = Inr ?q"
    using 3 a(3) ws(2) by (simp add: conf_spec_step.simps spec_push_def spec_end_def)
  then have 1: "run (conf_spec_step dir) p (print_cmd ws (a # b # args) @ bs) =
      run (conf_spec_step dir) ?q (ws' @ print_cmd ws (b # args) @ bs)"
    using run_command_word [OF a(1), of p dir "c # ws' @ print_cmd ws (b # args) @ bs"] 3 ws(1) by simp
  have "\<exists>r. print_cmd ws (b # args) = b @ r" by (cases args) auto
  then obtain r where r: "print_cmd ws (b # args) = b @ r" by blast
  have 2: "run (conf_spec_step dir) ?q (ws' @ print_cmd ws (b # args) @ bs) =
      run (conf_spec_step dir) (?q\<lparr>sp_state := sw_command\<rparr>) (print_cmd ws (b # args) @ bs)"
    using skip_blanks [OF ws(3), of ?q dir "b @ r @ bs"] run_next_word [OF a(2), of ?q dir "r @ bs"] "3.prems"
    by (simp add: r)
  show ?case
    using 1 2 "3.IH"(2) [of "?q\<lparr>sp_state := sw_command\<rparr>"] "3.prems" by (simp add: after_cmd_def cong: option.case_cong)
qed simp

text \<open>One item of a block: it ends where it began, in the block, with its effect on the settings.\<close>

definition in_block :: "nat \<Rightarrow> settings \<Rightarrow> sparser \<Rightarrow> bool" where
  "in_block i st p \<longleftrightarrow> sp_state p = sw_mod_block \<and> sp_key p = [] \<and> sp_mod p = i \<and> sp_set p = st"

lemma run_item:
  assumes "in_block i st p" "item_ok it" "blanks_ok ws"
  shows "case eval_item dir i it st of
      None \<Rightarrow> run (conf_spec_step dir) p (print_item ws it @ bs) = Inl Reject
    | Some st' \<Rightarrow> \<exists>q. in_block i st' q \<and>
        run (conf_spec_step dir) p (print_item ws it @ bs) = run (conf_spec_step dir) q bs"
proof (cases it)
  case (Note t)
  then have "run (conf_spec_step dir) p (print_item ws it @ bs) =
      run (conf_spec_step dir) (p\<lparr>sp_old_state := sp_state p\<rparr>) bs"
    using skip_blanks [of ws p dir "print_note t @ bs"] run_note [of p t dir bs] assms
    by (auto simp: blanks_ok_def in_block_def)
  then show ?thesis using Note assms(1)
    by (auto simp: in_block_def intro!: exI [of _ "p\<lparr>sp_old_state := sp_state p\<rparr>"])
next
  case (Cmd args)
  then have args: "args \<noteq> []" "list_all word_ok args" "is_letter (hd (hd args))" using assms(2) by auto
  then obtain c a rest where a: "args = (c # a) # rest" "is_letter c" "length (c # a) < 256"
    by (cases args; cases "hd args") (auto simp: word_ok_def)
  obtain r where r: "print_cmd ws args = c # r" using a(1) by (cases rest) auto
  let ?p = "p\<lparr>sp_state := sw_command, sp_args := []\<rparr>"
  have l: "\<not> is_blank c" "c \<noteq> CHR ''#''" "c \<noteq> CHR '';''" using a(2) by (auto simp: char_defs)
  have "conf_spec_step dir p c = spec_put c ?p"
    using assms(1) a(2) l by (simp add: conf_spec_step.simps spec_mod_block_def in_block_def)
  moreover have "conf_spec_step dir ?p c = spec_put c ?p" using l by (simp add: conf_spec_step.simps)
  ultimately have "run (conf_spec_step dir) p (print_cmd ws args @ bs) = run (conf_spec_step dir) ?p (print_cmd ws args @ bs)"
    by (simp add: r)
  moreover have "run (conf_spec_step dir) ?p (print_cmd ws args @ bs) = after_cmd dir ?p args bs"
    using run_args [OF assms(3) args(1,2), of ?p dir bs] assms(1) by (simp add: in_block_def)
  moreover have "run (conf_spec_step dir) p (print_item ws it @ bs) = run (conf_spec_step dir) p (print_cmd ws args @ bs)"
    using skip_blanks [of ws p dir] assms by (simp add: Cmd blanks_ok_def in_block_def)
  ultimately show ?thesis
    using assms(1) Cmd by (auto simp: after_cmd_def in_block_def split: option.splits
      intro!: exI [of _ "p\<lparr>sp_args := args, sp_key := [], sp_set := x, sp_state := sw_mod_block\<rparr>" for x])
qed

lemma run_items:
  assumes "in_block i st p" "list_all item_ok its" "blanks_ok ws"
  shows "case eval_items dir i its st of
      None \<Rightarrow> run (conf_spec_step dir) p (concat (map (print_item ws) its) @ bs) = Inl Reject
    | Some st' \<Rightarrow> \<exists>q. in_block i st' q \<and>
        run (conf_spec_step dir) p (concat (map (print_item ws) its) @ bs) = run (conf_spec_step dir) q bs"
  using assms
proof (induction its arbitrary: st p)
  case (Cons it its)
  let ?rest = "concat (map (print_item ws) its) @ bs"
  have it: "item_ok it" "list_all item_ok its" using Cons.prems(2) by auto
  note 1 = run_item [OF Cons.prems(1) it(1) Cons.prems(3), of dir ?rest]
  show ?case
  proof (cases "eval_item dir i it st")
    case None
    with 1 show ?thesis by simp
  next
    case (Some st1)
    with 1 obtain q where q: "in_block i st1 q"
      "run (conf_spec_step dir) p (print_item ws it @ ?rest) = run (conf_spec_step dir) q ?rest" by auto
    show ?thesis using Cons.IH [OF q(1) it(2) Cons.prems(3)] Some q(2) by (simp split: option.splits)
  qed
qed auto

definition outside :: "settings \<Rightarrow> sparser \<Rightarrow> bool" where
  "outside st p \<longleftrightarrow> sp_state p = sw_out \<and> sp_key p = [] \<and> sp_set p = st"

text \<open>The name of a block and the opening brace.\<close>

lemma run_block_name:
  assumes "outside st p" "part_ok (Block name items)" "blanks_ok ws"
  shows "case spec_enter dir name st of
      None \<Rightarrow> run (conf_spec_step dir) p (name @ ws @ CHR 0x7B # bs) = Inl Reject
    | Some (i, st') \<Rightarrow> \<exists>q. in_block i st' q \<and>
        run (conf_spec_step dir) p (name @ ws @ CHR 0x7B # bs) = run (conf_spec_step dir) q bs"
proof -
  obtain c n where n: "name = c # n" "is_letter c" "length name < 256" "list_all name_char name"
    using assms(2) by (cases name) (auto simp: word_ok_def)
  obtain w ws' where ws: "ws = w # ws'" "is_blank w" "list_all is_blank ws'"
    using assms(3) by (cases ws) (auto simp: blanks_ok_def)
  let ?p = "p\<lparr>sp_state := sw_mod_name\<rparr>"
  let ?rest = "ws @ CHR 0x7B # bs"
  have nc: "name_char c" "\<not> is_blank c" "c \<noteq> CHR ''#''" using n(2) by (auto simp: name_char_def char_defs)
  have "conf_spec_step dir p c = spec_put c ?p" "conf_spec_step dir ?p c = spec_put c ?p"
    using assms(1) n(2) nc by (simp_all add: conf_spec_step.simps outside_def)
  then have 1: "run (conf_spec_step dir) p (name @ ?rest) = run (conf_spec_step dir) ?p (name @ ?rest)" by (simp add: n(1))
  have 2: "run (conf_spec_step dir) ?p (name @ ?rest) = run (conf_spec_step dir) (?p\<lparr>sp_key := sp_key ?p @ name\<rparr>) ?rest"
    using n(3,4) assms(1) by (intro run_word) (auto simp: conf_spec_step.simps list_all_iff outside_def)
  let ?q = "?p\<lparr>sp_key := name, sp_state := sw_mod_name_end_blank\<rparr>"
  have 3: "conf_spec_step dir (?p\<lparr>sp_key := name\<rparr>) w = spec_enter_mod dir ?q"
    using ws(2) n(3) by (simp add: conf_spec_step.simps blank_facts spec_end_def)
  show ?thesis
  proof (cases "spec_enter dir name st")
    case None
    with 1 2 3 assms(1) ws(1) show ?thesis by (simp add: outside_def spec_enter_mod_def)
  next
    case (Some e)
    obtain i st' where e: "e = (i, st')" by (cases e)
    let ?r = "?q\<lparr>sp_set := st', sp_mod := i, sp_key := []\<rparr>"
    have "run (conf_spec_step dir) p (name @ ?rest) = run (conf_spec_step dir) ?r (ws' @ CHR 0x7B # bs)"
      using 1 2 3 Some e assms(1) ws(1) by (simp add: outside_def spec_enter_mod_def)
    also have "\<dots> = run (conf_spec_step dir) ?r (CHR 0x7B # bs)" using ws(3) by (intro skip_blanks) auto
    also have "\<dots> = run (conf_spec_step dir) (?r\<lparr>sp_state := sw_mod_block\<rparr>) bs" by (simp add: conf_spec_step.simps)
    finally show ?thesis using Some e
      by (auto simp: in_block_def intro!: exI [of _ "?r\<lparr>sp_state := sw_mod_block\<rparr>"])
  qed
qed

lemma run_part:
  assumes "outside st p" "part_ok c" "blanks_ok ws"
  shows "case eval_part dir c st of
      None \<Rightarrow> run (conf_spec_step dir) p (print_part ws c @ bs) = Inl Reject
    | Some st' \<Rightarrow> \<exists>q. outside st' q \<and> run (conf_spec_step dir) p (print_part ws c @ bs) = run (conf_spec_step dir) q bs"
proof (cases c)
  case (Remark t)
  let ?q = "p\<lparr>sp_old_state := sp_state p\<rparr>"
  have "run (conf_spec_step dir) p (print_part ws c @ bs) = run (conf_spec_step dir) ?q bs"
    using run_note [of p t dir "ws @ bs"] skip_blanks [of ws ?q dir bs] assms Remark
    by (simp add: outside_def blanks_ok_def)
  then show ?thesis using assms(1) Remark by (auto simp: outside_def intro!: exI [of _ ?q])
next
  case (Block name items)
  let ?fin = "ws @ CHR 0x7D # ws @ bs"
  have lay: "print_part ws c @ bs = name @ ws @ CHR 0x7B # concat (map (print_item ws) items) @ ?fin"
    by (simp add: Block)
  have items: "list_all item_ok items" using assms(2) Block by simp
  note N = run_block_name [OF assms(1) assms(2) [unfolded Block] assms(3), of dir "concat (map (print_item ws) items) @ ?fin"]
  show ?thesis
  proof (cases "spec_enter dir name st")
    case None
    with N show ?thesis unfolding lay by (simp add: Block)
  next
    case (Some e)
    obtain i st1 where e: "e = (i, st1)" by (cases e)
    obtain q where q: "in_block i st1 q"
      "run (conf_spec_step dir) p (print_part ws c @ bs) = run (conf_spec_step dir) q (concat (map (print_item ws) items) @ ?fin)"
      using N Some e unfolding lay by auto
    note I = run_items [OF q(1) items assms(3), of dir ?fin]
    show ?thesis
    proof (cases "eval_items dir i items st1")
      case None
      with I q Some e show ?thesis by (simp add: Block)
    next
      case st2: (Some st2)
      with I obtain r where r: "in_block i st2 r"
        "run (conf_spec_step dir) q (concat (map (print_item ws) items) @ ?fin) = run (conf_spec_step dir) r ?fin" by auto
      let ?o = "r\<lparr>sp_state := sw_out\<rparr>"
      have b: "list_all is_blank ws" using assms(3) by (simp add: blanks_ok_def)
      have "run (conf_spec_step dir) r ?fin = run (conf_spec_step dir) r (CHR 0x7D # ws @ bs)"
        using r(1) by (intro skip_blanks [OF b]) (simp add: in_block_def)
      also have "\<dots> = run (conf_spec_step dir) ?o (ws @ bs)"
        using r(1) by (simp add: conf_spec_step.simps spec_mod_block_def in_block_def char_defs)
      also have "\<dots> = run (conf_spec_step dir) ?o bs" by (intro skip_blanks [OF b]) simp
      finally show ?thesis using q(2) r st2 Some e Block
        by (auto simp: outside_def in_block_def intro!: exI [of _ ?o])
    qed
  qed
qed

lemma run_conf:
  assumes "outside st p" "list_all part_ok cfg" "blanks_ok ws"
  shows "case eval_conf dir cfg st of
      None \<Rightarrow> run (conf_spec_step dir) p (print_conf ws cfg) = Inl Reject
    | Some st' \<Rightarrow> \<exists>q. outside st' q \<and> run (conf_spec_step dir) p (print_conf ws cfg) = Inr q"
  using assms
proof (induction cfg arbitrary: st p)
  case (Cons c cfg)
  have c: "part_ok c" "list_all part_ok cfg" using Cons.prems(2) by auto
  note 1 = run_part [OF Cons.prems(1) c(1) Cons.prems(3), of dir "print_conf ws cfg"]
  show ?case
  proof (cases "eval_part dir c st")
    case None
    with 1 show ?thesis by (simp add: print_conf_def)
  next
    case (Some st1)
    with 1 obtain q where q: "outside st1 q"
      "run (conf_spec_step dir) p (print_part ws c @ print_conf ws cfg) = run (conf_spec_step dir) q (print_conf ws cfg)" by auto
    show ?thesis using Cons.IH [OF q(1) c(2) Cons.prems(3)] Some q(2)
      by (simp add: print_conf_def split: option.splits)
  qed
qed (auto simp: print_conf_def)

lemma conf_spec_print:
  assumes "list_all part_ok cfg" "blanks_ok ws"
  shows "conf_spec_parse dir st (print_conf ws cfg) = (case eval_conf dir cfg st of None \<Rightarrow> Inl Reject | Some st' \<Rightarrow> Inr st')"
proof -
  have "outside st (spec_start st)" by (simp add: outside_def spec_start_def)
  from run_conf [OF this assms, of dir] show ?thesis
    by (auto simp: conf_spec_parse_def outside_def split: option.splits)
qed

end
