(* ===== verification/ConfRefine.thy ===== *)
theory ConfRefine
  imports Balance ConfSpec
begin

text \<open>
  The configuration parser refines the parser without memory: whatever the pieces in which the
  kernel delivers the file, whatever blocks \<open>malloc\<close> returns, it ends with the settings
  that the bytes mean, or it rejects what has no meaning, or an allocation or a system call
  has failed.
\<close>

section \<open>Strings\<close>

lemma of_char_eq_int: "(of_char c :: int) = of_char d \<longleftrightarrow> c = d"
  by (metis char_of_char)

lemma c_strcmp_cstr: "NUL \<notin> set b \<Longrightarrow> c_strcmp a b = 0 \<longleftrightarrow> cstr a = b"
proof (induction a b rule: c_strcmp.induct)
  case (2 d ds)
  then show ?case using of_char_eq_int [of d NUL] by (auto simp: cstr_def NUL_def)
next
  case (3 c cs)
  then show ?case using of_char_eq_int [of c NUL] by (auto simp: cstr_def NUL_def)
next
  case (4 c cs d ds)
  then show ?case using of_char_eq_int [of c d] by (auto simp: cstr_def)
qed (simp add: cstr_def)

lemma cstr_eq_full: "NUL \<notin> set b \<Longrightarrow> length a = length b \<Longrightarrow> cstr a = b \<longleftrightarrow> a = b"
proof
  assume n: "NUL \<notin> set b" "length a = length b" "cstr a = b"
  have "takeWhile (\<lambda>c. c \<noteq> NUL) a = take (length b) a" using n(3) takeWhile_eq_take by (metis cstr_def)
  with n show "a = b" by (simp add: cstr_def)
qed (auto simp: cstr_def takeWhile_eq_all_conv)

lemma same_name_eq:
  assumes "NUL \<notin> set n" "cc_name c = xstring n"
  shows "same_name (xstring a) c \<longleftrightarrow> a = n"
  using assms c_strcmp_cstr [OF assms(1), of a] cstr_eq_full [OF assms(1), of a] by (auto simp: same_name_def)

lemma same_name_lit:
  "NUL \<notin> set n \<Longrightarrow> same_name (xstring a) \<lparr>cc_mod = i, cc_name = xstring n, cc_set = f\<rparr> \<longleftrightarrow> a = n"
  by (simp add: same_name_eq)

lemma mem_str_cstr:
  assumes "\<And>i. i < length bs \<Longrightarrow> m (a + i) = bs ! i" "m (a + length bs) = NUL" "a + length bs < addr_top"
  shows "mem_str m a = cstr bs"
  using assms
proof (induction bs arbitrary: a)
  case Nil
  then show ?case by (subst mem_str.simps) (simp add: cstr_def)
next
  case (Cons b bs)
  have "m a = b" using Cons.prems(1) [of 0] by simp
  moreover have "mem_str m (Suc a) = cstr bs"
    using Cons.prems Cons.prems(1) [of "Suc i" for i] by (intro Cons.IH) auto
  ultimately show ?case using Cons.prems(3) by (subst mem_str.simps) (simp add: cstr_def)
qed

lemma log_level_of_named: "log_level_of a = level_named a"
  unfolding log_level_of_def level_named_def by (simp add: c_strcmp_cstr NUL_def)

lemma positive_number_spec:
  "(if is_positive_integer (Some (xstring a)) = 0 then None else Some (to_uint (c_atoi a))) = positive_number a"
proof -
  have "is_positive_integer (Some (xstring a)) = 0 \<longleftrightarrow> is_positive_integer (Some (xstring a)) \<noteq> 1"
    using is_positive_integer_range [of "Some (xstring a)"] by auto
  then show ?thesis using is_positive_integer_iff [of "xstring a"]
    by (cases a) (auto simp: positive_number_def list_all_iff)
qed

section \<open>Progress of the state\<close>

text \<open>
  A turn of the parser opens files at most; \<open>trouble\<close> is a failed allocation or a failed
  system call in between two states.
\<close>

definition moves :: "prog \<Rightarrow> prog \<Rightarrow> bool" where
  "moves s s' \<longleftrightarrow> (\<exists>tr. os_trace s' = os_trace s @ tr \<and> os_calls s' = os_calls s + length tr \<and>
       list_all (\<lambda>e. case fst e of Sys_read _ _ \<Rightarrow> False | _ \<Rightarrow> True) tr) \<and>
     balance s' \<le> balance s \<and> os_input s' = os_input s \<and> os_fail s' = os_fail s \<and>
     pg_install_dir s' = pg_install_dir s \<and> cf_file s' = cf_file s"

definition trouble :: "prog \<Rightarrow> prog \<Rightarrow> bool" where
  "trouble s s' \<longleftrightarrow> balance s' < balance s \<or> (\<exists>c. (c, -1) \<in> set (drop (length (os_trace s)) (os_trace s')))"

definition moved :: "prog \<Rightarrow> prog \<Rightarrow> bool \<Rightarrow> bool" where
  "moved s s' b \<longleftrightarrow> moves s s' \<and> (b \<longrightarrow> trouble s s')"

lemma moved_refl [simp]: "moved s s False"
  by (simp add: moved_def moves_def)

lemma moved_trans:
  assumes "moved s t a" "moved t u b"
  shows "moved s u (a \<or> b)"
proof -
  obtain tr tr' where "os_trace t = os_trace s @ tr" "os_trace u = os_trace t @ tr'"
    using assms by (auto simp: moved_def moves_def)
  moreover have "moves s u" using assms unfolding moved_def moves_def by fastforce
  ultimately show ?thesis using assms unfolding moved_def trouble_def moves_def by fastforce
qed

lemma moved_weaken: "moved s t a \<Longrightarrow> (b \<Longrightarrow> a) \<Longrightarrow> moved s t b"
  by (auto simp: moved_def)

lemma allocs_moved: "allocs s (t, p) b \<Longrightarrow> moved s t b"
  by (auto simp: allocs_def settled_def moved_def moves_def trouble_def)

text \<open>Fields that do not matter for progress.\<close>

lemma moved_cong:
  assumes "os_trace t' = os_trace t" "os_calls t' = os_calls t" "balance t' = balance t" "os_input t' = os_input t"
    "os_fail t' = os_fail t" "pg_install_dir t' = pg_install_dir t" "cf_file t' = cf_file t"
  shows "moved s t' b = moved s t b"
  using assms by (simp add: moved_def moves_def trouble_def)

lemma log_sel [simp]:
  "os_trace (log_error s lg e f) = os_trace s" "os_trace (log_stderr s e f) = os_trace s"
  "os_calls (log_error s lg e f) = os_calls s" "os_calls (log_stderr s e f) = os_calls s"
  "os_input (log_error s lg e f) = os_input s" "os_input (log_stderr s e f) = os_input s"
  "os_fail (log_error s lg e f) = os_fail s" "os_fail (log_stderr s e f) = os_fail s"
  "pg_install_dir (log_error s lg e f) = pg_install_dir s" "pg_install_dir (log_stderr s e f) = pg_install_dir s"
  "pg_mods (log_error s lg e f) = pg_mods s" "pg_mods (log_stderr s e f) = pg_mods s"
  "cf_file (log_error s lg e f) = cf_file s" "cf_file (log_stderr s e f) = cf_file s"
  "cf_pool (log_error s lg e f) = cf_pool s" "cf_pool (log_stderr s e f) = cf_pool s"
  "cf_mod_cmds (log_error s lg e f) = cf_mod_cmds s" "cf_mod_cmds (log_stderr s e f) = cf_mod_cmds s"
  "cf_mod_cfs (log_error s lg e f) = cf_mod_cfs s" "cf_mod_cfs (log_stderr s e f) = cf_mod_cfs s"
  by (simp_all add: log_error_def log_stderr_def log_emit_def split: option.splits)

lemma moved_log [simp]:
  "moved s (log_error t lg e f) b = moved s t b" "moved s (log_stderr t e f) b = moved s t b"
  "moved s (pool_log t e f) b = moved s t b" "moved s (upd_mod i g t) b = moved s t b"
  unfolding pool_log_def upd_mod_def by (rule moved_cong; simp add: balance_def frame_simps)+

section \<open>The state between two turns\<close>

definition log_cmd :: conf_command_t where
  "log_cmd = \<lparr>cc_mod = 1, cc_name = xstring ''log'', cc_set = cmd_log\<rparr>"

definition mk_mods :: "xpipe_main_mod_conf_t option \<Rightarrow> xpipe_net_mod_conf_t option \<Rightarrow>
    logger_t option \<Rightarrow> logger_t option \<Rightarrow> system_module_t list" where
  "mk_mods c d l k =
     [sys_main_module\<lparr>sm_index := 0, sm_conf := map_option Main_conf c, sm_logger := l\<rparr>,
      sys_net_module\<lparr>sm_index := 1, sm_conf := map_option Net_conf d, sm_logger := k\<rparr>]"

definition prog_ok :: "prog \<Rightarrow> bool" where
  "prog_ok s \<longleftrightarrow> pool_ok s \<and> (\<exists>c d l k. pg_mods s = mk_mods c d l k) \<and> length (pg_install_dir s) \<le> 700 \<and>
     array_wf (cf_mod_cmds s) \<and> elems (cf_mod_cmds s) = [log_cmd] \<and>
     da_nalloc (cf_mod_cfs s) = 2 \<and> 0 < da_elts (cf_mod_cfs s)"

definition log_view :: "logger_t option \<Rightarrow> (log_level \<times> byte list) option" where
  "log_view l = map_option (\<lambda>l. (lg_level l, case lg_file l of None \<Rightarrow> [] | Some f \<Rightarrow> str_data (fl_name f))) l"

text \<open>The settings in a state; the address of the network object is not one of them.\<close>

definition settings_of :: "prog \<Rightarrow> settings" where
  "settings_of s =
     \<lparr>set_main = (case sm_conf (pg_mods s ! 0) of Some (Main_conf c) \<Rightarrow> Some c | _ \<Rightarrow> None),
      set_net = (case sm_conf (pg_mods s ! 1) of Some (Net_conf d) \<Rightarrow> Some (d\<lparr>nc_netwk := NULL\<rparr>) | _ \<Rightarrow> None),
      set_main_log = log_view (sm_logger (pg_mods s ! 0)),
      set_net_log = log_view (sm_logger (pg_mods s ! 1))\<rparr>"

lemma settings_of_mods:
  assumes "pg_mods s = mk_mods c d l k"
  shows "settings_of s = \<lparr>set_main = c, set_net = map_option (\<lambda>d. d\<lparr>nc_netwk := NULL\<rparr>) d,
    set_main_log = log_view l, set_net_log = log_view k\<rparr>"
  using assms by (cases c; cases d) (simp_all add: settings_of_def mk_mods_def)

lemma settings_of_upd:
  "settings_of (s\<lparr>pg_mods := mk_mods c d l k\<rparr>) = \<lparr>set_main = c, set_net = map_option (\<lambda>d. d\<lparr>nc_netwk := NULL\<rparr>) d,
    set_main_log = log_view l, set_net_log = log_view k\<rparr>"
  by (rule settings_of_mods) simp

lemma prog_okE:
  assumes "prog_ok s"
  obtains c d l k where "pg_mods s = mk_mods c d l k" "pool_ok s" "length (pg_install_dir s) \<le> 700"
    "array_wf (cf_mod_cmds s)" "elems (cf_mod_cmds s) = [log_cmd]" "da_nalloc (cf_mod_cfs s) = 2" "0 < da_elts (cf_mod_cfs s)"
  using assms by (auto simp: prog_ok_def)

text \<open>An allocation keeps all of it.\<close>

lemma allocates_ok:
  assumes "prog_ok s" "allocs s (t, cf_pool t) b"
  shows "prog_ok t" "settings_of t = settings_of s" "pg_mods t = pg_mods s" "pg_install_dir t = pg_install_dir s"
  using assms by (auto simp: prog_ok_def allocs_def settled_def settings_of_def)

lemma prog_ok_log [simp]:
  "prog_ok (log_error s lg e f) = prog_ok s" "prog_ok (log_stderr s e f) = prog_ok s" "prog_ok (pool_log s e f) = prog_ok s"
  "settings_of (log_error s lg e f) = settings_of s" "settings_of (log_stderr s e f) = settings_of s"
  "settings_of (pool_log s e f) = settings_of s"
proof -
  have keep: "pool_good t' p = pool_good t p" if "cm_live t' = cm_live t" for t t' p
    using pool_good_cong [of t p t'] pool_good_cong [of t' p t] that by auto
  have "pool_good (log_error s lg e f) p = pool_good s p" "pool_good (log_stderr s e f) p = pool_good s p" for lg p
    by (rule keep; simp add: frame_simps)+
  then show "prog_ok (log_error s lg e f) = prog_ok s" "prog_ok (log_stderr s e f) = prog_ok s"
    "prog_ok (pool_log s e f) = prog_ok s"
    "settings_of (log_error s lg e f) = settings_of s" "settings_of (log_stderr s e f) = settings_of s"
    "settings_of (pool_log s e f) = settings_of s"
    by (simp_all add: prog_ok_def settings_of_def pool_log_def frame_simps)
qed

section \<open>The commands\<close>

text \<open>The arguments of a command as an array in the pool.\<close>

definition args_are :: "args \<Rightarrow> byte list list \<Rightarrow> bool" where
  "args_are a ws \<longleftrightarrow> args_wf a \<and> elems a = map xstring ws \<and> list_all (\<lambda>w. length w < 256) ws"

lemma args_are_nelts: "args_are a ws \<Longrightarrow> da_nelts a = length ws"
  using length_elems [of a] by (auto simp: args_are_def args_wf_def)

lemma get_arg_args:
  assumes "args_are a ws"
  shows "get_arg s a k = (if k < length ws then (Some (xstring (ws ! k)), s)
    else (None, log_error s (mp_logger (cf_pool s)) 0 ''index out of array elements''))"
proof -
  have wf: "array_wf a" "elems a = map xstring ws" using assms by (auto simp: args_are_def args_wf_def)
  have n: "da_nelts a = length ws" by (rule args_are_nelts [OF assms])
  show ?thesis
    using elems_nth [OF wf(1), of k] array_wfD(5) [OF wf(1)] wf(2) n
    by (simp add: get_arg_def dynamic_array_get_ix_def)
qed

definition cmd_done :: "prog \<Rightarrow> int \<times> prog \<Rightarrow> settings option \<Rightarrow> bool" where
  "cmd_done s res spec \<longleftrightarrow> prog_ok (snd res) \<and>
     (fst res = CONF_OK \<and> moved s (snd res) False \<and> spec = Some (settings_of (snd res)) \<or>
      fst res = CONF_ERROR \<and> moved s (snd res) (spec \<noteq> None))"

lemma cmd_done_reject: "prog_ok t \<Longrightarrow> moved s t False \<Longrightarrow> cmd_done s (CONF_ERROR, t) None"
  by (simp add: cmd_done_def)

lemma cmd_done_accept: "prog_ok t \<Longrightarrow> moved s t False \<Longrightarrow> spec = Some (settings_of t) \<Longrightarrow> cmd_done s (CONF_OK, t) spec"
  by (simp add: cmd_done_def)

lemma cmd_done_trouble: "prog_ok t \<Longrightarrow> moved s t True \<Longrightarrow> cmd_done s (CONF_ERROR, t) spec"
  by (auto simp: cmd_done_def moved_def)

text \<open>Changing the configuration or the logger of a module.\<close>

lemma prog_ok_mods:
  assumes "prog_ok s" "pg_mods s = mk_mods c d l k"
  shows "prog_ok (s\<lparr>pg_mods := mk_mods c' d' l' k'\<rparr>)"
proof -
  have "pool_good (s\<lparr>pg_mods := mk_mods c' d' l' k'\<rparr>) (cf_pool s)"
    using assms(1) pool_good_cong [of s "cf_pool s" "s\<lparr>pg_mods := mk_mods c' d' l' k'\<rparr>"] by (simp add: prog_ok_def)
  then show ?thesis using assms by (auto simp: prog_ok_def)
qed

lemma upd_main_ok:
  assumes "prog_ok s"
  shows "prog_ok (upd_main 0 f s)" "moved s (upd_main 0 f s) False"
    "settings_of (upd_main 0 f s) = (settings_of s)\<lparr>set_main := map_option f (set_main (settings_of s))\<rparr>"
proof -
  obtain c d l k where m: "pg_mods s = mk_mods c d l k" using assms by (rule prog_okE)
  have u: "upd_main 0 f s = s\<lparr>pg_mods := mk_mods (map_option f c) d l k\<rparr>"
    unfolding upd_main_def upd_mod_def m by (cases c) (simp_all add: mk_mods_def map_main_def sys_main_module_def)
  show "prog_ok (upd_main 0 f s)" unfolding u by (rule prog_ok_mods [OF assms m])
  show "moved s (upd_main 0 f s) False" by (simp add: upd_main_def)
  show "settings_of (upd_main 0 f s) = (settings_of s)\<lparr>set_main := map_option f (set_main (settings_of s))\<rparr>"
    unfolding u settings_of_upd settings_of_mods [OF m] by simp
qed

lemma upd_net_ok:
  assumes "prog_ok s" "\<And>d. (f d)\<lparr>nc_netwk := NULL\<rparr> = f (d\<lparr>nc_netwk := NULL\<rparr>)"
  shows "prog_ok (upd_net 1 f s)" "moved s (upd_net 1 f s) False"
    "settings_of (upd_net 1 f s) = (settings_of s)\<lparr>set_net := map_option f (set_net (settings_of s))\<rparr>"
proof -
  obtain c d l k where m: "pg_mods s = mk_mods c d l k" using assms(1) by (rule prog_okE)
  have u: "upd_net 1 f s = s\<lparr>pg_mods := mk_mods c (map_option f d) l k\<rparr>"
    unfolding upd_net_def upd_mod_def m by (cases d) (simp_all add: mk_mods_def map_net_def sys_net_module_def)
  show "prog_ok (upd_net 1 f s)" unfolding u by (rule prog_ok_mods [OF assms(1) m])
  show "moved s (upd_net 1 f s) False" by (simp add: upd_net_def)
  show "settings_of (upd_net 1 f s) = (settings_of s)\<lparr>set_net := map_option f (set_net (settings_of s))\<rparr>"
    unfolding u settings_of_upd settings_of_mods [OF m] using assms(2) by (cases d) simp_all
qed

lemma upd_logger_ok:
  assumes "prog_ok s" "i < 2"
  shows "prog_ok (upd_mod i (\<lambda>m. m\<lparr>sm_logger := Some lg\<rparr>) s)"
    "settings_of (upd_mod i (\<lambda>m. m\<lparr>sm_logger := Some lg\<rparr>) s) = set_log i (the (log_view (Some lg))) (settings_of s)"
proof -
  obtain c d l k where m: "pg_mods s = mk_mods c d l k" using assms(1) by (rule prog_okE)
  have u: "upd_mod i (\<lambda>m. m\<lparr>sm_logger := Some lg\<rparr>) s =
      s\<lparr>pg_mods := mk_mods c d (if i = 0 then Some lg else l) (if i = 0 then k else Some lg)\<rparr>"
    unfolding upd_mod_def m using assms(2) by (cases i) (auto simp: mk_mods_def less_Suc_eq)
  show "prog_ok (upd_mod i (\<lambda>m. m\<lparr>sm_logger := Some lg\<rparr>) s)" unfolding u by (rule prog_ok_mods [OF assms(1) m])
  show "settings_of (upd_mod i (\<lambda>m. m\<lparr>sm_logger := Some lg\<rparr>) s) = set_log i (the (log_view (Some lg))) (settings_of s)"
    unfolding u settings_of_upd settings_of_mods [OF m] by (simp add: set_log_def log_view_def)
qed

lemma cmd_number_done:
  assumes "prog_ok s" "args_are args (name # ws)" "\<And>n d. (f n d)\<lparr>nc_netwk := NULL\<rparr> = f n (d\<lparr>nc_netwk := NULL\<rparr>)"
  shows "cmd_done s (cmd_number e1 e2 f s args 1)
    (case ws of [a] \<Rightarrow> map_option (\<lambda>n. (settings_of s)\<lparr>set_net := map_option (f n) (set_net (settings_of s))\<rparr>) (positive_number a)
     | _ \<Rightarrow> None)"
proof (cases "length ws = 1")
  case False
  then have "(case ws of [a] \<Rightarrow> g a | _ \<Rightarrow> None) = None" for g :: "byte list \<Rightarrow> settings option"
    by (auto split: list.splits)
  then show ?thesis using False args_are_nelts [OF assms(2)] assms(1)
    by (simp add: cmd_number_def cmd_done_reject)
next
  case True
  then obtain a where a: "ws = [a]" by (auto simp: length_Suc_conv)
  have g: "get_arg s args 1 = (Some (xstring a), s)" using get_arg_args [OF assms(2)] by (simp add: a)
  note U = upd_net_ok [of s "f n" for n, OF assms(1,3)]
  show ?thesis
    using args_are_nelts [OF assms(2)] g positive_number_spec [of a, symmetric] U assms(1)
    by (auto simp: a cmd_number_def intro: cmd_done_reject cmd_done_accept)
qed

lemma write_bytes_pool [simp]: "cf_pool (write_bytes s a bs) = cf_pool s"
  by (simp add: write_bytes_def)

lemma full_name_done:
  assumes "prog_ok s" "length a < 256" "full_name s (xstring a) = (r, t)"
  shows "allocates s t (r = None)" "r \<noteq> None \<Longrightarrow> r = Some (xstring (file_name (pg_install_dir s) a))"
proof -
  let ?dir = "pg_install_dir s"
  have ok: "pool_ok s" "length ?dir \<le> 700" using assms(1) by (auto simp: prog_ok_def)
  have "allocates s t (r = None) \<and> (r \<noteq> None \<longrightarrow> r = Some (xstring (file_name ?dir a)))"
  proof (cases "is_full_file_name (xstring a)")
    case True
    then have "r = Some (xstring a)" "t = s" using assms(3) by (auto simp: full_name_def)
    then show ?thesis using True allocs_refl [OF ok(1)] by (auto simp: is_full_file_name_def file_name_def)
  next
    case False
    let ?n = "length ?dir + length a + 2" and ?f = "full_name_of ?dir a"
    obtain p s1 where p: "conf_pcalloc s ?n = (p, s1)" by fastforce
    have fit: "fits_conf ?n" using ok(2) assms(2) by (simp add: fits_conf_def)
    note P = conf_pcalloc_allocates [OF ok(1) fit p]
    show ?thesis
    proof (cases "p = NULL")
      case True
      then have "r = None" "t = s1" using False assms(3) p by (auto simp: full_name_def)
      then show ?thesis using P(1) True by simp
    next
      case ne: False
      have t: "t = write_bytes s1 p ?f" "r = Some (xstring (mem_str (cm_mem t) p))"
        using False ne assms(3) p by (auto simp: full_name_def Let_def make_full_file_name_eq)
      have "mem_str (cm_mem t) p = cstr ?f"
      proof (rule mem_str_cstr)
        show "cm_mem t (p + i) = ?f ! i" if "i < length ?f" for i using that by (simp add: t(1) write_bytes_read)
        have l: "length ?f < ?n" using length_full_name_of [of ?dir a] by simp
        then show "cm_mem t (p + length ?f) = NUL" using P(3) [OF ne] by (simp add: t(1) write_bytes_read)
        show "p + length ?f < addr_top" using P(2) [OF ne] l by simp
      qed
      moreover have "allocates s t False" using P(1) ne by (simp add: t(1))
      ultimately show ?thesis using False t(2) by (auto simp: is_full_file_name_def file_name_def)
    qed
  qed
  then show "allocates s t (r = None)" "r \<noteq> None \<Longrightarrow> r = Some (xstring (file_name (pg_install_dir s) a))" by auto
qed

lemma list1_case: "(case ws of [a] \<Rightarrow> g a | _ \<Rightarrow> None) = (if length ws = 1 then g (hd ws) else None)"
  by (auto split: list.splits)

lemma cmd_daemon_done:
  assumes "prog_ok s" "args_are args (''daemon'' # ws)"
  shows "cmd_done s (cmd_daemon_set s args 0) (spec_cmd dir 0 (''daemon'' # ws) (settings_of s))"
proof (cases "length ws = 1")
  case False
  then show ?thesis using args_are_nelts [OF assms(2)] assms(1)
    by (simp add: cmd_daemon_set_def spec_main_cmd_def list1_case cmd_done_reject)
next
  case True
  then obtain a where a: "ws = [a]" by (auto simp: length_Suc_conv)
  have "get_arg s args 1 = (Some (xstring a), s)" using get_arg_args [OF assms(2)] by (simp add: a)
  moreover have "c_strcmp a ''off'' = 0 \<longleftrightarrow> cstr a = ''off''" by (simp add: c_strcmp_cstr NUL_def)
  ultimately show ?thesis
    using args_are_nelts [OF assms(2)] upd_main_ok [OF assms(1)] assms(1)
    by (simp add: a cmd_daemon_set_def spec_main_cmd_def cmd_done_accept)
qed

lemma cmd_pid_done:
  assumes "prog_ok s" "args_are args (''pid'' # ws)"
  shows "cmd_done s (cmd_pid_set s args 0) (spec_cmd (pg_install_dir s) 0 (''pid'' # ws) (settings_of s))"
proof (cases "length ws = 1")
  case False
  then show ?thesis using args_are_nelts [OF assms(2)] assms(1)
    by (simp add: cmd_pid_set_def spec_main_cmd_def list1_case cmd_done_reject)
next
  case True
  then obtain a where a: "ws = [a]" by (auto simp: length_Suc_conv)
  let ?g = "\<lambda>cf. cf\<lparr>mc_pid_file := (mc_pid_file cf)\<lparr>fl_fd := FL_INVALID_FD\<rparr>\<rparr>"
  let ?s2 = "upd_main 0 ?g s"
  have g: "get_arg s args 1 = (Some (xstring a), s)" using get_arg_args [OF assms(2)] by (simp add: a)
  have l: "length a < 256" using assms(2) by (simp add: args_are_def a)
  note U = upd_main_ok [OF assms(1), of ?g]
  obtain r s3 where f: "full_name ?s2 (xstring a) = (r, s3)" by fastforce
  note F = full_name_done [OF U(1) l f]
  note A = allocates_ok [OF U(1) F(1)]
  have dir: "pg_install_dir ?s2 = pg_install_dir s" by (simp add: upd_main_def upd_mod_def)
  show ?thesis
  proof (cases "r = None")
    case True
    have "moved s s3 True" using moved_trans [OF U(2) allocs_moved [OF F(1)]] True by simp
    then show ?thesis using True A(1) args_are_nelts [OF assms(2)] g f
      by (simp add: a cmd_pid_set_def Let_def cmd_done_trouble)
  next
    case False
    let ?n = "xstring (file_name (pg_install_dir s) a)"
    let ?h = "\<lambda>cf. cf\<lparr>mc_pid_file := (mc_pid_file cf)\<lparr>fl_name := ?n\<rparr>\<rparr>"
    note V = upd_main_ok [OF A(1), of ?h]
    have r: "r = Some ?n" using F(2) False dir by simp
    have m: "moved s (upd_main 0 ?h s3) False"
      using moved_trans [OF moved_trans [OF U(2) allocs_moved [OF F(1)]] V(2)] False by simp
    have e: "(\<lambda>x. ?h (?g x)) = (\<lambda>c. c\<lparr>mc_pid_file := (mc_pid_file c)\<lparr>fl_fd := FL_INVALID_FD, fl_name := ?n\<rparr>\<rparr>)" by simp
    have "settings_of (upd_main 0 ?h s3) =
        (settings_of s)\<lparr>set_main := map_option (\<lambda>x. ?h (?g x)) (set_main (settings_of s))\<rparr>"
      unfolding V(3) A(2) U(3) by (cases "set_main (settings_of s)") simp_all
    then show ?thesis using V(1) m r args_are_nelts [OF assms(2)] g f
      by (simp add: a cmd_pid_set_def Let_def spec_main_cmd_def cmd_done_accept)
  qed
qed

lemma cmd_nodelay_done:
  assumes "prog_ok s" "args_are args (''nodelay'' # ws)"
  shows "cmd_done s (cmd_nodelay_set s args 1) (spec_cmd dir 1 (''nodelay'' # ws) (settings_of s))"
  using args_are_nelts [OF assms(2)] upd_net_ok [OF assms(1), of "\<lambda>cf. cf\<lparr>nc_nodelay := 1\<rparr>"] assms(1)
  by (auto simp: cmd_nodelay_set_def spec_net_cmd_def intro: cmd_done_accept cmd_done_reject)

lemma open_done:
  assumes "prog_ok s" "os_call s (Sys_open n fl md) = (fd, t)"
  shows "prog_ok t" "settings_of t = settings_of s" "moved s t (fd = -1)" "cf_pool t = cf_pool s"
    "pg_install_dir t = pg_install_dir s"
proof -
  have t: "t = os_done s (Sys_open n fl md) fd" using assms(2) by (auto simp: os_call_def Let_def)
  have "pool_good t (cf_pool s)"
    using assms(1) pool_good_cong [of s "cf_pool s" t] by (simp add: prog_ok_def t frame_simps)
  then show "prog_ok t" using assms(1) by (simp add: prog_ok_def t os_done_def)
  show "settings_of t = settings_of s" "cf_pool t = cf_pool s" "pg_install_dir t = pg_install_dir s"
    by (simp_all add: t os_done_def settings_of_def)
  have "balance t = balance s" by (simp add: t)
  then show "moved s t (fd = -1)"
    by (auto simp: moved_def moves_def trouble_def t frame_simps) (simp_all add: os_done_def)
qed

lemma log_create_done:
  assumes "prog_ok s" "log_create s (cf_pool s) level file = (lg, t, p)"
  shows "allocates s (t\<lparr>cf_pool := p\<rparr>) (lg = None)" "lg \<noteq> None \<Longrightarrow> lg = Some \<lparr>lg_level = level, lg_file = Some file\<rparr>"
proof -
  obtain a s1 p1 where m: "pmalloc s (cf_pool s) sizeof_logger_t = (a, s1, p1)" using prod_cases3 by blast
  have "allocs s (s1, p1) (a = NULL)"
    using assms(1) by (intro pmalloc_allocs(1) [OF _ _ m]) (simp_all add: prog_ok_def fits_conf_def sizeof_defs)
  then show "allocates s (t\<lparr>cf_pool := p\<rparr>) (lg = None)" "lg \<noteq> None \<Longrightarrow> lg = Some \<lparr>lg_level = level, lg_file = Some file\<rparr>"
    using assms(2) m by (auto simp: log_create_def split: if_splits)
qed

lemma set_logger_done:
  assumes "prog_ok s" "args_are args [name, f, lv]" "i < 2" "str_data (fl_name file) = file_name dir f"
  shows "cmd_done s (set_logger s args i file)
    (map_option (\<lambda>l. set_log i l (settings_of s)) (spec_log_cmd dir [f, lv]))"
proof -
  have g: "get_arg s args 2 = (Some (xstring lv), s)" using get_arg_args [OF assms(2)] by (simp add: numeral_2_eq_2)
  show ?thesis
  proof (cases "level_named lv")
    case None
    then show ?thesis using g assms(1)
      by (simp add: set_logger_def log_level_of_named spec_log_cmd_def cmd_done_reject)
  next
    case (Some level)
    obtain lg s2 p2 where c: "log_create s (cf_pool s) level file = (lg, s2, p2)" using prod_cases3 by blast
    let ?s2 = "s2\<lparr>cf_pool := p2\<rparr>"
    note C = log_create_done [OF assms(1) c]
    note A = allocates_ok [OF assms(1) C(1)]
    show ?thesis
    proof (cases "lg = None")
      case True
      have "\<exists>c d l k. pg_mods (upd_mod i (\<lambda>m. m\<lparr>sm_logger := None\<rparr>) ?s2) = mk_mods c d l k"
      proof -
        obtain c d l k where m: "pg_mods ?s2 = mk_mods c d l k" using A(1) by (rule prog_okE)
        have "pg_mods (upd_mod i (\<lambda>m. m\<lparr>sm_logger := None\<rparr>) ?s2) =
            mk_mods c d (if i = 0 then None else l) (if i = 0 then k else None)"
          using m assms(3) by (cases i) (auto simp: upd_mod_def mk_mods_def less_Suc_eq)
        then show ?thesis by blast
      qed
      then have "prog_ok (upd_mod i (\<lambda>m. m\<lparr>sm_logger := None\<rparr>) ?s2)"
        using A(1) pool_good_cong [of ?s2 p2 "upd_mod i (\<lambda>m. m\<lparr>sm_logger := None\<rparr>) ?s2"]
        by (simp add: prog_ok_def) (simp add: upd_mod_def)
      moreover have "moved s ?s2 True" using allocs_moved [OF C(1)] True by simp
      ultimately show ?thesis using True c g Some
        by (simp add: set_logger_def log_level_of_named Let_def cmd_done_trouble)
    next
      case False
      let ?lg = "\<lparr>lg_level = level, lg_file = Some file\<rparr>"
      have lg: "lg = Some ?lg" using C(2) False by simp
      note U = upd_logger_ok [OF A(1) assms(3), of ?lg]
      have "moved s ?s2 False" using allocs_moved [OF C(1)] False by simp
      then show ?thesis using c g Some U lg A(2) assms(4)
        by (simp add: set_logger_def log_level_of_named Let_def cmd_done_accept spec_log_cmd_def log_view_def)
    qed
  qed
qed

lemma cmd_done_trans:
  assumes "moved s t False" "cmd_done t res spec"
  shows "cmd_done s res spec"
  using assms(2) moved_trans [OF assms(1), of "snd res"] by (auto simp: cmd_done_def)

lemma cmd_log_done:
  assumes "prog_ok s" "args_are args (name # ws)" "i < 2"
  shows "cmd_done s (cmd_log_set s args i)
    (map_option (\<lambda>l. set_log i l (settings_of s)) (spec_log_cmd (pg_install_dir s) ws))"
proof (cases "length ws = 2")
  case False
  then have "spec_log_cmd (pg_install_dir s) ws = None" by (auto simp: spec_log_cmd_def split: list.splits)
  then show ?thesis using False args_are_nelts [OF assms(2)] assms(1) by (simp add: cmd_log_set_def cmd_done_reject)
next
  case True
  then obtain f lv where ws: "ws = [f, lv]" by (auto simp: numeral_2_eq_2 length_Suc_conv)
  let ?dir = "pg_install_dir s"
  have g: "get_arg s args 1 = (Some (xstring f), s)" using get_arg_args [OF assms(2)] by (simp add: ws)
  have l: "length f < 256" using assms(2) by (simp add: args_are_def ws)
  obtain q s2 where q: "conf_pmalloc s sizeof_file_t = (q, s2)" by fastforce
  have Q: "allocates s s2 (q = NULL)"
    using assms(1) by (intro conf_pmalloc_allocates(1) [OF _ _ q]) (simp_all add: prog_ok_def fits_conf_def sizeof_defs)
  note A = allocates_ok [OF assms(1) Q]
  obtain r s3 where f: "full_name s2 (xstring f) = (r, s3)" by fastforce
  note F = full_name_done [OF A(1) l f] note B = allocates_ok [OF A(1) F(1)]
  obtain fd s4 where oc: "os_call s3 (Sys_open (file_name ?dir f) (FL_APPEND OR FL_CREATE) 420) = (fd, s4)" by fastforce
  note OC = open_done [OF B(1) oc]
  have n: "da_nelts args = 3" using args_are_nelts [OF assms(2)] by (simp add: ws)
  have m3: "moved s s3 (q = NULL \<or> r = None)" using moved_trans [OF allocs_moved [OF Q] allocs_moved [OF F(1)]] .
  consider (mem) "q = NULL" | (path) "q \<noteq> NULL" "r = None" | (fd) "q \<noteq> NULL" "r \<noteq> None" "fd = -1"
    | (ok) "q \<noteq> NULL" "r \<noteq> None" "fd \<noteq> -1" by blast
  then show ?thesis
  proof cases
    case mem
    then have "moved s s2 True" using allocs_moved [OF Q] by simp
    then show ?thesis using mem n g q A(1) by (simp add: cmd_log_set_def cmd_done_trouble)
  next
    case path
    then have "moved s s3 True" using m3 by simp
    then show ?thesis using path n g q f B(1) by (simp add: cmd_log_set_def cmd_done_trouble)
  next
    case fd
    have r: "r = Some (xstring (file_name ?dir f))" using F(2) fd A(4) by simp
    have "moved s s4 True" using moved_trans [OF m3 OC(3)] fd by simp
    then show ?thesis using fd r n g q f oc OC(1) by (simp add: cmd_log_set_def cmd_done_trouble)
  next
    case ok
    have r: "r = Some (xstring (file_name ?dir f))" using F(2) ok A(4) by simp
    let ?file = "\<lparr>fl_fd = fd, fl_offset = mem_long (cm_mem s4) (q + 8), fl_name = xstring (file_name ?dir f)\<rparr>"
    have "moved s s4 False" using moved_trans [OF m3 OC(3)] ok by simp
    moreover have "cmd_done s4 (set_logger s4 args i ?file)
        (map_option (\<lambda>l. set_log i l (settings_of s4)) (spec_log_cmd ?dir [f, lv]))"
      using assms(2,3) OC(1) by (intro set_logger_done) (simp_all add: ws)
    moreover have "cmd_log_set s args i = set_logger s4 args i ?file" using ok r n g q f oc by (simp add: cmd_log_set_def)
    ultimately show ?thesis using cmd_done_trans OC(2) B(2) A(2) ws by simp
  qed
qed

declare spec_cmd.simps [simp del]

section \<open>Simulation\<close>

definition view :: "cparser \<Rightarrow> sparser" where
  "view p = \<lparr>sp_set = settings_of (cp_prog p), sp_state = cp_state p, sp_old_state = cp_old_state p,
     sp_key = cp_key p, sp_args = map str_data (elems (cp_args p)), sp_mod = cp_mod p\<rparr>"

definition parser_ok :: "nat \<Rightarrow> cparser \<Rightarrow> bool" where
  "parser_ok k p \<longleftrightarrow> prog_ok (cp_prog p) \<and> cp_mod p < 2 \<and>
     cp_old_state p \<in> {sw_out, sw_mod_name_end_blank, sw_mod_block} \<and>
     cp_state p \<notin> {sw_comment_end, sw_mod_name_end, sw_mod_block_end, sw_command_end} \<and>
     (cp_state p = sw_command \<longrightarrow> (\<exists>ws. args_are (cp_args p) ws \<and> length ws \<le> k)) \<and>
     (cp_state p = sw_command_blank \<longrightarrow> (\<exists>ws. args_are (cp_args p) ws \<and> length ws \<le> k \<and> ws \<noteq> []))"

text \<open>The result of a part of a turn and the result the parser without memory has for it.\<close>

definition sim :: "(cparser \<Rightarrow> bool) \<Rightarrow> prog \<Rightarrow> cstop + cparser \<Rightarrow> bad_conf + sparser \<Rightarrow> bool" where
  "sim Q s res spec \<longleftrightarrow>
     (case res of
        Inr p \<Rightarrow> Q p \<and> moved s (cp_prog p) False \<and> spec = Inr (view p)
      | Inl (Inr t) \<Rightarrow> moved s t (spec \<noteq> Inl Reject)
      | Inl (Inl u) \<Rightarrow> u = Out_of_bounds 256 \<and> spec = Inl Overflow)"

lemma sim_cases:
  assumes "sim Q s res spec"
  obtains (go) p where "res = Inr p" "Q p" "moved s (cp_prog p) False" "spec = Inr (view p)"
  | (stop) t where "res = Inl (Inr t)" "moved s t (spec \<noteq> Inl Reject)"
  | (overflow) "res = Inl (Inl (Out_of_bounds 256))" "spec = Inl Overflow"
  using assms by (auto simp: sim_def split: sum.splits)

lemma sim_bind:
  assumes "sim Q s m n" "\<And>p. Q p \<Longrightarrow> moved s (cp_prog p) False \<Longrightarrow> sim R (cp_prog p) (f p) (g (view p))"
  shows "sim R s (sbind m f) (sbind n g)"
  using assms(1)
proof (cases rule: sim_cases)
  case (go p)
  from assms(2) [OF go(2,3)] show ?thesis
  proof (cases rule: sim_cases)
    case (go q)
    then show ?thesis using moved_trans [OF \<open>moved s (cp_prog p) False\<close> go(3)] \<open>m = Inr p\<close> \<open>n = Inr (view p)\<close>
      by (simp add: sim_def)
  next
    case (stop t)
    then show ?thesis using moved_trans [OF \<open>moved s (cp_prog p) False\<close> stop(2)] \<open>m = Inr p\<close> \<open>n = Inr (view p)\<close>
      by (simp add: sim_def)
  next
    case overflow
    then show ?thesis using \<open>m = Inr p\<close> \<open>n = Inr (view p)\<close> by (simp add: sim_def)
  qed
next
  case (stop t)
  then show ?thesis by (cases n) (auto simp: sim_def moved_def)
qed (auto simp: sim_def)

lemma sim_reject: "moved s t False \<Longrightarrow> sim Q s (Inl (Inr t)) (Inl Reject)"
  by (simp add: sim_def)

lemma sim_trouble: "moved s t True \<Longrightarrow> sim Q s (Inl (Inr t)) spec"
  by (simp add: sim_def moved_def)

lemma sim_go: "Q p \<Longrightarrow> moved s (cp_prog p) False \<Longrightarrow> spec = Inr (view p) \<Longrightarrow> sim Q s (Inr p) spec"
  by (simp add: sim_def)

lemma put_key_sim:
  assumes "Q (p\<lparr>cp_key := cp_key p @ [c]\<rparr>)"
  shows "sim Q (cp_prog p) (put_key p c) (spec_put c (view p))"
  using assms by (auto simp: put_key_def spec_put_def sim_def view_def)

lemma end_key_sim:
  assumes "Q p"
  shows "sim (\<lambda>p. Q p \<and> length (cp_key p) < 256) (cp_prog p) (end_key p) (spec_end (view p))"
  using assms by (auto simp: end_key_def spec_end_def sim_def view_def)

lemma get_sys_mod:
  "conf_file_get_sys_mod key 0 (mk_mods c d l k) =
     (if cstr key = ''main'' then Some 0 else if cstr key = ''net'' then Some 1 else None)"
  by (simp add: mk_mods_def sys_main_module_def sys_net_module_def c_strcmp_cstr NUL_def)

lemma create_main_done:
  assumes "prog_ok s" "create_main_loc_conf s = (r, t)"
  shows "allocates s t (r = None)" "r \<noteq> None \<Longrightarrow> \<exists>cf. r = Some (cf, Main_conf (main_default (pg_install_dir s)))"
proof -
  obtain cf s1 where m: "conf_pcalloc s sizeof_main_conf = (cf, s1)" by fastforce
  have "allocates s s1 (cf = NULL)"
    using assms(1) by (intro conf_pcalloc_allocates(1) [OF _ _ m]) (simp_all add: prog_ok_def fits_conf_def sizeof_defs)
  then show "allocates s t (r = None)" "r \<noteq> None \<Longrightarrow> \<exists>cf. r = Some (cf, Main_conf (main_default (pg_install_dir s)))"
    using assms(2) m by (auto simp: create_main_loc_conf_def Let_def pool_log_def main_default_def
        default_pid_file_full_path_def split: if_splits)
qed

lemma create_net_done:
  assumes "prog_ok s" "create_net_mod_conf s = (r, t)"
  shows "allocates s t (r = None)" "r \<noteq> None \<Longrightarrow> \<exists>cf n. r = Some (cf, Net_conf (net_default\<lparr>nc_netwk := n\<rparr>))"
proof -
  obtain cf s1 where m: "conf_pcalloc s sizeof_net_conf = (cf, s1)" by fastforce
  obtain nw s2 where n: "conf_pmalloc s1 sizeof_network_t = (nw, s2)" by fastforce
  have A: "allocates s s1 (cf = NULL)"
    using assms(1) by (intro conf_pcalloc_allocates(1) [OF _ _ m]) (simp_all add: prog_ok_def fits_conf_def sizeof_defs)
  have B: "allocates s1 s2 (nw = NULL)"
    using allocs_good [OF A] by (intro conf_pmalloc_allocates(1) [OF _ _ n]) (simp_all add: fits_conf_def sizeof_defs)
  show "allocates s t (r = None)" "r \<noteq> None \<Longrightarrow> \<exists>cf n. r = Some (cf, Net_conf (net_default\<lparr>nc_netwk := n\<rparr>))"
    using assms(2) m n A B allocs_trans [of s s1 "cf_pool s1" "(s2, cf_pool s2)" "nw = NULL"]
    by (auto simp: create_net_mod_conf_def Let_def pool_log_def net_default_def split: if_splits)
qed

text \<open>Recording the configuration of a module.\<close>

lemma set_conf_ok:
  assumes "prog_ok s" "i < 2" "i = 0 \<Longrightarrow> conf = Main_conf m" "i = 1 \<Longrightarrow> conf = Net_conf n"
  defines "s2 \<equiv> upd_mod i (\<lambda>m. m\<lparr>sm_conf := Some conf\<rparr>) s"
  shows "prog_ok s2" "sm_index (pg_mods s2 ! i) = int i"
    "settings_of s2 = (if i = 0 then (settings_of s)\<lparr>set_main := Some m\<rparr>
       else (settings_of s)\<lparr>set_net := Some (n\<lparr>nc_netwk := NULL\<rparr>)\<rparr>)"
proof -
  obtain c d l k where mods: "pg_mods s = mk_mods c d l k" using assms(1) by (rule prog_okE)
  have "i = 0 \<or> i = 1" using assms(2) by auto
  then have u: "s2 = s\<lparr>pg_mods := mk_mods (if i = 0 then Some m else c) (if i = 0 then d else Some n) l k\<rparr>"
    unfolding s2_def upd_mod_def mods using assms(3,4) by (auto simp: mk_mods_def sys_main_module_def sys_net_module_def)
  show "prog_ok s2" unfolding u by (rule prog_ok_mods [OF assms(1) mods])
  show "sm_index (pg_mods s2 ! i) = int i" using \<open>i = 0 \<or> i = 1\<close> by (auto simp: u mk_mods_def)
  show "settings_of s2 = (if i = 0 then (settings_of s)\<lparr>set_main := Some m\<rparr>
       else (settings_of s)\<lparr>set_net := Some (n\<lparr>nc_netwk := NULL\<rparr>)\<rparr>)"
    unfolding u settings_of_upd settings_of_mods [OF mods] by simp
qed

lemma prog_ok_blocks:
  assumes "prog_ok s"
  shows "prog_ok (s\<lparr>cf_mod_cfs := da_store (cf_mod_cfs s) ix cf, cf_blocks := n\<rparr>)"
proof -
  let ?t = "s\<lparr>cf_mod_cfs := da_store (cf_mod_cfs s) ix cf, cf_blocks := n\<rparr>"
  have "pool_good ?t (cf_pool s)" using assms pool_good_cong [of s "cf_pool s" ?t] by (simp add: prog_ok_def)
  then show ?thesis using assms by (simp add: prog_ok_def da_store_def)
qed

text \<open>What follows the creation of a configuration, for either module.\<close>

lemma enter_created:
  assumes p: "parser_ok k p" and i: "conf_file_get_sys_mod (cp_key p) 0 (pg_mods (cp_prog p)) = Some i" "i < 2"
    and r: "create_conf (sm_create (pg_mods (cp_prog p) ! i)) (cp_prog p) = (r, s1)" "allocates (cp_prog p) s1 (r = None)"
    and conf: "r \<noteq> None \<Longrightarrow> \<exists>cf. r = Some (cf, conf)" "i = 0 \<Longrightarrow> conf = Main_conf m" "i = 1 \<Longrightarrow> conf = Net_conf n"
    and spec: "spec_enter (pg_install_dir (cp_prog p)) (cp_key p) (settings_of (cp_prog p)) =
      Some (i, if i = 0 then (settings_of (cp_prog p))\<lparr>set_main := Some m\<rparr>
               else (settings_of (cp_prog p))\<lparr>set_net := Some (n\<lparr>nc_netwk := NULL\<rparr>)\<rparr>)"
  shows "sim (parser_ok k) (cp_prog p) (enter_mod p) (spec_enter_mod (pg_install_dir (cp_prog p)) (view p))"
proof -
  let ?s = "cp_prog p"
  have ok: "prog_ok ?s" using p by (simp add: parser_ok_def)
  note A = allocates_ok [OF ok r(2)]
  show ?thesis
  proof (cases "r = None")
    case True
    then have "moved ?s s1 True" using allocs_moved [OF r(2)] by simp
    then show ?thesis using True r(1) i by (simp add: enter_mod_def Let_def conf_fail_def sim_trouble)
  next
    case False
    then obtain cf where cf: "r = Some (cf, conf)" using conf(1) by blast
    let ?s2 = "upd_mod i (\<lambda>m. m\<lparr>sm_conf := Some conf\<rparr>) s1"
    note C = set_conf_ok [OF A(1) i(2) conf(2,3)]
    have ix: "to_uint (sm_index (pg_mods ?s2 ! i)) = i" using C(2) i(2) by (simp add: to_uint_def)
    let ?t = "?s2\<lparr>cf_mod_cfs := da_store (cf_mod_cfs ?s2) (da_elts (cf_mod_cfs ?s2) + i * da_size (cf_mod_cfs ?s2)) cf, cf_blocks := Suc (cf_blocks ?s2) mod uint_mod\<rparr>"
    let ?p = "p\<lparr>cp_prog := ?t, cp_key := [], cp_mod := i\<rparr>"
    have "dynamic_array_push_ix ?s2 (cf_pool ?s2) (cf_mod_cfs ?s2) i = (da_elts (cf_mod_cfs ?s2) + i * da_size (cf_mod_cfs ?s2), ?s2)"
      "0 < da_elts (cf_mod_cfs ?s2)"
      using C(1) i(2) by (simp_all add: dynamic_array_push_ix_def prog_ok_def)
    then have e: "enter_mod p = Inr ?p" using i r(1) cf ix by (simp add: enter_mod_def Let_def)
    have t: "prog_ok ?t" by (rule prog_ok_blocks [OF C(1)])
    have st: "settings_of ?t = settings_of ?s2" by (simp add: settings_of_def)
    have "moved ?s ?t False" using allocs_moved [OF r(2)] False
      by (subst moved_cong [of _ ?s2]) (simp_all add: balance_def)
    then show ?thesis unfolding e
      using t st C(3) A(2) spec i(2) p
      by (intro sim_go) (auto simp: parser_ok_def view_def spec_enter_mod_def)
  qed
qed

lemma enter_mod_sim:
  assumes "parser_ok k p"
  shows "sim (parser_ok k) (cp_prog p) (enter_mod p) (spec_enter_mod (pg_install_dir (cp_prog p)) (view p))"
proof -
  let ?s = "cp_prog p"
  have ok: "prog_ok ?s" using assms by (simp add: parser_ok_def)
  then obtain c d l j where mods: "pg_mods ?s = mk_mods c d l j" by (rule prog_okE)
  have cr: "sm_create (pg_mods ?s ! 0) = create_main" "sm_create (pg_mods ?s ! 1) = create_net"
    by (simp_all add: mods mk_mods_def sys_main_module_def sys_net_module_def)
  note G = get_sys_mod [of "cp_key p" c d l j, folded mods]
  consider (main) "cstr (cp_key p) = ''main''" | (net) "cstr (cp_key p) = ''net''"
    | (none) "cstr (cp_key p) \<noteq> ''main''" "cstr (cp_key p) \<noteq> ''net''" by blast
  then show ?thesis
  proof cases
    case main
    obtain r t where r: "create_main_loc_conf ?s = (r, t)" by fastforce
    note R = create_main_done [OF ok r]
    show ?thesis
    proof (rule enter_created [OF assms, where i = 0 and r = r and ?s1.0 = t and m = "main_default (pg_install_dir ?s)"
          and conf = "Main_conf (main_default (pg_install_dir ?s))" and n = net_default])
    qed (use G main r cr R in \<open>simp_all add: spec_enter_def\<close>)
  next
    case net
    obtain r t where r: "create_net_mod_conf ?s = (r, t)" by fastforce
    note R = create_net_done [OF ok r]
    show ?thesis
    proof (cases r)
      case None
      show ?thesis
      proof (rule enter_created [OF assms, where i = 1 and r = r and ?s1.0 = t and m = "main_default []"
            and conf = "Net_conf net_default" and n = net_default])
      qed (use G net r cr R None in \<open>simp_all add: spec_enter_def net_default_def\<close>)
    next
      case (Some x)
      then obtain cf n where x: "r = Some (cf, Net_conf (net_default\<lparr>nc_netwk := n\<rparr>))" using R(2) by auto
      show ?thesis
      proof (rule enter_created [OF assms, where i = 1 and r = r and ?s1.0 = t and m = "main_default []"
            and conf = "Net_conf (net_default\<lparr>nc_netwk := n\<rparr>)" and n = "net_default\<lparr>nc_netwk := n\<rparr>"])
      qed (use G net r cr R x in \<open>simp_all add: spec_enter_def net_default_def\<close>)
    qed
  next
    case none
    then show ?thesis using G by (simp add: enter_mod_def Let_def conf_fail_def spec_enter_mod_def spec_enter_def view_def sim_reject)
  qed
qed

definition core_ok :: "cparser \<Rightarrow> bool" where
  "core_ok p \<longleftrightarrow> prog_ok (cp_prog p) \<and> cp_mod p < 2 \<and> cp_old_state p \<in> {sw_out, sw_mod_name_end_blank, sw_mod_block}"

lemma push_arg_sim:
  assumes "core_ok p" "args_are (cp_args p) ws" "length ws < 2147483648"
  shows "sim (\<lambda>q. core_ok q \<and> cp_state q = cp_state p \<and> (\<exists>w. args_are (cp_args q) (ws @ [w])))
    (cp_prog p) (push_arg p) (spec_push (view p))"
proof (cases "length (cp_key p) < 256")
  case False
  then show ?thesis by (simp add: push_arg_def end_key_def spec_push_def spec_end_def view_def sim_def)
next
  case True
  let ?s = "cp_prog p"
  have ok: "prog_ok ?s" "pool_ok ?s" using assms(1) by (auto simp: core_ok_def prog_ok_def)
  have aw: "args_wf (cp_args p)" using assms(2) by (simp add: args_are_def)
  have nl: "da_nelts (cp_args p) < 2147483648" using args_are_nelts [OF assms(2)] assms(3) by simp
  obtain arg s1 p1 a1 where m: "dynamic_array_push ?s (cf_pool ?s) (cp_args p) = (arg, s1, p1, a1)" using prod_cases4 by blast
  note P = push_allocs [OF ok(2) aw nl m]
  have A1: "allocates ?s (s1\<lparr>cf_pool := p1\<rparr>) (arg = NULL)" using P(1) by simp
  obtain mem s2 where m2: "conf_pmalloc (s1\<lparr>cf_pool := p1\<rparr>) (length (cp_key p) + 1) = (mem, s2)" by fastforce
  have A2: "allocates (s1\<lparr>cf_pool := p1\<rparr>) s2 (mem = NULL)"
    using allocs_good [OF A1] True by (intro conf_pmalloc_allocates(1) [OF _ _ m2]) (simp_all add: fits_conf_def)
  have m12: "moved ?s s2 (arg = NULL \<or> mem = NULL)" using moved_trans [OF allocs_moved [OF A1] allocs_moved [OF A2]] .
  consider (slot) "arg = NULL" | (mem) "arg \<noteq> NULL" "mem = NULL" | (ok) "arg \<noteq> NULL" "mem \<noteq> NULL" by blast
  then show ?thesis
  proof cases
    case slot
    then have "moved ?s (s1\<lparr>cf_pool := p1\<rparr>) True" using allocs_moved [OF A1] by simp
    then show ?thesis using slot True m by (simp add: push_arg_def end_key_def Let_def conf_fail_def sim_trouble)
  next
    case mem
    then have "moved ?s s2 True" using m12 by simp
    then show ?thesis using mem True m m2 by (simp add: push_arg_def end_key_def Let_def conf_fail_def sim_trouble)
  next
    case ok
    let ?a = "da_store a1 arg (xstring (cp_key p))"
    let ?t = "write_bytes s2 mem (cp_key p @ [NUL])"
    let ?q = "p\<lparr>cp_prog := ?t, cp_args := ?a, cp_key := []\<rparr>"
    have "push_arg p = Inr (p\<lparr>cp_prog := s1\<lparr>cf_pool := p1\<rparr>, cp_args := a1, cp_prog := ?t, cp_args := ?a, cp_key := []\<rparr>)"
      using ok True m m2 by (simp add: push_arg_def end_key_def Let_def)
    then have e: "push_arg p = Inr ?q" by simp
    have args: "args_are ?a (ws @ [cp_key p])"
      using P(2) [of "xstring (cp_key p)"] ok(1) assms(2) True by (simp add: args_are_def)
    have "allocates ?s ?t False" using allocs_trans [of ?s "s1\<lparr>cf_pool := p1\<rparr>" p1 "(s2, cf_pool s2)" False] A1 A2 ok by simp
    note B = allocates_ok [OF \<open>prog_ok ?s\<close> this] and M = allocs_moved [OF this]
    have el: "map str_data (elems ?a) = map str_data (elems (cp_args p)) @ [cp_key p]"
      using args assms(2) by (simp add: args_are_def comp_def)
    show ?thesis unfolding e
      using B(1,2) M args assms(1) True el
      by (intro sim_go) (auto simp: core_ok_def view_def spec_push_def spec_end_def)
  qed
qed

lemma get_command_main:
  "conf_file_get_command main_commands (xstring n) =
     (if n = ''daemon'' then Some \<lparr>cc_mod = 0, cc_name = xstring ''daemon'', cc_set = cmd_daemon\<rparr>
      else if n = ''pid'' then Some \<lparr>cc_mod = 0, cc_name = xstring ''pid'', cc_set = cmd_pid\<rparr> else None)"
  by (simp add: main_commands_def same_name_lit NUL_def)

lemma get_command_net:
  "conf_file_get_command net_commands (xstring n) =
     (if n = ''listen'' then Some \<lparr>cc_mod = 0, cc_name = xstring ''listen'', cc_set = cmd_listen\<rparr>
      else if n = ''connections'' then Some \<lparr>cc_mod = 0, cc_name = xstring ''connections'', cc_set = cmd_connections\<rparr>
      else if n = ''nodelay'' then Some \<lparr>cc_mod = 0, cc_name = xstring ''nodelay'', cc_set = cmd_nodelay\<rparr>
      else if n = ''request_buffer_size''
        then Some \<lparr>cc_mod = 0, cc_name = xstring ''request_buffer_size'', cc_set = cmd_request_buffer_size\<rparr> else None)"
  by (simp add: net_commands_def same_name_lit NUL_def)

lemma get_global_log:
  assumes "prog_ok s"
  shows "conf_file_get_global_cmd s (xstring n) =
    Inr (if n = ''log'' then (Some log_cmd, s)
         else (None, log_error s (mp_logger (cf_pool s)) 0 ''index out of array elements''))"
proof -
  have a: "array_wf (cf_mod_cmds s)" "elems (cf_mod_cmds s) = [log_cmd]" using assms by (auto simp: prog_ok_def)
  have n: "da_nelts (cf_mod_cmds s) = 1" using length_elems [OF a(1)] a(2) by simp
  have l: "da_load (cf_mod_cmds s) (da_elts (cf_mod_cmds s)) = Some log_cmd" using elems_nth [OF a(1), of 0] n a(2) by simp
  have "0 < da_elts (cf_mod_cmds s)" using a(1) by (simp add: array_wf_def array_shape_def)
  moreover have "same_name (xstring n) log_cmd \<longleftrightarrow> n = ''log''" by (simp add: same_name_lit log_cmd_def NUL_def)
  ultimately show ?thesis using n l
    by (simp add: conf_file_get_global_cmd_def get_global_cmd.simps [of s _ 0] get_global_cmd.simps [of s _ "Suc 0"]
        dynamic_array_get_ix_def)
qed

lemma mods_commands:
  assumes "prog_ok s"
  shows "sm_commands (pg_mods s ! 0) = main_commands" "sm_commands (pg_mods s ! 1) = net_commands"
  using assms by (auto elim!: prog_okE simp: mk_mods_def sys_main_module_def sys_net_module_def)

text \<open>A command of the module at hand.\<close>

lemma net_number_done:
  assumes "prog_ok s" "args_are args (name # ws)" "name \<in> {''listen'', ''connections'', ''request_buffer_size''}"
    "\<And>n d. (f n d)\<lparr>nc_netwk := NULL\<rparr> = f n (d\<lparr>nc_netwk := NULL\<rparr>)"
    "f = (\<lambda>n c. if name = ''listen'' then c\<lparr>nc_port := n\<rparr> else if name = ''connections'' then c\<lparr>nc_conns := n\<rparr>
                else c\<lparr>nc_request_buffer_size := n\<rparr>)"
  shows "cmd_done s (cmd_number e1 e2 f s args 1) (spec_cmd dir 1 (name # ws) (settings_of s))"
proof -
  have "spec_cmd dir 1 (name # ws) (settings_of s) =
    (case ws of [a] \<Rightarrow> map_option (\<lambda>n. (settings_of s)\<lparr>set_net := map_option (f n) (set_net (settings_of s))\<rparr>) (positive_number a)
     | _ \<Rightarrow> None)"
    using assms(3) by (auto simp: spec_cmd.simps spec_net_cmd_def assms(5) option.map_comp comp_def list1_case)
  then show ?thesis using cmd_number_done [where f = f, OF assms(1,2,4)] by simp
qed

lemma main_cmd_done:
  assumes "prog_ok s" "args_are args (name # ws)" "conf_file_get_command main_commands (xstring name) = Some cmd"
  shows "cmd_done s (call_set (cc_set cmd) s args 0) (spec_cmd (pg_install_dir s) 0 (name # ws) (settings_of s))"
  using assms cmd_daemon_done [of s args ws "pg_install_dir s"] cmd_pid_done [of s args ws]
  by (auto simp only: get_command_main option.inject option.distinct(1) call_set.simps conf_command_t.simps split: if_splits)

lemma net_cmd_done:
  assumes "prog_ok s" "args_are args (name # ws)" "conf_file_get_command net_commands (xstring name) = Some cmd"
  shows "cmd_done s (call_set (cc_set cmd) s args 1) (spec_cmd dir 1 (name # ws) (settings_of s))"
proof -
  consider (port) "name = ''listen''" "cc_set cmd = cmd_listen"
    | (conns) "name = ''connections''" "cc_set cmd = cmd_connections"
    | (nodelay) "name = ''nodelay''" "cc_set cmd = cmd_nodelay"
    | (size) "name = ''request_buffer_size''" "cc_set cmd = cmd_request_buffer_size"
    using assms(3) unfolding get_command_net by (auto split: if_splits)
  then show ?thesis
  proof cases
    case port
    show ?thesis unfolding port(2) call_set.simps cmd_listen_set_def
      by (rule net_number_done [OF assms(1,2)]) (simp_all add: port(1))
  next
    case conns
    show ?thesis unfolding conns(2) call_set.simps cmd_connecions_set_def
      by (rule net_number_done [OF assms(1,2)]) (simp_all add: conns(1))
  next
    case nodelay
    show ?thesis using cmd_nodelay_done [OF assms(1)] assms(2) nodelay by simp
  next
    case size
    show ?thesis unfolding size(2) call_set.simps cmd_request_buffer_size_set_def
      by (rule net_number_done [OF assms(1,2)]) (simp_all add: size(1))
  qed
qed

lemma mod_cmd_done:
  assumes "prog_ok s" "args_are args (name # ws)" "i < 2"
    "conf_file_get_command (sm_commands (pg_mods s ! i)) (xstring name) = Some cmd"
  shows "cmd_done s (call_set (cc_set cmd) s args i) (spec_cmd (pg_install_dir s) i (name # ws) (settings_of s))"
proof -
  have "i = 0 \<or> i = 1" using assms(3) by auto
  then show ?thesis
    using main_cmd_done [OF assms(1,2), of cmd] net_cmd_done [OF assms(1,2), of cmd "pg_install_dir s"]
      assms(4) mods_commands [OF assms(1)] by (elim disjE) simp_all
qed

lemma no_mod_cmd:
  assumes "prog_ok s" "i < 2" "conf_file_get_command (sm_commands (pg_mods s ! i)) (xstring name) = None"
  shows "spec_cmd dir i (name # ws) st =
    (if name = ''log'' then map_option (\<lambda>l. set_log i l st) (spec_log_cmd dir ws) else None)"
proof -
  have "i = 0 \<or> i = 1" using assms(2) by auto
  then show ?thesis using assms(3) mods_commands [OF assms(1)] get_command_main [of name] get_command_net [of name]
    by (elim disjE) (auto simp: spec_cmd.simps split: if_splits)
qed

lemma cmd_done_sim:
  assumes "cmd_done s (r, t) spec"
  shows "(r = CONF_ERROR \<longrightarrow> moved s t (spec \<noteq> None)) \<and>
    (r \<noteq> CONF_ERROR \<longrightarrow> prog_ok t \<and> moved s t False \<and> spec = Some (settings_of t))"
  using assms by (auto simp: cmd_done_def)

lemma run_cmd_sim:
  assumes "core_ok p" "args_are (cp_args p) ws" "ws \<noteq> []"
  shows "sim (parser_ok k) (cp_prog p) (run_cmd p) (spec_run (pg_install_dir (cp_prog p)) (view p))"
proof -
  let ?s = "cp_prog p" and ?i = "cp_mod p"
  obtain name args where ws: "ws = name # args" using assms(3) by (cases ws) auto
  have ok: "prog_ok ?s" "?i < 2" using assms(1) by (auto simp: core_ok_def)
  have g: "get_arg ?s (cp_args p) 0 = (Some (xstring name), ?s)" using get_arg_args [OF assms(2)] by (simp add: ws)
  have v: "sp_args (view p) = name # args" using assms(2) by (simp add: view_def args_are_def ws comp_def)
  let ?spec = "spec_cmd (pg_install_dir ?s) ?i (name # args) (settings_of ?s)"
  have sr: "spec_run (pg_install_dir ?s) (view p) = (case ?spec of None \<Rightarrow> Inl Reject
      | Some st \<Rightarrow> Inr ((view p)\<lparr>sp_set := st, sp_state := sw_mod_block\<rparr>))"
    unfolding spec_run_def v by (simp add: view_def)
  have fin: "sim (parser_ok k) ?s
      (if r = CONF_ERROR then conf_fail (p\<lparr>cp_state := sw_mod_block, cp_prog := t\<rparr>) ''command set failed.''
       else Inr (p\<lparr>cp_state := sw_mod_block, cp_prog := t\<rparr>)) (spec_run (pg_install_dir ?s) (view p))"
    if d: "cmd_done ?s (r, t) ?spec" for r t
    using cmd_done_sim [OF d] assms(1) unfolding sr
    by (auto simp: sim_def conf_fail_def parser_ok_def core_ok_def view_def split: option.splits)
  show ?thesis
  proof (cases "conf_file_get_command (sm_commands (pg_mods ?s ! ?i)) (xstring name)")
    case (Some cmd)
    obtain r t where c: "call_set (cc_set cmd) ?s (cp_args p) ?i = (r, t)" by fastforce
    have "cmd_done ?s (r, t) ?spec" using mod_cmd_done [OF ok(1) assms(2) [unfolded ws] ok(2) Some] c by simp
    from fin [OF this] show ?thesis using g Some c by (simp add: run_cmd_def Let_def)
  next
    case None
    note N = no_mod_cmd [OF ok None]
    show ?thesis
    proof (cases "name = ''log''")
      case True
      obtain r t where c: "cmd_log_set ?s (cp_args p) ?i = (r, t)" by fastforce
      have "cmd_done ?s (r, t) ?spec"
        using cmd_log_done [OF ok(1) _ ok(2), of "cp_args p" name args] assms(2) c N True by (simp add: ws)
      from fin [OF this] show ?thesis using g None c get_global_log [OF ok(1), of name] True
        by (simp add: run_cmd_def Let_def log_cmd_def)
    next
      case False
      then show ?thesis unfolding sr using g None get_global_log [OF ok(1), of name] N
        by (simp add: run_cmd_def Let_def conf_fail_def sim_reject)
    qed
  qed
qed

lemma on_mod_block_sim:
  assumes "parser_ok k p" "cp_state p \<in> {sw_mod_name_end_blank, sw_mod_block}"
    "cp_state p = sw_mod_block \<or> is_blank c"
  shows "sim (parser_ok k) (cp_prog p) (on_mod_block p c) (spec_mod_block (view p) c)"
proof -
  let ?s = "cp_prog p"
  have ok: "prog_ok ?s" "pool_ok ?s" using assms(1) by (auto simp: parser_ok_def prog_ok_def)
  obtain r :: "args option" and s1 p1 where m: "dynamic_array_create ?s (cf_pool ?s) 10 16 = (r, s1, p1)" using prod_cases3 by blast
  note C = create_allocs [OF ok(2) m]
  have A: "allocates ?s (s1\<lparr>cf_pool := p1\<rparr>) (r = None)" using C(1) by simp
  note B = allocates_ok [OF ok(1) A] and M = allocs_moved [OF A]
  consider (comment) "c = CHR ''#''" | (blank) "is_blank c" | (letter) "is_letter c" "c \<noteq> CHR ''#''" "\<not> is_blank c"
    | (close) "c = CHR 0x7D" | (bad) "c \<noteq> CHR ''#''" "\<not> is_blank c" "\<not> is_letter c" "c \<noteq> CHR 0x7D" by blast
  then show ?thesis
  proof cases
    case letter
    then have st: "cp_state p = sw_mod_block" using assms(3) by simp
    show ?thesis
    proof (cases "length (cp_key p) < 256")
      case False
      then show ?thesis using letter
        by (simp add: on_mod_block_def put_key_def spec_mod_block_def spec_put_def view_def sim_def)
    next
      case len: True
      show ?thesis
      proof (cases r)
        case None
        then have "moved ?s (s1\<lparr>cf_pool := p1\<rparr>) True" using M by simp
        then show ?thesis using letter len m None
          by (simp add: on_mod_block_def put_key_def sizeof_string_t_def conf_fail_def sim_trouble)
      next
        case (Some a)
        let ?q = "p\<lparr>cp_state := sw_command, cp_key := cp_key p @ [c], cp_prog := s1\<lparr>cf_pool := p1\<rparr>, cp_args := a\<rparr>"
        have e: "on_mod_block p c = Inr ?q"
          using letter len m Some by (simp add: on_mod_block_def put_key_def sizeof_string_t_def)
        have W: "array_wf a" "elems a = []" "da_size a = 16" "da_nalloc a = 10" using C(2) [OF Some] by auto
        then have a: "args_are a []" by (auto simp: args_are_def args_wf_def intro: exI [of _ 0])
        show ?thesis unfolding e using B(1,2) M Some a W(2) assms(1) letter len
          by (intro sim_go) (auto simp: parser_ok_def view_def spec_mod_block_def spec_put_def)
      qed
    qed
  qed (use assms in \<open>auto simp: on_mod_block_def spec_mod_block_def sim_def parser_ok_def view_def conf_fail_def char_defs\<close>)
qed

lemma on_mod_name_sim:
  assumes "parser_ok k p" "cp_state p = sw_mod_name"
  shows "sim (parser_ok k) (cp_prog p) (on_mod_name p c) (conf_spec_step (pg_install_dir (cp_prog p)) (view p) c)"
proof -
  let ?dir = "pg_install_dir (cp_prog p)"
  have enter: "sim (parser_ok k) (cp_prog p) (sbind (end_key q) enter_mod) (sbind (spec_end (view q)) (spec_enter_mod ?dir))"
    if q: "parser_ok k q" "cp_prog q = cp_prog p" for q
  proof (rule sim_bind)
    show "sim (\<lambda>r. r = q \<and> length (cp_key r) < 256) (cp_prog p) (end_key q) (spec_end (view q))"
      using end_key_sim [of "\<lambda>r. r = q" q] q(2) by simp
    show "sim (parser_ok k) (cp_prog r) (enter_mod r) (spec_enter_mod ?dir (view r))" if "r = q \<and> length (cp_key r) < 256" for r
      using enter_mod_sim [OF q(1)] that q(2) by simp
  qed
  have v: "sp_state (view p) = sw_mod_name" using assms(2) by (simp add: view_def)
  have upd: "(view p)\<lparr>sp_state := x\<rparr> = view (p\<lparr>cp_state := x\<rparr>)"
    "(view p)\<lparr>sp_old_state := y, sp_state := x\<rparr> = view (p\<lparr>cp_old_state := y, cp_state := x\<rparr>)" for x y
    by (simp_all add: view_def)
  have "parser_ok k (p\<lparr>cp_state := sw_mod_name_end_blank\<rparr>)" "parser_ok k (p\<lparr>cp_state := sw_mod_block\<rparr>)"
    "parser_ok k (p\<lparr>cp_old_state := sw_mod_name_end_blank, cp_state := sw_comment\<rparr>)"
    "parser_ok k (p\<lparr>cp_key := cp_key p @ [c]\<rparr>)"
    using assms by (simp_all add: parser_ok_def)
  note E = enter [OF this(1), simplified] enter [OF this(2), simplified] enter [OF this(3), simplified]
    put_key_sim [of "parser_ok k" p c, OF this(4)]
  show ?thesis
    unfolding on_mod_name_def conf_spec_step.simps v cstate.case upd name_char_def
    using E by (auto simp: conf_fail_def sim_reject)
qed

lemma sim_mono: "sim Q s m n \<Longrightarrow> (\<And>p. Q p \<Longrightarrow> R p) \<Longrightarrow> sim R s m n"
  by (auto simp: sim_def split: sum.splits)

lemma parser_ok_Suc: "parser_ok k p \<Longrightarrow> parser_ok (Suc k) p"
  by (auto simp: parser_ok_def intro: le_SucI)

lemma view_upd:
  "(view p)\<lparr>sp_state := x\<rparr> = view (p\<lparr>cp_state := x\<rparr>)"
  "(view p)\<lparr>sp_old_state := y, sp_state := x\<rparr> = view (p\<lparr>cp_old_state := y, cp_state := x\<rparr>)"
  by (simp_all add: view_def)

text \<open>The two states inside of a command.\<close>

lemma on_command_sim:
  assumes "parser_ok k p" "k < 2147483648" "cp_state p = sw_command"
  shows "sim (parser_ok (Suc k)) (cp_prog p) (on_command p c) (conf_spec_step (pg_install_dir (cp_prog p)) (view p) c)"
proof -
  let ?dir = "pg_install_dir (cp_prog p)"
  obtain ws where ws: "args_are (cp_args p) ws" "length ws \<le> k" using assms(1,3) by (auto simp: parser_ok_def)
  have core: "core_ok p" using assms(1) by (simp add: parser_ok_def core_ok_def)
  have v: "sp_state (view p) = sw_command" using assms(3) by (simp add: view_def)
  consider (blank) "is_blank c" | (semi) "\<not> is_blank c" "c = CHR '';''" | (char) "\<not> is_blank c" "c \<noteq> CHR '';''" by blast
  then show ?thesis
  proof cases
    case blank
    let ?p = "p\<lparr>cp_state := sw_command_blank\<rparr>"
    have "sim (\<lambda>q. core_ok q \<and> cp_state q = cp_state ?p \<and> (\<exists>w. args_are (cp_args q) (ws @ [w])))
        (cp_prog ?p) (push_arg ?p) (spec_push (view ?p))"
      using core ws assms(2) by (intro push_arg_sim) (simp_all add: core_ok_def)
    then have "sim (parser_ok (Suc k)) (cp_prog ?p) (push_arg ?p) (spec_push (view ?p))"
    proof (rule sim_mono)
      fix q assume q: "core_ok q \<and> cp_state q = cp_state ?p \<and> (\<exists>w. args_are (cp_args q) (ws @ [w]))"
      then obtain w where w: "args_are (cp_args q) (ws @ [w])" by blast
      have "\<exists>ws'. args_are (cp_args q) ws' \<and> length ws' \<le> Suc k \<and> ws' \<noteq> []"
        using w ws(2) by (intro exI [of _ "ws @ [w]"]) simp
      then show "parser_ok (Suc k) q" using q by (simp add: parser_ok_def core_ok_def)
    qed
    then show ?thesis using blank by (simp add: on_command_def conf_spec_step.simps v view_upd)
  next
    case semi
    let ?p = "p\<lparr>cp_state := sw_command_end\<rparr>"
    have 1: "sim (\<lambda>q. core_ok q \<and> cp_state q = cp_state ?p \<and> (\<exists>w. args_are (cp_args q) (ws @ [w])))
        (cp_prog p) (push_arg ?p) (spec_push (view ?p))"
      using push_arg_sim [of ?p ws] core ws assms(2) by (simp add: core_ok_def)
    have "sim (parser_ok (Suc k)) (cp_prog p) (sbind (push_arg ?p) run_cmd) (sbind (spec_push (view ?p)) (spec_run ?dir))"
    proof (rule sim_bind [OF 1])
      fix q assume q: "core_ok q \<and> cp_state q = cp_state ?p \<and> (\<exists>w. args_are (cp_args q) (ws @ [w]))"
        and m: "moved (cp_prog p) (cp_prog q) False"
      obtain w where w: "args_are (cp_args q) (ws @ [w])" using q by blast
      have "sim (parser_ok (Suc k)) (cp_prog q) (run_cmd q) (spec_run (pg_install_dir (cp_prog q)) (view q))"
        using q by (intro run_cmd_sim [OF _ w]) auto
      then show "sim (parser_ok (Suc k)) (cp_prog q) (run_cmd q) (spec_run ?dir (view q))"
        using m by (simp add: moved_def moves_def)
    qed
    then show ?thesis using semi by (simp add: on_command_def conf_spec_step.simps v view_upd)
  next
    case char
    have "parser_ok k (p\<lparr>cp_key := cp_key p @ [c]\<rparr>)" using assms(1) by (simp add: parser_ok_def)
    then have "sim (parser_ok (Suc k)) (cp_prog p) (put_key p c) (spec_put c (view p))"
      by (intro put_key_sim parser_ok_Suc)
    then show ?thesis using char by (simp add: on_command_def conf_spec_step.simps v)
  qed
qed

lemma on_state_sim:
  assumes "parser_ok k p" "k < 2147483648"
  shows "sim (parser_ok (Suc k)) (cp_prog p) (on_state p c) (conf_spec_step (pg_install_dir (cp_prog p)) (view p) c)"
proof -
  have v: "sp_state (view p) = cp_state p" by (simp add: view_def)
  have key: "sim (parser_ok (Suc k)) (cp_prog p) (put_key (p\<lparr>cp_state := x\<rparr>) c) (spec_put c ((view p)\<lparr>sp_state := x\<rparr>))"
    if "parser_ok k (p\<lparr>cp_state := x\<rparr>)" for x
    using put_key_sim [of "parser_ok (Suc k)" "p\<lparr>cp_state := x\<rparr>" c] parser_ok_Suc [OF that]
    by (simp add: view_upd parser_ok_def)
  show ?thesis
  proof (cases "cp_state p")
    case sw_out
    have "parser_ok k (p\<lparr>cp_state := sw_mod_name\<rparr>)" using assms(1) by (simp add: parser_ok_def)
    from key [OF this] show ?thesis using assms(1) sw_out
      by (auto simp: on_state_def conf_spec_step.simps v conf_fail_def sim_def parser_ok_def view_upd view_def split: sum.splits)
  next
    case sw_comment
    then show ?thesis using assms(1)
      by (auto simp: on_state_def conf_spec_step.simps v sim_def parser_ok_def view_def)
  next
    case sw_mod_name
    then show ?thesis using sim_mono [OF on_mod_name_sim [OF assms(1)] parser_ok_Suc] by (simp add: on_state_def)
  next
    case sw_mod_name_end_blank
    show ?thesis
    proof (cases "is_blank c")
      case True
      then have "on_mod_block p c = Inr p" "c \<noteq> CHR 0x7B" by (auto simp: on_mod_block_def char_defs)
      then show ?thesis using True sw_mod_name_end_blank parser_ok_Suc [OF assms(1)]
        by (simp add: on_state_def conf_spec_step.simps v sim_def)
    next
      case False
      then show ?thesis using assms(1) sw_mod_name_end_blank
        by (auto simp: on_state_def conf_spec_step.simps v sim_def conf_fail_def parser_ok_def view_def)
    qed
  next
    case sw_mod_block
    then show ?thesis using sim_mono [OF on_mod_block_sim [OF assms(1)] parser_ok_Suc]
      by (simp add: on_state_def conf_spec_step.simps v)
  next
    case sw_command
    then show ?thesis using on_command_sim [OF assms] by (simp add: on_state_def)
  next
    case sw_command_blank
    then obtain ws where ws: "args_are (cp_args p) ws" "length ws \<le> k" "ws \<noteq> []"
      using assms(1) by (auto simp: parser_ok_def)
    have "core_ok (p\<lparr>cp_state := sw_command_end\<rparr>)" using assms(1) by (simp add: parser_ok_def core_ok_def)
    from run_cmd_sim [OF this, of ws "Suc k"] have run:
      "sim (parser_ok (Suc k)) (cp_prog p) (run_cmd (p\<lparr>cp_state := sw_command_end\<rparr>))
        (spec_run (pg_install_dir (cp_prog p)) ((view p)\<lparr>sp_state := sw_command_end\<rparr>))"
      using ws by (simp add: view_upd)
    have "parser_ok k (p\<lparr>cp_state := sw_command\<rparr>)" using assms(1) ws by (auto simp: parser_ok_def)
    from key [OF this] run show ?thesis using sw_command_blank parser_ok_Suc [OF assms(1)]
      by (auto simp: on_state_def on_command_blank_def conf_spec_step.simps v sim_go)
  qed (use assms(1) in \<open>auto simp: parser_ok_def\<close>)
qed

lemma conf_step_sim:
  assumes "parser_ok k p" "k < 2147483648"
  shows "sim (parser_ok (Suc k)) (cp_prog p) (conf_step p c) (conf_spec_step (pg_install_dir (cp_prog p)) (view p) c)"
proof -
  let ?n = "conf_spec_step (pg_install_dir (cp_prog p)) (view p) c"
  have "sim (parser_ok (Suc k)) (cp_prog p) (conf_step p c) (sbind ?n Inr)"
    unfolding conf_step_def
    by (rule sim_bind [OF on_state_sim [OF assms]]) (auto simp: sim_def parser_ok_def view_def)
  moreover have "sbind ?n Inr = ?n" by (cases ?n) auto
  ultimately show ?thesis by simp
qed

lemma run_sbind: "run step s (b # bs) = sbind (step s b) (\<lambda>s. run step s bs)"
  by (cases "step s b") auto

lemma run_conf_sim:
  assumes "parser_ok k p" "k + length bs \<le> 2147483648"
  shows "sim (parser_ok (k + length bs)) (cp_prog p) (run conf_step p bs)
    (run (conf_spec_step (pg_install_dir (cp_prog p))) (view p) bs)"
  using assms
proof (induction bs arbitrary: k p)
  case Nil
  then show ?case by (simp add: sim_def)
next
  case (Cons b bs)
  let ?dir = "pg_install_dir (cp_prog p)"
  have 1: "sim (parser_ok (Suc k)) (cp_prog p) (conf_step p b) (conf_spec_step ?dir (view p) b)"
    using Cons.prems by (intro conf_step_sim) auto
  show ?case unfolding run_sbind
  proof (rule sim_bind [OF 1])
    fix q assume q: "parser_ok (Suc k) q" "moved (cp_prog p) (cp_prog q) False"
    then show "sim (parser_ok (k + length (b # bs))) (cp_prog q) (run conf_step q bs) (run (conf_spec_step ?dir) (view q) bs)"
      using Cons.IH [OF q(1)] Cons.prems(2) by (simp add: moved_def moves_def)
  qed
qed

end
