(* ===== verification/ConfRead.thy ===== *)
theory ConfRead
  imports ConfRefine
begin

text \<open>
  The reading loop over the parser: what the kernel has delivered, that the loop ends when the
  file does, and what the whole of \<open>conf_file_parser\<close> leaves.
\<close>

section \<open>The bytes of the file\<close>

text \<open>The bytes that the reads of a trace have delivered; the trace begins with call number \<open>k\<close>.\<close>

fun delivered :: "(nat \<Rightarrow> byte list) \<Rightarrow> nat \<Rightarrow> (syscall \<times> int) list \<Rightarrow> byte list" where
  "delivered inp k [] = []"
| "delivered inp k ((Sys_read fd n, r) # tr) = take (nat r) (inp k) @ delivered inp (Suc k) tr"
| "delivered inp k (_ # tr) = delivered inp (Suc k) tr"

lemma delivered_append: "delivered inp k (tr @ tr') = delivered inp k tr @ delivered inp (k + length tr) tr'"
  by (induction inp k tr rule: delivered.induct) auto

lemma delivered_quiet:
  "list_all (\<lambda>e. case fst e of Sys_read _ _ \<Rightarrow> False | _ \<Rightarrow> True) tr \<Longrightarrow> delivered inp k tr = []"
  by (induction inp k tr rule: delivered.induct) auto

definition ran :: "prog \<Rightarrow> prog \<Rightarrow> byte list \<Rightarrow> bool \<Rightarrow> bool" where
  "ran s t bs b \<longleftrightarrow> (\<exists>tr. os_trace t = os_trace s @ tr \<and> os_calls t = os_calls s + length tr \<and>
       delivered (os_input s) (os_calls s) tr = bs) \<and>
     balance t \<le> balance s \<and> os_input t = os_input s \<and> os_fail t = os_fail s \<and> pg_install_dir t = pg_install_dir s \<and> (b \<longrightarrow> trouble s t)"

lemma moved_ran: "moved s t b \<Longrightarrow> ran s t [] b"
  unfolding moved_def moves_def ran_def using delivered_quiet by blast

lemma ran_trans:
  assumes "ran s t bs a" "ran t u cs b"
  shows "ran s u (bs @ cs) (a \<or> b)"
proof -
  obtain tr tr' where tr: "os_trace t = os_trace s @ tr" "os_calls t = os_calls s + length tr"
    "delivered (os_input s) (os_calls s) tr = bs" "os_trace u = os_trace t @ tr'"
    "os_calls u = os_calls t + length tr'" "delivered (os_input t) (os_calls t) tr' = cs"
    using assms by (auto simp: ran_def)
  then have "delivered (os_input s) (os_calls s) (tr @ tr') = bs @ cs"
    using assms(1) by (simp add: delivered_append ran_def)
  moreover have "a \<or> b \<Longrightarrow> trouble s u" using assms tr(1,4) unfolding ran_def trouble_def by fastforce
  ultimately show ?thesis using assms tr unfolding ran_def by auto
qed

section \<open>One read\<close>

definition read_at :: "prog \<Rightarrow> byte list" where
  "read_at s = take 1024 (os_input s (os_calls s))"

text \<open>The state after a read: one more call, and the offset of the file moved.\<close>

lemma file_read_conf:
  assumes "file_read s (cf_file s) 1024 FL_DEFAULT_OFFSET = (n, f, t)" and ok: "prog_ok s"
  shows "if os_answer s (os_calls s) < 0
    then n = None \<and> ran s (t\<lparr>cf_file := f\<rparr>) [] True
    else n = Some (read_at s) \<and> prog_ok (t\<lparr>cf_file := f\<rparr>) \<and> settings_of (t\<lparr>cf_file := f\<rparr>) = settings_of s \<and>
      ran s (t\<lparr>cf_file := f\<rparr>) (read_at s) False \<and> os_calls (t\<lparr>cf_file := f\<rparr>) = Suc (os_calls s)"
proof (cases "os_answer s (os_calls s) < 0")
  case True
  then have "n = None" "t = os_done s (Sys_read (fl_fd (cf_file s)) 1024) (-1)"
    using assms(1) by (auto simp: file_read_def file_seek_def os_read_def Let_def)
  then show ?thesis using True by (auto simp: ran_def trouble_def os_done_def balance_def)
next
  case False
  then have n: "n = Some (read_at s)" and t: "t = os_done s (Sys_read (fl_fd (cf_file s)) 1024) (int (length (read_at s)))"
    using assms(1) by (auto simp: file_read_def file_seek_def os_read_def Let_def read_at_def)
  let ?t = "t\<lparr>cf_file := f\<rparr>"
  have "pool_good ?t (cf_pool s)" using ok pool_good_cong [of s "cf_pool s" ?t] by (simp add: prog_ok_def t os_done_def)
  then have "prog_ok ?t" using ok by (simp add: prog_ok_def t os_done_def)
  moreover have "settings_of ?t = settings_of s" by (simp add: settings_of_def t os_done_def)
  moreover have "take (min (length xs) 1024) xs = take 1024 xs" for xs :: "byte list" by (simp add: min_def)
  then have "ran s ?t (read_at s) False" by (simp add: ran_def t os_done_def balance_def read_at_def)
  moreover have "os_calls ?t = Suc (os_calls s)" by (simp add: t os_done_def)
  ultimately show ?thesis using False n by simp
qed

section \<open>The loop\<close>

definition spec_finish :: "bad_conf + sparser \<Rightarrow> bad_conf + settings" where
  "spec_finish r = sbind r (\<lambda>q. if sp_state q = sw_out then Inr (sp_set q) else Inl Reject)"

text \<open>The contents of the reads with the given numbers.\<close>

definition pieces :: "(nat \<Rightarrow> byte list) \<Rightarrow> nat list \<Rightarrow> byte list" where
  "pieces inp ns = concat (map (\<lambda>i. take 1024 (inp i)) ns)"

definition later_calls :: "nat \<Rightarrow> nat list \<Rightarrow> bool" where
  "later_calls k ns \<longleftrightarrow> sorted_wrt (<) ns \<and> list_all (\<lambda>i. k \<le> i) ns"

lemma later_calls_mono: "later_calls k ns \<Longrightarrow> j \<le> k \<Longrightarrow> later_calls j ns"
  by (auto simp: later_calls_def list_all_iff)

text \<open>What the loop leaves: \<open>q\<close> is where the parser without memory stood at its beginning.\<close>

definition conf_result :: "prog \<Rightarrow> sparser \<Rightarrow> ub + (int \<times> prog) \<Rightarrow> bool" where
  "conf_result s q res \<longleftrightarrow>
     (case res of
        Inr (r, t) \<Rightarrow> (\<exists>bs. let spec = spec_finish (run (conf_spec_step (pg_install_dir s)) q bs) in
            r = CONF_OK \<and> ran s t bs False \<and> prog_ok t \<and> spec = Inr (settings_of t) \<or>
            r = CONF_ERROR \<and> ran s t bs (spec \<noteq> Inl Reject))
      | Inl u \<Rightarrow> u = Out_of_bounds 256 \<and> (\<exists>ns. later_calls (os_calls s) ns \<and>
            spec_finish (run (conf_spec_step (pg_install_dir s)) q (pieces (os_input s) ns)) = Inl Overflow))"

lemma conf_result_step:
  assumes "ran s t bs False" "run (conf_spec_step (pg_install_dir s)) q bs = Inr q'" "conf_result t q' res"
    and "bs = read_at s" "os_calls s < os_calls t"
  shows "conf_result s q res"
proof -
  have d: "pg_install_dir t = pg_install_dir s" using assms(1) by (simp add: ran_def)
  have run: "run (conf_spec_step (pg_install_dir s)) q (bs @ cs) = run (conf_spec_step (pg_install_dir s)) q' cs" for cs
    using assms(2) by (simp add: run_append)
  show ?thesis
  proof (cases res)
    case (Inl u)
    then obtain ns where ns: "u = Out_of_bounds 256" "later_calls (os_calls t) ns"
      "spec_finish (run (conf_spec_step (pg_install_dir s)) q' (pieces (os_input s) ns)) = Inl Overflow"
      using assms(1,3) d by (auto simp: conf_result_def ran_def)
    have "later_calls (os_calls s) (os_calls s # ns)" using ns(2) assms(5) by (auto simp: later_calls_def list_all_iff)
    moreover have "pieces (os_input s) (os_calls s # ns) = bs @ pieces (os_input s) ns"
      by (simp add: pieces_def assms(4) read_at_def)
    ultimately show ?thesis using Inl ns run [of "pieces (os_input s) ns"]
      by (auto simp: conf_result_def intro!: exI [of _ "os_calls s # ns"])
  next
    case (Inr rt)
    obtain r u where rt: "rt = (r, u)" by (cases rt)
    obtain cs where cs: "let spec = spec_finish (run (conf_spec_step (pg_install_dir s)) q' cs) in
        r = CONF_OK \<and> ran t u cs False \<and> prog_ok u \<and> spec = Inr (settings_of u) \<or>
        r = CONF_ERROR \<and> ran t u cs (spec \<noteq> Inl Reject)"
      using assms(3) Inr rt d by (auto simp: conf_result_def)
    have "ran t u cs b \<Longrightarrow> ran s u (bs @ cs) b" for b using ran_trans [OF assms(1), of u cs b] by simp
    then show ?thesis using Inr rt cs run [of cs]
      by (auto simp: conf_result_def Let_def intro!: exI [of _ "bs @ cs"])
  qed
qed

text \<open>The two ends of the loop: a failed read and the end of the file.\<close>

lemma read_conf_fail:
  assumes "file_read (cp_prog p) (cf_file (cp_prog p)) 1024 FL_DEFAULT_OFFSET = (None, f, t)"
    and "ran (cp_prog p) (t\<lparr>cf_file := f\<rparr>) [] True"
  shows "\<exists>res. read_conf p = Some res \<and> conf_result (cp_prog p) (view p) res"
proof -
  let ?e = "log_stderr (t\<lparr>cf_file := f\<rparr>) (os_errno (t\<lparr>cf_file := f\<rparr>)) ''read file error.''"
  have "ran (cp_prog p) ?e [] b" for b using assms(2) by (simp add: ran_def trouble_def)
  then have "conf_result (cp_prog p) (view p) (Inr (CONF_ERROR, ?e))"
    by (auto simp: conf_result_def Let_def intro!: exI [of _ "[]"])
  then show ?thesis unfolding read_conf.simps [of p, unfolded assms(1) Let_def prod.case] by simp
qed

lemma read_conf_eof:
  assumes "file_read (cp_prog p) (cf_file (cp_prog p)) 1024 FL_DEFAULT_OFFSET = (Some [], f, t)"
    and "parser_ok k p" "prog_ok (t\<lparr>cf_file := f\<rparr>)" "settings_of (t\<lparr>cf_file := f\<rparr>) = settings_of (cp_prog p)"
    and "ran (cp_prog p) (t\<lparr>cf_file := f\<rparr>) [] False"
  shows "\<exists>res. read_conf p = Some res \<and> conf_result (cp_prog p) (view p) res"
proof -
  have st: "cp_state p \<noteq> sw_mod_block_end" using assms(2) by (auto simp: parser_ok_def)
  have "ran (cp_prog p) (log_stderr (t\<lparr>cf_file := f\<rparr>) 0 m) [] False" for m
    using assms(5) by (simp add: ran_def trouble_def)
  then show ?thesis unfolding read_conf.simps [of p, unfolded assms(1) Let_def prod.case] using assms(3-5) st
    by (auto simp: conf_result_def spec_finish_def view_def Let_def intro!: exI [of _ "[]"])
qed

text \<open>One piece of the file, when the loop is right for what follows it.\<close>

lemma read_conf_piece:
  assumes r: "file_read (cp_prog p) (cf_file (cp_prog p)) 1024 FL_DEFAULT_OFFSET = (Some (read_at (cp_prog p)), f, t)"
    "read_at (cp_prog p) \<noteq> []" "ran (cp_prog p) (t\<lparr>cf_file := f\<rparr>) (read_at (cp_prog p)) False"
    "os_calls t = Suc (os_calls (cp_prog p))"
    and sim: "sim (parser_ok k) (t\<lparr>cf_file := f\<rparr>) (run conf_step (p\<lparr>cp_prog := t\<lparr>cf_file := f\<rparr>\<rparr>) (read_at (cp_prog p)))
      (run (conf_spec_step (pg_install_dir (cp_prog p))) (view p) (read_at (cp_prog p)))"
    and rest: "\<And>q. parser_ok k q \<Longrightarrow> os_input (cp_prog q) = os_input (cp_prog p) \<Longrightarrow>
      Suc (os_calls (cp_prog p)) \<le> os_calls (cp_prog q) \<Longrightarrow>
      \<exists>res. read_conf q = Some res \<and> conf_result (cp_prog q) (view q) res"
  shows "\<exists>res. read_conf p = Some res \<and> conf_result (cp_prog p) (view p) res"
proof -
  let ?s = "cp_prog p"
  note U = read_conf.simps [of p, unfolded r(1) Let_def prod.case]
  from sim show ?thesis
  proof (cases rule: sim_cases)
    case (go q)
    have m: "ran ?s (cp_prog q) (read_at ?s) False" using ran_trans [OF r(3) moved_ran [OF go(3)]] by simp
    have i: "os_input (cp_prog q) = os_input ?s" "Suc (os_calls ?s) \<le> os_calls (cp_prog q)"
      using m go(3) r(4) by (auto simp: ran_def moved_def moves_def)
    from rest [OF go(2) i] obtain res where res: "read_conf q = Some res" "conf_result (cp_prog q) (view q) res" by blast
    then have "read_conf p = Some res" unfolding U using r(2) go(1) by simp
    moreover have "conf_result ?s (view p) res" using i(2) by (intro conf_result_step [OF m go(4) res(2)]) auto
    ultimately show ?thesis by blast
  next
    case (stop u)
    let ?spec = "run (conf_spec_step (pg_install_dir ?s)) (view p) (read_at ?s)"
    have sp: "spec_finish ?spec \<noteq> Inl Reject \<Longrightarrow> ?spec \<noteq> Inl Reject" by (auto simp: spec_finish_def)
    have "ran ?s u (read_at ?s) (?spec \<noteq> Inl Reject)" using ran_trans [OF r(3) moved_ran [OF stop(2)]] by simp
    then have "ran ?s u (read_at ?s) (spec_finish ?spec \<noteq> Inl Reject)" using sp by (auto simp: ran_def)
    moreover have "read_conf p = Some (Inr (CONF_ERROR, u))" unfolding U using r(2) stop(1) by simp
    ultimately show ?thesis by (auto simp: conf_result_def Let_def intro!: exI [of _ "read_at ?s"])
  next
    case overflow
    then have "read_conf p = Some (Inl (Out_of_bounds 256))" unfolding U using r(2) by simp
    moreover have "pieces (os_input ?s) [os_calls ?s] = read_at ?s" by (simp add: pieces_def read_at_def)
    ultimately show ?thesis using overflow(2)
      by (auto simp: conf_result_def spec_finish_def later_calls_def intro!: exI [of _ "[os_calls ?s]"])
  qed
qed

lemma read_conf_result:
  assumes "parser_ok k p" "\<And>i. n \<le> i \<Longrightarrow> os_input (cp_prog p) i = []" "k + 1024 * (n - os_calls (cp_prog p)) \<le> 2147483648"
  shows "\<exists>res. read_conf p = Some res \<and> conf_result (cp_prog p) (view p) res"
  using assms
proof (induction "n - os_calls (cp_prog p)" arbitrary: k p rule: less_induct)
  case less
  let ?s = "cp_prog p"
  have ok: "prog_ok ?s" using less.prems(1) by (simp add: parser_ok_def)
  obtain b f t where r: "file_read ?s (cf_file ?s) 1024 FL_DEFAULT_OFFSET = (b, f, t)" using prod_cases3 by blast
  let ?t = "t\<lparr>cf_file := f\<rparr>" and ?p = "p\<lparr>cp_prog := t\<lparr>cf_file := f\<rparr>\<rparr>"
  consider (fail) "b = None" "ran ?s ?t [] True"
    | (some) "b = Some (read_at ?s)" "prog_ok ?t" "settings_of ?t = settings_of ?s" "ran ?s ?t (read_at ?s) False"
        "os_calls ?t = Suc (os_calls ?s)"
    using file_read_conf [OF r ok] by (auto split: if_splits)
  then show ?case
  proof cases
    case fail
    with r read_conf_fail show ?thesis by simp
  next
    case some
    show ?thesis
    proof (cases "read_at ?s = []")
      case True
      with r some read_conf_eof [OF _ less.prems(1)] show ?thesis by simp
    next
      case False
      have n: "os_calls ?s < n" using False less.prems(2) [of "os_calls ?s"] by (cases "os_calls ?s < n") (auto simp: read_at_def)
      have len: "length (read_at ?s) \<le> 1024" by (simp add: read_at_def)
      have pk: "parser_ok k ?p" using less.prems(1) some(2) by (simp add: parser_ok_def)
      have vp: "view ?p = view p" using some(3) by (simp add: view_def)
      have dir: "pg_install_dir ?t = pg_install_dir ?s" using some(4) by (simp add: ran_def)
      have "1024 + 1024 * (n - Suc (os_calls ?s)) = 1024 * (n - os_calls ?s)"
        using n by (simp add: Suc_diff_Suc [symmetric])
      then have b2: "k + length (read_at ?s) + 1024 * (n - os_calls ?t) \<le> 2147483648" using len less.prems(3) some(5) by simp
      have sim: "sim (parser_ok (k + length (read_at ?s))) ?t (run conf_step ?p (read_at ?s))
          (run (conf_spec_step (pg_install_dir ?s)) (view p) (read_at ?s))"
        using run_conf_sim [OF pk, of "read_at ?s"] b2 vp dir by simp
      have c: "os_calls t = Suc (os_calls ?s)" using some(5) by simp
      show ?thesis
      proof (rule read_conf_piece [OF r [unfolded some(1)] False some(4) c sim])
        fix q assume q: "parser_ok (k + length (read_at ?s)) q" and i: "os_input (cp_prog q) = os_input ?s"
          "Suc (os_calls ?s) \<le> os_calls (cp_prog q)"
        show "\<exists>res. read_conf q = Some res \<and> conf_result (cp_prog q) (view q) res"
        proof (rule less.hyps [OF _ q])
          show "n - os_calls (cp_prog q) < n - os_calls ?s" using n i(2) by linarith
          show "n \<le> j \<Longrightarrow> os_input (cp_prog q) j = []" for j using less.prems(2) i(1) by simp
          have "1024 * (n - os_calls (cp_prog q)) \<le> 1024 * (n - os_calls ?t)" using i(2) some(5) by (intro mult_le_mono2) auto
          then show "k + length (read_at ?s) + 1024 * (n - os_calls (cp_prog q)) \<le> 2147483648" using b2 by linarith
        qed
      qed
    qed
  qed
qed

section \<open>Initialisation\<close>

lemma ran_cong:
  assumes "os_trace t' = os_trace t" "os_calls t' = os_calls t" "balance t' = balance t" "os_input t' = os_input t"
    "os_fail t' = os_fail t" "pg_install_dir t' = pg_install_dir t"
  shows "ran s t' bs b = ran s t bs b"
  using assms by (simp add: ran_def trouble_def)

lemma ran_simps [simp]:
  "ran s (t\<lparr>cf_pool := q\<rparr>) bs b = ran s t bs b" "ran s (t\<lparr>cf_file := f\<rparr>) bs b = ran s t bs b"
  "ran s (t\<lparr>cf_blocks := n\<rparr>) bs b = ran s t bs b" "ran s (t\<lparr>cf_mod_cmds := a\<rparr>) bs b = ran s t bs b"
  "ran s (t\<lparr>cf_mod_cfs := c\<rparr>) bs b = ran s t bs b"
  "ran s (log_stderr t e m) bs b = ran s t bs b" "ran s (log_error t lg e m) bs b = ran s t bs b"
  by (rule ran_cong; simp add: balance_def frame_simps)+

text \<open>The state in which \<open>main\<close> calls the parser.\<close>

definition conf_ready :: "prog \<Rightarrow> bool" where
  "conf_ready s \<longleftrightarrow> live_wf s \<and> pg_mods s = mk_mods None None None None \<and> rs_sys_mod_num s = 2 \<and>
     length (pg_install_dir s) \<le> 700"

text \<open>The pool of the configuration and the open file.\<close>

lemma create_pool_done:
  assumes "live_wf s" "mem_pool_create s name 1024 lg = (r, s1)"
  shows "ran s s1 [] (r = None)" "cmem.more s1 = cmem.more s" "r = Some p \<Longrightarrow> pool_good s1 p"
proof -
  obtain a t where m: "malloc s 1024 = (a, t)" by fastforce
  show more: "cmem.more s1 = cmem.more s" by (rule mem_pool_create_more [OF assms(2)])
  have b: "balance s1 = (if r = None then balance s - 1 else balance s)"
    using malloc_balance [OF m] assms(2) m by (auto simp: mem_pool_create_def split: if_splits)
  have S: "settled s s1" by (rule prog_more(1) [OF more])
  show "ran s s1 [] (r = None)" using S b by (auto simp: settled_def ran_def trouble_def)
  show "pool_good s1 p" if "r = Some p"
    using create_wf(1) [OF assms(1), of 1024 name lg p s1] mem_pool_create_Some [of s name 1024 lg p s1] assms(2) that
    by (simp add: pool_good_def sizeof_defs)
qed

lemma file_open_done:
  assumes "pool_good s p" "file_open s p name = (r, t, q)"
  shows "ran s t [] (r = None)" "r \<noteq> None \<Longrightarrow> pool_good t q" "pg_mods t = pg_mods s"
    "rs_sys_mod_num t = rs_sys_mod_num s"
proof -
  obtain a s1 p1 where m: "pmalloc s p sizeof_file_t = (a, s1, p1)" using prod_cases3 by blast
  have A: "allocs s (s1, p1) (a = NULL)"
    by (rule pmalloc_allocs(1) [OF assms(1) _ m]) (simp add: fits_conf_def sizeof_defs)
  obtain fd s2 where c: "os_call s1 (Sys_open name FL_RDONLY 420) = (fd, s2)" by fastforce
  have s2: "s2 = os_done s1 (Sys_open name FL_RDONLY 420) fd" using c by (auto simp: os_call_def Let_def)
  have R: "ran s1 s2 [] (fd = -1)" by (auto simp: ran_def trouble_def s2 os_done_def balance_def)
  have G: "pool_good s2 p1" using allocs_good [OF A] pool_good_cong [of s1 p1 s2] by (simp add: s2 frame_simps)
  have M: "pg_mods s2 = pg_mods s" "pg_mods s1 = pg_mods s" "rs_sys_mod_num s2 = rs_sys_mod_num s"
    "rs_sys_mod_num s1 = rs_sys_mod_num s"
    using A prog_more(3) [OF pmalloc_more [OF m]] by (auto simp: allocs_def settled_def s2 os_done_def)
  note T = ran_trans [OF moved_ran [OF allocs_moved [OF A]] R]
  show "ran s t [] (r = None)" "r \<noteq> None \<Longrightarrow> pool_good t q" "pg_mods t = pg_mods s"
    "rs_sys_mod_num t = rs_sys_mod_num s"
    using assms(2) m c T G M moved_ran [OF allocs_moved [OF A]] by (auto simp: file_open_def split: if_splits)
qed

text \<open>Of the commands of module main only \<open>log\<close> is global.\<close>

lemma index_main_cmds:
  assumes "array_wf (cf_mod_cmds s)" "elems (cf_mod_cmds s) = []" "da_nalloc (cf_mod_cmds s) = 10"
  shows "\<exists>a. index_cmds s (sm_commands sys_main_module) = (CONF_OK, s\<lparr>cf_mod_cmds := a\<rparr>) \<and> array_wf a \<and> elems a = [log_cmd]"
proof -
  let ?a = "cf_mod_cmds s"
  have n: "da_nelts ?a = 0" using length_elems [OF assms(1)] assms(2) by simp
  have e: "0 < da_elts ?a" using assms(1) by (simp add: array_wf_def array_shape_def)
  have p: "dynamic_array_push s (cf_pool s) ?a = (da_elts ?a, s, cf_pool s, next_slot ?a)"
    using n assms(3) by (simp add: dynamic_array_push_def Let_def next_slot_def)
  note S = store_next_slot [OF assms(1), of log_cmd]
  have "index_cmds s (sm_commands sys_main_module) = (CONF_OK, s\<lparr>cf_mod_cmds := da_store (next_slot ?a) (da_elts ?a) log_cmd\<rparr>)"
    using p e n by (simp add: sys_main_module_def main_commands_def Let_def log_cmd_def)
  then show ?thesis using S n assms(2,3) by auto
qed

definition init_ok :: "prog \<Rightarrow> int \<times> prog \<Rightarrow> bool" where
  "init_ok s res \<longleftrightarrow> fst res = CONF_ERROR \<and> ran s (snd res) [] True \<or>
     fst res = CONF_OK \<and> ran s (snd res) [] False \<and> prog_ok (snd res) \<and> settings_of (snd res) = no_settings"

lemma init_arrays_done:
  assumes G: "pool_good s p" and num: "rs_sys_mod_num s = 2"
    and mods: "pg_mods s = mk_mods None None None None" and dir: "length (pg_install_dir s) \<le> 700"
  shows "init_ok s (init_arrays s f p)"
proof -
  obtain ao :: "conf_command_t dynamic_array_t option" and s1 p1
    where a: "dynamic_array_init s p 10 sizeof_ptr = (ao, s1, p1)" using prod_cases3 by blast
  note A = init_allocs [OF G _ _ a, simplified]
  note r1 = moved_ran [OF allocs_moved [OF A(1)]]
  show ?thesis
  proof (cases ao)
    case None
    then show ?thesis using r1 a by (simp add: init_arrays_def init_ok_def)
  next
    case ao: (Some cmds)
    let ?s2 = "s1\<lparr>cf_file := f, cf_blocks := 0, cf_pool := p1, cf_mod_cmds := cmds\<rparr>"
    have G2: "pool_good ?s2 p1" using allocs_good [OF A(1)] pool_good_cong [of s1 p1 ?s2] by simp
    obtain bo :: "addr dynamic_array_t option" and s3 p3
      where b: "dynamic_array_init ?s2 p1 2 sizeof_ptr = (bo, s3, p3)" using prod_cases3 by blast
    note B = init_allocs [OF G2 _ _ b, simplified]
    have "ran s ?s2 [] False" using r1 ao by simp
    note r3 = ran_trans [OF this moved_ran [OF allocs_moved [OF B(1)]], simplified]
    show ?thesis
    proof (cases bo)
      case None
      then show ?thesis using r3 a ao b num by (simp add: init_arrays_def init_ok_def)
    next
      case bo: (Some cfs)
      let ?s4 = "s3\<lparr>cf_pool := p3, cf_mod_cfs := cfs\<rparr>"
      have S: "cf_mod_cmds s3 = cmds" "pg_mods s3 = mk_mods None None None None" "length (pg_install_dir s3) \<le> 700"
        using A(1) B(1) mods dir by (simp_all add: allocs_def settled_def)
      obtain x where x: "index_cmds ?s4 (sm_commands sys_main_module) = (CONF_OK, ?s4\<lparr>cf_mod_cmds := x\<rparr>)"
        "array_wf x" "elems x = [log_cmd]"
        using index_main_cmds [of ?s4] A(2) [OF ao] S(1) by auto
      let ?t = "?s4\<lparr>cf_mod_cmds := x\<rparr>"
      have "pool_good ?t p3" using allocs_good [OF B(1)] pool_good_cong [of s3 p3 ?t] by simp
      moreover have "da_nalloc cfs = 2" "0 < da_elts cfs" using B(2) [OF bo] by (auto simp: array_wf_def array_shape_def)
      ultimately have "prog_ok ?t" using x(2,3) S by (auto simp: prog_ok_def)
      moreover have "settings_of ?t = no_settings"
        using settings_of_mods [of ?t None None None None] S(2) by (simp add: no_settings_def log_view_def)
      ultimately show ?thesis using a ao b bo num x(1) r3 by (simp add: init_arrays_def init_ok_def)
    qed
  qed
qed

lemma conf_file_init_done:
  assumes "conf_ready s"
  shows "init_ok s (conf_file_init s lg)"
proof -
  obtain po s1 where c: "mem_pool_create s ''conf_file_pool'' 1024 (Some lg) = (po, s1)" by fastforce
  have lw: "live_wf s" using assms by (simp add: conf_ready_def)
  note C = create_pool_done [OF lw c]
  show ?thesis
  proof (cases po)
    case None
    then show ?thesis using C(1) c by (simp add: conf_file_init_def init_ok_def)
  next
    case (Some pool)
    obtain fo s2 p2 where f: "file_open s1 pool conf_path = (fo, s2, p2)" using prod_cases3 by blast
    note F = file_open_done [OF C(3) [OF Some] f]
    have r2: "ran s s2 [] (fo = None)" using ran_trans [OF C(1) F(1)] Some by simp
    show ?thesis
    proof (cases fo)
      case None
      then show ?thesis using r2 c Some f by (simp add: conf_file_init_def init_ok_def)
    next
      case fo: (Some cfile)
      have M: "pg_mods s2 = mk_mods None None None None" "length (pg_install_dir s2) \<le> 700" "rs_sys_mod_num s2 = 2"
        using F(3,4) prog_more(1,3) [OF C(2)] r2 assms by (simp_all add: settled_def conf_ready_def ran_def)
      have "init_ok s2 (init_arrays s2 cfile p2)" using F(2) fo M by (intro init_arrays_done) simp_all
      moreover have "ran s2 t [] b \<Longrightarrow> ran s t [] b" for t b using ran_trans [OF r2, of t "[]" b] fo by simp
      ultimately have "init_ok s (init_arrays s2 cfile p2)" by (auto simp: init_ok_def)
      then show ?thesis using c Some f fo by (simp add: conf_file_init_def)
    qed
  qed
qed

section \<open>Properties\<close>

text \<open>The file ends: from some call on the kernel delivers nothing, and that is before 2 GB.\<close>

definition input_ends :: "prog \<Rightarrow> nat \<Rightarrow> bool" where
  "input_ends s n \<longleftrightarrow> (\<forall>i. n \<le> i \<longrightarrow> os_input s i = []) \<and> n \<le> 2097152"

lemma conf_parser_result:
  assumes "conf_ready s" "input_ends s n"
  shows "conf_result s (spec_start no_settings) (conf_file_parser s lg)"
proof -
  obtain r t where i: "conf_file_init s lg = (r, t)" by fastforce
  consider (bad) "r = CONF_ERROR" "ran s t [] True"
    | (ok) "r = CONF_OK" "ran s t [] False" "prog_ok t" "settings_of t = no_settings"
    using conf_file_init_done [OF assms(1), of lg] i by (auto simp: init_ok_def)
  then show ?thesis
  proof cases
    case bad
    then have "ran s (log_error t (Some lg) 0 m) [] b" for m b by (simp add: ran_def trouble_def)
    then show ?thesis using bad(1) i by (auto simp: conf_file_parser_def conf_result_def Let_def intro!: exI [of _ "[]"])
  next
    case ok
    let ?p = "conf_parser_start t"
    have c: "os_input t = os_input s" "pg_install_dir t = pg_install_dir s" "os_calls s \<le> os_calls t"
      using ok(2) by (auto simp: ran_def)
    have v: "view ?p = spec_start no_settings" using ok(4)
      by (simp add: view_def conf_parser_start_def spec_start_def elems_def)
    have k: "parser_ok 0 ?p" using ok(3) by (simp add: parser_ok_def conf_parser_start_def)
    have p: "cp_prog ?p = t" by (simp add: conf_parser_start_def)
    have b: "n - os_calls t \<le> 2097152" using assms(2) unfolding input_ends_def by linarith
    obtain res where res: "read_conf ?p = Some res" "conf_result t (spec_start no_settings) res"
      using read_conf_result [OF k, of n] assms(2) c(1) v b unfolding p by (auto simp: input_ends_def)
    have m: "ran s u bs b" if "ran t u bs b" for u bs b using ran_trans [OF ok(2) that] by simp
    have "conf_result s (spec_start no_settings) res"
      using res(2) c m later_calls_mono unfolding conf_result_def Let_def by (fastforce split: sum.splits)
    then show ?thesis using ok(1) i res(1) by (simp add: conf_file_parser_def)
  qed
qed

lemma conf_spec_finish: "conf_spec_parse dir st bs = spec_finish (run (conf_spec_step dir) (spec_start st) bs)"
  by (simp add: conf_spec_parse_def spec_finish_def)

text \<open>
  C2: \<open>conf_file_parser\<close> refines the configuration language.  However the kernel cuts the file
  into reads, and whatever \<open>malloc\<close>, \<open>open\<close> and \<open>read\<close> answer, the parser ends when the file
  does; when it returns \<open>CONF_OK\<close> the modules hold exactly the settings that the bytes
  delivered mean, when it returns \<open>CONF_ERROR\<close> these bytes have no meaning or an allocation or a
  system call has failed; the only undefined behaviour is a write past the 256 bytes of
  \<open>key\<close>, and then the bytes read do contain a word that is too long.
\<close>

theorem conf_parser_refines:
  assumes "conf_ready s" "input_ends s n"
  shows "case conf_file_parser s lg of
      Inr (r, t) \<Rightarrow> \<exists>tr. os_trace t = os_trace s @ tr \<and>
        (let spec = conf_spec_parse (pg_install_dir s) no_settings (delivered (os_input s) (os_calls s) tr)
         in r = CONF_OK \<and> spec = Inr (settings_of t) \<or> r = CONF_ERROR \<and> (spec = Inl Reject \<or> trouble s t))
    | Inl u \<Rightarrow> u = Out_of_bounds 256 \<and> (\<exists>ns. later_calls (os_calls s) ns \<and>
        conf_spec_parse (pg_install_dir s) no_settings (pieces (os_input s) ns) = Inl Overflow)"
  using conf_parser_result [OF assms, of lg] unfolding conf_result_def conf_spec_finish Let_def ran_def
  by (fastforce split: sum.splits)

text \<open>A machine whose kernel delivers the given bytes with the first read.\<close>

definition demo_prog :: "byte list \<Rightarrow> prog" where
  "demo_prog content = world.extend (demo_world (\<lambda>_. 5) (\<lambda>i. if i = 1 then content else []))
     \<lparr>pg_install_dir = ''/opt'', pg_mods = mk_mods None None None None,
      cf_file = \<lparr>fl_fd = 0, fl_offset = 0, fl_name = string_null\<rparr>, cf_blocks = 0,
      cf_mod_cmds = \<lparr>da_elts = NULL, da_size = 0, da_nelts = 0, da_nalloc = 0, da_cells = Map.empty\<rparr>,
      cf_mod_cfs = \<lparr>da_elts = NULL, da_size = 0, da_nelts = 0, da_nalloc = 0, da_cells = Map.empty\<rparr>,
      cf_pool = \<lparr>mp_self = NULL, mp_name = string_null, mp_total = 0, mp_max = 0, mp_current = 0, mp_large = [],
        mp_logger = None, mp_chunks = []\<rparr>,
      rs_stop = 0, rs_sys_mod_num = 2, rs_main_logger = None, rs_log_stdout = None, rs_default_logger = None\<rparr>"

lemmas demo_prog_defs = demo_prog_def demo_world_def demo_cmem_def world.defs cmem.defs

lemma demo_prog_ready: "conf_ready (demo_prog bs)" "input_ends (demo_prog bs) 2"
  by (auto simp: conf_ready_def input_ends_def demo_prog_defs live_wf_def)

lemmas init_eval = conf_file_init_def init_arrays_def file_open_def os_call_def os_done_def dynamic_array_init_def
  conf_path_def dynamic_array_push_def da_store_def next_slot_def sys_main_module_def main_commands_def
  sizeof_file_t_def sizeof_ptr_def pmalloc_eval demo_eval

lemmas read_eval = conf_parser_start_def file_read_def file_seek_def os_read_def os_done_def Let_def
  conf_step_def on_state_def on_command_blank_def

text \<open>A file with a comment in it.\<close>

definition demo_comment :: config where
  "demo_comment = [Remark ''hi'']"

lemma demo_comment_print: "print_conf [LF] demo_comment = [CHR ''#'', CHR ''h'', CHR ''i'', LF, LF]"
  by (simp add: demo_comment_def print_conf_def print_note_def)

lemma demo_comment_parse:
  "\<exists>t. conf_file_parser (demo_prog (print_conf [LF] demo_comment)) \<lparr>lg_level = LOG_LEVEL_INFO, lg_file = None\<rparr> = Inr (0, t) \<and>
     os_trace t = [(Sys_open conf_path FL_RDONLY 420, 5), (Sys_read 5 1024, 5), (Sys_read 5 1024, 0)]"
  unfolding demo_comment_print
  apply (simp add: conf_file_parser_def demo_prog_defs init_eval)
  apply (subst read_conf.simps)
  apply (simp add: read_eval is_blank_def is_letter_def LF_def CR_def)
  apply (subst read_conf.simps)
  apply (simp add: read_eval)
  done

lemma demo_comment_spec:
  "conf_spec_parse ''/opt'' no_settings (print_conf [LF] demo_comment) = Inr no_settings"
  using conf_spec_print [of demo_comment "[LF]" "''/opt''" no_settings]
  by (simp add: demo_comment_def blanks_ok_def is_blank_def LF_def)

lemma demo_comment_bytes:
  "os_trace (demo_prog (print_conf [LF] demo_comment)) = []" "os_calls (demo_prog (print_conf [LF] demo_comment)) = 0"
  "pg_install_dir (demo_prog (print_conf [LF] demo_comment)) = ''/opt''"
  "delivered (os_input (demo_prog (print_conf [LF] demo_comment))) 0
     [(Sys_open conf_path FL_RDONLY 420, 5), (Sys_read 5 1024, 5), (Sys_read 5 1024, 0)] = print_conf [LF] demo_comment"
  by (simp_all add: demo_prog_defs demo_comment_print)

lemma demo_comment_settings:
  "\<exists>t. conf_file_parser (demo_prog (print_conf [LF] demo_comment)) \<lparr>lg_level = LOG_LEVEL_INFO, lg_file = None\<rparr> = Inr (0, t) \<and>
     settings_of t = no_settings"
proof -
  let ?s = "demo_prog (print_conf [LF] demo_comment)" and ?lg = "\<lparr>lg_level = LOG_LEVEL_INFO, lg_file = None\<rparr>"
  obtain t where t: "conf_file_parser ?s ?lg = Inr (0, t)"
    "os_trace t = [(Sys_open conf_path FL_RDONLY 420, 5), (Sys_read 5 1024, 5), (Sys_read 5 1024, 0)]"
    using demo_comment_parse by blast
  obtain bs where bs: "ran ?s t bs False" "spec_finish (run (conf_spec_step ''/opt'') (spec_start no_settings) bs) = Inr (settings_of t)"
    using conf_parser_result [OF demo_prog_ready, of "print_conf [LF] demo_comment" ?lg] t(1) demo_comment_bytes(3)
    by (auto simp: conf_result_def Let_def)
  have "bs = print_conf [LF] demo_comment" using bs(1) t(2) demo_comment_bytes by (auto simp: ran_def)
  then have "settings_of t = no_settings"
    using bs(2) demo_comment_spec unfolding conf_spec_finish by simp
  with t(1) show ?thesis by blast
qed

theorem conf_parser_refines_witness:
  "\<exists>t. conf_file_parser (demo_prog (print_conf [LF] demo_comment)) \<lparr>lg_level = LOG_LEVEL_INFO, lg_file = None\<rparr> = Inr (0, t) \<and>
     settings_of t = no_settings"
proof -
  let ?s = "demo_prog (print_conf [LF] demo_comment)"
  obtain t where t: "conf_file_parser ?s \<lparr>lg_level = LOG_LEVEL_INFO, lg_file = None\<rparr> = Inr (0, t)"
    "os_trace t = [(Sys_open conf_path FL_RDONLY 420, 5), (Sys_read 5 1024, 5), (Sys_read 5 1024, 0)]"
    using demo_comment_parse by blast
  show ?thesis
    using conf_parser_refines [OF demo_prog_ready, of "print_conf [LF] demo_comment" "\<lparr>lg_level = LOG_LEVEL_INFO, lg_file = None\<rparr>"] t
      demo_comment_bytes demo_comment_spec
    by (auto simp: Let_def)
qed

text \<open>
  C13: what is written is what is configured.  When the kernel has delivered a configuration
  as \<open>print_conf\<close> lays it out, with any white space between the words, comments, blocks in
  any order and repeated, then a parse that returns \<open>CONF_OK\<close> has given the modules exactly
  the meaning of that configuration, and one that returns \<open>CONF_ERROR\<close> has met an unknown
  module, an unknown command or a bad argument, or an allocation or a system call has failed.
\<close>

theorem conf_parser_roundtrip:
  assumes "conf_ready s" "input_ends s n" "conf_file_parser s lg = Inr (r, t)"
    and "os_trace t = os_trace s @ tr" "delivered (os_input s) (os_calls s) tr = print_conf ws cfg"
    and "list_all part_ok cfg" "blanks_ok ws"
  shows "r = CONF_OK \<and> eval_conf (pg_install_dir s) cfg no_settings = Some (settings_of t) \<or>
    r = CONF_ERROR \<and> (eval_conf (pg_install_dir s) cfg no_settings = None \<or> trouble s t)"
proof -
  have "\<exists>tr. os_trace t = os_trace s @ tr \<and>
        (let spec = spec_finish (run (conf_spec_step (pg_install_dir s)) (spec_start no_settings) (delivered (os_input s) (os_calls s) tr))
         in r = CONF_OK \<and> spec = Inr (settings_of t) \<or> r = CONF_ERROR \<and> (spec = Inl Reject \<or> trouble s t))"
    using conf_parser_result [OF assms(1,2), of lg] assms(3) unfolding conf_result_def Let_def ran_def by fastforce
  then show ?thesis
    using assms(4,5) conf_spec_print [OF assms(6,7), of "pg_install_dir s" no_settings]
    by (auto simp: Let_def conf_spec_finish split: option.splits)
qed

theorem conf_parser_roundtrip_witness:
  "\<exists>t. conf_file_parser (demo_prog (print_conf [LF] demo_comment)) \<lparr>lg_level = LOG_LEVEL_INFO, lg_file = None\<rparr> = Inr (0, t) \<and>
     eval_conf ''/opt'' demo_comment no_settings = Some (settings_of t)"
proof -
  let ?s = "demo_prog (print_conf [LF] demo_comment)"
  obtain t where t: "conf_file_parser ?s \<lparr>lg_level = LOG_LEVEL_INFO, lg_file = None\<rparr> = Inr (0, t)"
    "os_trace t = [(Sys_open conf_path FL_RDONLY 420, 5), (Sys_read 5 1024, 5), (Sys_read 5 1024, 0)]"
    using demo_comment_parse by blast
  have d: "os_trace ?s = []" "os_calls ?s = 0" "os_input ?s = (\<lambda>i. if i = 1 then print_conf [LF] demo_comment else [])"
    "pg_install_dir ?s = ''/opt''"
    by (simp_all add: demo_prog_defs)
  have "delivered (os_input ?s) (os_calls ?s) (os_trace t) = print_conf [LF] demo_comment"
    unfolding t(2) d(2,3) by (simp add: demo_comment_print)
  moreover have "list_all part_ok demo_comment" "blanks_ok [LF]"
    by (simp_all add: demo_comment_def blanks_ok_def is_blank_def LF_def)
  ultimately show ?thesis
    using conf_parser_roundtrip [OF demo_prog_ready t(1), of "os_trace t" "[LF]" demo_comment] t(1) d by auto
qed

end
