(* ===== verification/Lifecycle.thy ===== *)
theory Lifecycle
  imports Startup NetRun ConfRead
begin

text \<open>
  The life of the process from the initialisation of the module net to the end of the main
  loop: what a successful initialisation leaves, that \<open>SIGTERM\<close> ends the loop, and what the
  process leaves in its pid file.
\<close>

section \<open>Initialising the module net\<close>

lemma mod_pmalloc_frame:
  assumes "mod_pmalloc s n = (p, s')"
  shows "nt_driver s' = nt_driver s" "nt_server s' = nt_server s" "nt_interest s' = nt_interest s"
    "os_fail s' = os_fail s" "nt_bufs s' = nt_bufs s"
  using assms net_more [OF pmalloc_more] by (auto simp: mod_pmalloc_def split: prod.splits)

lemma mod_pmalloc_frameD:
  "mod_pmalloc s n = (p, s') \<Longrightarrow> nt_driver s' = nt_driver s \<and> nt_server s' = nt_server s \<and> nt_interest s' = nt_interest s \<and>
    os_fail s' = os_fail s \<and> nt_bufs s' = nt_bufs s"
  by (simp add: mod_pmalloc_frame)

lemma epoll_build_ok:
  assumes "net_event_init s = (r, s')" "r \<noteq> EVENT_ERROR"
  shows "0 < ed_size (nt_driver s)" "ed_active_conns (nt_driver s') = NULL" "nt_interest s' = nt_interest s"
    "os_fail s' = os_fail s" "nt_bufs s' = nt_bufs s"
  using assms
  by (auto simp: net_event_init_def epoll_build_def Let_def os_epoll_create_def frame_simps dest!: mod_pmalloc_frameD
      split: prod.splits if_splits)

lemma tcp_server_init_ok:
  assumes "tcp_server_init s = Inr (r, s')" "r \<noteq> TCP_SRV_ERROR" "0 < sv_connections (nt_server s)"
    "sv_connections (nt_server s) \<le> 2147483648"
  shows "\<exists>free. free_list s' free \<and> free \<noteq> []" "nt_driver s' = nt_driver s" "nt_interest s' = nt_interest s"
    "os_fail s' = os_fail s" "nt_bufs s' = nt_bufs s" "sv_sock_fd (nt_server s') \<noteq> -1"
proof -
  obtain fd s1 where c: "tcp_server_create_socket s = (fd, s1)" by fastforce
  obtain r2 s2 where l: "tcp_server_listen s1 fd = (r2, s2)" by fastforce
  obtain r3 s3 where ok: "fd \<noteq> -1" "r2 \<noteq> -1" "r3 \<noteq> -1" "s' = s3" and p: "connection_pool_init s2 = Inr (r3, s3)"
    using assms(1,2) c l by (auto simp: tcp_server_init_def Let_def elim!: sbindE split: if_splits)
  have f1: "nt_driver s1 = nt_driver s" "nt_interest s1 = nt_interest s" "os_fail s1 = os_fail s" "nt_bufs s1 = nt_bufs s"
    "sv_connections (nt_server s1) = sv_connections (nt_server s)" "sv_sock_fd (nt_server s1) = fd"
    using c ok(1) by (auto simp: tcp_server_create_socket_def Let_def os_call_def frame_simps split: if_splits prod.splits)
  have f2: "nt_driver s2 = nt_driver s1" "nt_interest s2 = nt_interest s1" "os_fail s2 = os_fail s1" "nt_bufs s2 = nt_bufs s1"
    "sv_connections (nt_server s2) = sv_connections (nt_server s1)" "sv_sock_fd (nt_server s2) = sv_sock_fd (nt_server s1)"
    using l ok(2) by (auto simp: tcp_server_listen_def Let_def os_call_def frame_simps split: if_splits)
  have z: "r3 = TCP_SRV_OK" using p ok(3) by (auto simp: connection_pool_init_def Let_def split: prod.splits if_splits)
  have n: "0 < sv_connections (nt_server s2)" "sv_connections (nt_server s2) \<le> 2147483648" using assms(3,4) f1(5) f2(5) by simp_all
  have f3: "nt_driver s3 = nt_driver s2" "nt_interest s3 = nt_interest s2" "os_fail s3 = os_fail s2" "nt_bufs s3 = nt_bufs s2"
    "sv_sock_fd (nt_server s3) = sv_sock_fd (nt_server s2)"
    using p ok(3) by (auto simp: connection_pool_init_def Let_def dest!: mod_pmalloc_frameD split: prod.splits if_splits)
  show "\<exists>free. free_list s' free \<and> free \<noteq> []"
    using connection_pool_init_free [of s2 s3] p z n ok(4) by (force simp: conn_array_def)
  show "nt_driver s' = nt_driver s" "nt_interest s' = nt_interest s"
    "os_fail s' = os_fail s" "nt_bufs s' = nt_bufs s" "sv_sock_fd (nt_server s') \<noteq> -1"
    using f1 f2 f3 ok by simp_all
qed

lemma mod_pmalloc_first:
  assumes "length (mp_chunks (nt_pool s)) = 1" "mp_current (nt_pool s) = 0" "n \<le> mp_max (nt_pool s)"
    "ck_last (hd (mp_chunks (nt_pool s))) + n \<le> ck_end (hd (mp_chunks (nt_pool s)))" "ck_end (hd (mp_chunks (nt_pool s))) < size_mod"
  shows "mod_pmalloc s n = (ck_last (hd (mp_chunks (nt_pool s))), s\<lparr>nt_pool := (nt_pool s)\<lparr>mp_chunks :=
    [(hd (mp_chunks (nt_pool s)))\<lparr>ck_last := ck_last (hd (mp_chunks (nt_pool s))) + n\<rparr>]\<rparr>\<rparr>)"
proof -
  have "mp_chunks (nt_pool s) = [hd (mp_chunks (nt_pool s))]" using assms(1) by (cases "mp_chunks (nt_pool s)") auto
  from pmalloc_first_chunk [OF this assms(2-), of s] show ?thesis unfolding mod_pmalloc_def by simp
qed

text \<open>A successful addition for a connection that has no events yet.\<close>

lemma add_event_first:
  assumes "add_event s c ev h = (r, s')" "r \<noteq> EVENT_ERROR" "cn_events (nt_conns s c) = 0"
  shows "nt_interest s' = (cn_fd (nt_conns s c), epoll_mask ev, c) # filter (\<lambda>e. fst e \<noteq> cn_fd (nt_conns s c)) (nt_interest s)"
    "cn_is_listen (nt_conns s' c) = cn_is_listen (nt_conns s c)"
    "ev AND EV_READ_EVENT \<noteq> 0 \<Longrightarrow> cn_read_handler (nt_conns s' c) = Some h"
    "nt_server s' = nt_server s" "nt_driver s' = nt_driver s"
proof -
  obtain r1 s1 where ctl: "os_epoll_ctl s (ep_fd (ed_io_ctx (nt_driver s))) EPOLL_CTL_ADD (cn_fd (nt_conns s c)) (epoll_mask ev) c = (r1, s1)"
    by fastforce
  have "epoll_add_event s c ev = (if r1 = -1 then (EVENT_ERROR, s1) else (EVENT_OK, upd_conn c (\<lambda>c. c\<lparr>cn_events := ev\<rparr>) s1))"
    using ctl assms(3) by (simp add: epoll_add_event_def Let_def EV_NONE_EVENT_def)
  then have e: "epoll_add_event s c ev = (EVENT_OK, upd_conn c (\<lambda>c. c\<lparr>cn_events := ev\<rparr>) s1)" and r1: "r1 \<noteq> -1"
    using assms(1,2) by (auto simp: add_event_def split: if_splits)
  from ctl r1 have s1: "nt_interest s1 = (cn_fd (nt_conns s c), epoll_mask ev, c) # filter (\<lambda>e. fst e \<noteq> cn_fd (nt_conns s c)) (nt_interest s)"
    by (cases rule: os_epoll_ctl_cases) simp_all
  note f = os_epoll_ctl_frame [OF ctl]
  have s': "s' = (let s2 = upd_conn c (\<lambda>c. c\<lparr>cn_events := ev\<rparr>) s1;
      s3 = (if ev AND EV_READ_EVENT \<noteq> 0 then upd_conn c (\<lambda>c. c\<lparr>cn_read_handler := Some h\<rparr>) s2 else s2)
    in if ev AND EV_WRITE_EVENT \<noteq> 0 then upd_conn c (\<lambda>c. c\<lparr>cn_write_handler := Some h\<rparr>) s3 else s3)"
    using assms(1) e by (simp add: add_event_def Let_def)
  show "nt_interest s' = (cn_fd (nt_conns s c), epoll_mask ev, c) # filter (\<lambda>e. fst e \<noteq> cn_fd (nt_conns s c)) (nt_interest s)"
    "cn_is_listen (nt_conns s' c) = cn_is_listen (nt_conns s c)"
    "ev AND EV_READ_EVENT \<noteq> 0 \<Longrightarrow> cn_read_handler (nt_conns s' c) = Some h"
    "nt_server s' = nt_server s" "nt_driver s' = nt_driver s"
    unfolding s' Let_def using s1 f by (simp_all add: frame_simps)
qed

lemma held_log:
  assumes "held s free cur act"
  shows "held (log_error s lg e t) free cur act" "held (log_warn s lg e t) free cur act" "held (log_info s lg e t) free cur act"
  using held_quiet [OF assms] quiet_step(2-4) [OF quiet_refl [OF held_bufs [OF assms]]] by auto

lemma tcp_get_connection_zero:
  assumes "tcp_get_connection s fd = (c, s')" "c \<noteq> NULL"
  shows "cn_events (nt_conns s' c) = 0 \<and> cn_fd (nt_conns s' c) = fd \<and> nt_interest s' = nt_interest s \<and> nt_driver s' = nt_driver s \<and>
    sv_sock_fd (nt_server s') = sv_sock_fd (nt_server s)"
  using assms(1)
proof (cases rule: tcp_get_connection_cases)
  case (some pool s1)
  then show ?thesis using net_more [OF some(3)] by (simp add: frame_simps connection_zero_def)
qed (use assms(2) in simp)

lemma start_listening_ok:
  assumes i: "start_listening lg s = Inr (MOD_OK, s')" and h: "held s free NULL []"
    and e: "nt_interest s = []" "ed_active_conns (nt_driver s) = NULL"
  shows "net_ready s' \<and> (\<exists>c. nt_interest s' = [(sv_sock_fd (nt_server s'), EPOLLIN, c)] \<and>
    cn_read_handler (nt_conns s' c) = Some H_accept \<and> cn_is_listen (nt_conns s' c) = 1)"
proof -
  obtain c s1 where g: "tcp_get_connection s (sv_sock_fd (nt_server s)) = (c, s1)" by fastforce
  define s2 where "s2 = upd_conn c (\<lambda>k. k\<lparr>cn_is_listen := 1\<rparr>) s1"
  obtain r s3 where a: "add_event s2 c EV_READ_EVENT H_accept = (r, s3)" by fastforce
  have ok: "c \<noteq> NULL" "r \<noteq> EVENT_ERROR" "s' = log_info s3 lg 0 ''server is listening''"
    using i unfolding start_listening_def Let_def g prod.case s2_def [symmetric] a
    by (auto split: if_splits prod.splits elim!: sbindE)
  obtain ys where h1: "held s1 ys NULL []" "in_use s1 ys c" using tcp_get_connection_held [OF h g] ok(1) by auto
  note z = tcp_get_connection_zero [OF g ok(1)]
  have h2: "held s2 ys NULL []" "in_use s2 ys c"
    using held_upd_conn [OF h1(1)] h1(2) by (simp_all add: s2_def same_conn_def in_use_def frame_simps)
  have h3: "held s3 ys NULL []" using add_event_held [OF h2, of EV_READ_EVENT H_accept] a by simp
  have z2: "cn_events (nt_conns s2 c) = 0" "cn_fd (nt_conns s2 c) = sv_sock_fd (nt_server s)" "nt_interest s2 = nt_interest s"
    "nt_driver s2 = nt_driver s" "sv_sock_fd (nt_server s2) = sv_sock_fd (nt_server s)" "cn_is_listen (nt_conns s2 c) = 1"
    using z by (simp_all add: s2_def frame_simps)
  show ?thesis
    using held_log(3) [OF h3] add_event_first [OF a ok(2) z2(1)] z2 e
    by (auto simp: ok(3) net_ready_def frame_simps epoll_mask_def event_defs)
qed

lemma init_network_mod_ok:
  assumes i: "init_network_mod (Some cf) lg s = Inr (MOD_OK, s')" and e: "nt_interest s = []"
    and n: "nc_conns cf < 2147483648" and b: "bufs_ok s" "\<forall>n. \<exists>m \<ge> n. os_fail s m \<noteq> EINTR"
  shows "net_ready s' \<and> (\<exists>c. nt_interest s' = [(sv_sock_fd (nt_server s'), EPOLLIN, c)] \<and>
    cn_read_handler (nt_conns s' c) = Some H_accept \<and> cn_is_listen (nt_conns s' c) = 1)"
proof -
  obtain d s1 where p1: "mod_pmalloc s sizeof_net_event_driver_t = (d, s1)" by fastforce
  note f1 = mod_pmalloc_frame [OF p1]
  define s2 where "s2 = s1\<lparr>nt_driver := (nt_driver s1)\<lparr>ed_size := int (nc_conns cf div 2), ed_logger := lg\<rparr>\<rparr>"
  obtain r s3 where p3: "net_event_init s2 = (r, s3)" by fastforce
  obtain v s5 where p5: "mod_pmalloc (log_info s3 lg 0 ''event driver has been init successfully.'') sizeof_tcp_server_t = (v, s5)"
    by fastforce
  note f5 = mod_pmalloc_frame [OF p5]
  define s6 where "s6 = s5\<lparr>nt_server := (nt_server s5)\<lparr>sv_port := nc_port cf, sv_connections := nc_conns cf,
    sv_nodelay := nc_nodelay cf, sv_request_buf_size := nc_request_buffer_size cf, sv_logger := lg\<rparr>\<rparr>"
  obtain r2 s7 where p7: "tcp_server_init s6 = Inr (r2, s7)" and ok: "r \<noteq> EVENT_ERROR" "r2 \<noteq> TCP_SRV_ERROR"
    "start_listening lg (log_info s7 lg 0 ''server init successfully'') = Inr (MOD_OK, s')"
    using i unfolding init_network_mod_def Let_def p1 prod.case option.case s2_def [symmetric] p3 p5 s6_def [symmetric]
    by (auto split: if_splits elim!: sbindE)
  note e3 = epoll_build_ok [OF p3 ok(1)]
  have s: "0 < sv_connections (nt_server s6)" "sv_connections (nt_server s6) \<le> 2147483648"
    using e3(1) n by (auto simp: s2_def s6_def)
  note t = tcp_server_init_ok [OF p7 ok(2) s]
  obtain free where "free_list s7 free" using t(1) by blast
  then have "held s7 free NULL []"
    using e b t(3-5) e3 f1 f5 by (simp add: held_def s6_def s2_def bufs_ok_def frame_simps)
  from start_listening_ok [OF ok(3) held_log(3) [OF this]] show ?thesis
    using e e3 f1 f5 t by (simp add: s6_def s2_def frame_simps)
qed

section \<open>The main loop\<close>

lemma process_network_mod_ready:
  assumes "net_ready s"
  shows "case process_network_mod s of Inl u \<Rightarrow> ends u | Inr (r, s') \<Rightarrow> net_ready s'"
  using process_events_ready [OF assms] by (auto simp: process_network_mod_def split: sum.splits)

lemma log_ready: "net_ready s \<Longrightarrow> net_ready (log_error s lg e t)" "net_ready s \<Longrightarrow> net_ready (log_warn s lg e t)"
  by (auto simp: net_ready_def frame_simps intro: held_log)

lemma process_mods_ready:
  "net_ready s \<Longrightarrow> case process_mods ms lg s of Inl u \<Rightarrow> ends u | Inr s' \<Rightarrow> net_ready s'"
proof (induction ms lg s rule: process_mods.induct)
  case (2 m ms lg s)
  show ?case
  proof (cases "sm_process m")
    case None
    then show ?thesis using 2 by simp
  next
    case (Some f)
    have f: "call_process f s = process_network_mod s" by (cases f) simp
    note r = process_network_mod_ready [OF "2.prems"]
    show ?thesis
    proof (cases "process_network_mod s")
      case (Inl u)
      then show ?thesis using Some f r by simp
    next
      case (Inr x)
      obtain k s1 where x: "x = (k, s1)" by fastforce
      have "net_ready (if k = MOD_ERROR then log_error s1 lg 0 ''process module failed.'' else s1)"
        using r Inr x log_ready(1) by simp
      from "2.IH"(2) [OF Some _ refl, of k s1] this f Inr x show ?thesis using Some by simp
    qed
  qed
qed simp

lemma timer_update_ends: "timer_update lt tv t = Inl u \<Longrightarrow> ends u"
  by (auto simp: timer_update_def Let_def split: if_splits)

lemma work_round_ready:
  assumes "net_ready (pc_net p)" "\<not> ev_backtrace e"
  shows "case work_round e p of Inl u \<Rightarrow> ends u | Inr p' \<Rightarrow> net_ready (pc_net p') \<and> pc_ticks p' = Suc (pc_ticks p) \<and>
    pc_stop p' = (if ev_term e (pc_ticks p) then 1 else pc_stop p)"
proof (cases "process_mods (pc_mods p) (pc_default_logger p) (pc_net p)")
  case (Inl u)
  then show ?thesis using process_mods_ready [OF assms(1), of "pc_mods p" "pc_default_logger p"] by (simp add: work_round_def)
next
  case (Inr s)
  then have s: "net_ready s" using process_mods_ready [OF assms(1), of "pc_mods p" "pc_default_logger p"] by simp
  show ?thesis
  proof (cases "timer_update (ev_localtime e) (ev_clock e (pc_ticks p)) (pc_timer p)")
    case (Inl u)
    then show ?thesis using Inr timer_update_ends by (simp add: work_round_def)
  next
    case t: (Inr t)
    then show ?thesis
      using Inr s log_ready(2) assms(2) by (simp add: work_round_def Let_def sig_term_handler_def upd_net_state_def)
  qed
qed

lemma working_ends:
  assumes "\<not> ev_backtrace e" "ev_term e k"
  shows "net_ready (pc_net p) \<Longrightarrow> pc_stop p = 0 \<Longrightarrow> pc_ticks p \<le> k \<Longrightarrow>
    \<exists>res. system_modules_working e p = Some res \<and>
      (case res of Inl u \<Rightarrow> ends u | Inr p' \<Rightarrow> pc_stop p' = 1 \<and> pc_ticks p' \<le> Suc k \<and> net_ready (pc_net p'))"
proof (induction "k - pc_ticks p" arbitrary: p rule: less_induct)
  case less
  note r = work_round_ready [OF less.prems(1) assms(1)]
  show ?case
  proof (cases "work_round e p")
    case (Inl u)
    then show ?thesis using less.prems(2) r by (subst system_modules_working.simps) simp
  next
    case (Inr p1)
    then have p1: "net_ready (pc_net p1)" "pc_ticks p1 = Suc (pc_ticks p)" "pc_stop p1 = (if ev_term e (pc_ticks p) then 1 else 0)"
      using r less.prems(2) by simp_all
    have u: "system_modules_working e p = system_modules_working e p1"
      using Inr less.prems(2) by (subst system_modules_working.simps) simp
    show ?thesis
    proof (cases "ev_term e (pc_ticks p)")
      case True
      then show ?thesis using u p1 less.prems(3) by (simp add: system_modules_working.simps [of e p1])
    next
      case False
      then have "pc_ticks p \<noteq> k" using assms(2) by auto
      then show ?thesis using less.hyps [of p1] p1 less.prems(3) False u by simp
    qed
  qed
qed

section \<open>The daemon\<close>

lemma detach_stdio_trace: "\<exists>tr. os_trace (detach_stdio s) = os_trace s @ tr"
  by (auto simp: detach_stdio_def os_call_def os_close_def Let_def frame_simps)

lemma os_call_held: "held s free cur act \<Longrightarrow> held (snd (os_call s x)) free cur act"
  using held_quiet [OF _ quiet_step(1) [OF quiet_refl]] held_bufs by (auto simp: os_call_def Let_def)

lemma os_write_held: "held s free cur act \<Longrightarrow> held (snd (os_write s fd bs)) free cur act"
  using held_quiet [OF _ quiet_step(1) [OF quiet_refl]] held_bufs by (auto simp: os_write_def Let_def)

lemma os_call_driver: "nt_driver (snd (os_call s x)) = nt_driver s" "nt_driver (snd (os_write s fd bs)) = nt_driver s"
  for s :: net
  by (simp_all add: os_call_def os_write_def Let_def frame_simps)

lemma os_call_ready: "net_ready s \<Longrightarrow> net_ready (snd (os_call s x))" "net_ready s \<Longrightarrow> net_ready (snd (os_close s fd))"
  "net_ready s \<Longrightarrow> net_ready (snd (os_write s fd bs))"
  by (auto simp: net_ready_def os_call_driver os_close_frame intro: os_call_held os_close_held os_write_held)

lemma detach_stdio_ready: "net_ready s \<Longrightarrow> net_ready (detach_stdio s)"
  by (auto simp: detach_stdio_def Let_def case_prod_beta intro!: os_call_ready)

lemma process_daemon_ready: "net_ready s \<Longrightarrow> net_ready (snd (snd (process_daemon d f lg s)))"
  by (auto simp: process_daemon_def Let_def case_prod_beta intro!: os_call_ready log_ready detach_stdio_ready)

text \<open>The module main touches nothing of the network.\<close>

lemma os_call_frame:
  fixes s :: net
  assumes "os_call s x = (r, s')"
  shows "nt_interest s' = nt_interest s \<and> nt_bufs s' = nt_bufs s \<and> os_fail s' = os_fail s"
  using assms by (auto simp: os_call_def Let_def frame_simps)

lemma sigactions_frame:
  fixes s :: net
  shows "sigactions s sigs = (r, s') \<Longrightarrow> nt_interest s' = nt_interest s \<and> nt_bufs s' = nt_bufs s \<and> os_fail s' = os_fail s"
  by (induction s sigs rule: sigactions.induct) (auto simp: Let_def dest!: os_call_frame split: prod.splits if_splits)

lemma init_main_mod_frame:
  fixes s :: net
  shows "init_main_mod bt s = (r, s') \<Longrightarrow> nt_interest s' = nt_interest s \<and> nt_bufs s' = nt_bufs s \<and> os_fail s' = os_fail s"
  by (auto simp: init_main_mod_def setup_signals_def Let_def dest!: os_call_frame sigactions_frame split: prod.splits if_splits)

lemma log_info_ready: "net_ready s \<Longrightarrow> net_ready (log_info s lg e t)"
  by (auto simp: net_ready_def frame_simps intro: held_log)

lemma init_network_codes: "init_network_mod c lg s = Inr (r, s') \<Longrightarrow> r = MOD_OK \<or> r = MOD_ERROR"
  by (auto simp: init_network_mod_def start_listening_def Let_def split: if_splits option.splits prod.splits elim!: sbindE)

lemma main_init_ready:
  assumes "main_init bt p = Inr (out, p')" "out \<noteq> Returns XPE_ERROR"
    and m: "pc_mods p = [m0, m1]" "sm_init m0 = Some init_main" "sm_init m1 = Some init_network"
      "net_conf_of (sm_conf m1) = Some cf" "nc_conns cf < 2147483648"
    and s: "nt_interest (pc_net p) = []" "bufs_ok (pc_net p)" "\<forall>n. \<exists>m \<ge> n. os_fail (pc_net p) m \<noteq> EINTR"
  shows "net_ready (pc_net p') \<and> pc_stop p' = pc_stop p \<and> pc_ticks p' = pc_ticks p"
proof -
  let ?lg = "pc_default_logger p" let ?m = "''module init successfully.''"
  obtain r s1 where i: "init_main_mod bt (pc_net p) = (r, s1)" by fastforce
  note f = init_main_mod_frame [OF i]
  let ?s2 = "log_info s1 ?lg 0 ?m"
  obtain r2 s3 where n: "init_network_mod (Some cf) (sm_logger m1) ?s2 = Inr (r2, s3)" and r: "r \<noteq> MOD_ERROR" "r2 \<noteq> MOD_ERROR"
    and p': "p' = p\<lparr>pc_net := pc_net p', pc_mods := pc_mods p'\<rparr>" "\<exists>d f. pc_net p' = snd (snd (process_daemon d f ?lg (log_info s3 ?lg 0 ?m)))"
    using assms(1,2) m(1-4) i
    by (auto simp: main_init_def system_modules_init_def elim!: sbindE split: if_splits option.splits prod.splits) (metis snd_conv)
  have "r2 = MOD_OK" using init_network_codes [OF n] r(2) by blast
  then have "net_ready s3"
    using init_network_mod_ok [of cf "sm_logger m1" ?s2 s3] n f s m(5) by (simp add: frame_simps bufs_ok_def)
  then have "net_ready (pc_net p')" using p'(2) process_daemon_ready [OF log_info_ready] by auto
  moreover have "pc_stop p' = pc_stop p" "pc_ticks p' = pc_ticks p" by (subst p'(1), simp)+
  ultimately show ?thesis by simp
qed

lemma prog_more_logger:
  fixes s s' :: prog
  assumes "cmem.more s' = cmem.more s"
  shows "rs_default_logger s' = rs_default_logger s" "os_trace s' = os_trace s" "pg_install_dir s' = pg_install_dir s"
  using assms by (cases s; cases s'; simp)+

lemma log_create_more: "log_create w pool lv f = (lg, w', pool') \<Longrightarrow> cmem.more w' = cmem.more w"
  by (auto simp: log_create_def frame_simps dest!: pmalloc_more split: prod.splits if_splits)

section \<open>Properties\<close>

text \<open>
  C14: a successful initialisation of the module net leaves a listening server.  The kernel has
  exactly one registration: the listening socket, for reading, with a connection that is marked
  as listening and whose read handler is \<open>tcp_server_accept\<close>; and the state is one from which
  every round of the event loop ends.
\<close>

theorem init_network_listens:
  assumes "init_network_mod (Some cf) lg s = Inr (MOD_OK, s')" "nt_interest s = []" "nc_conns cf < 2147483648"
    and "bufs_ok s" "\<forall>n. \<exists>m \<ge> n. os_fail s m \<noteq> EINTR"
  shows "net_ready s' \<and> (\<exists>c. nt_interest s' = [(sv_sock_fd (nt_server s'), EPOLLIN, c)] \<and>
    cn_read_handler (nt_conns s' c) = Some H_accept \<and> cn_is_listen (nt_conns s' c) = 1)"
  using init_network_mod_ok [OF assms] .

text \<open>The module net with room for two connections on a kernel that accepts every call.\<close>

definition demo_cf :: xpipe_net_mod_conf_t where
  "demo_cf = \<lparr>nc_port = 8080, nc_conns = 2, nc_nodelay = 0, nc_request_buffer_size = 0, nc_netwk = NULL\<rparr>"

definition demo_boot :: net where
  "demo_boot = demo_net (\<lambda>_. 5) (\<lambda>_. [])"

text \<open>What the initialisation sees of that state.\<close>

definition demo_room :: "net \<Rightarrow> bool" where
  "demo_room s \<longleftrightarrow> mp_chunks (nt_pool s) = [\<lparr>ck_self = 16777272, ck_fail = 0, ck_last = 16777304, ck_end = 16778240\<rparr>] \<and>
     mp_current (nt_pool s) = 0 \<and> mp_max (nt_pool s) = 1024 \<and> nt_interest s = [] \<and> os_answer s = (\<lambda>_. 5) \<and>
     cm_live s = [(16777216, 1024)] \<and> cm_pick s = cm_pick demo_cmem \<and> cm_calls s = 1"

lemma demo_boot_room: "demo_room demo_boot"
  by (simp add: demo_room_def demo_boot_def demo_net_def demo_world_def world.defs cmem.defs demo_eval)

lemma demo_room_init:
  assumes "demo_room s"
  shows "\<exists>s'. init_network_mod (Some demo_cf) None s = Inr (MOD_OK, s')"
proof -
  note room = assms [unfolded demo_room_def]
  show ?thesis
    using room
    apply (simp add: init_network_mod_def start_listening_def Let_def mod_pmalloc_first demo_cf_def net_event_init_def epoll_build_def
        os_epoll_create_def tcp_server_init_def tcp_server_create_socket_def tcp_server_listen_def connection_pool_init_def
        os_call_def log_info_def frame_simps sizeof_defs to_size_t_def long_to_int_def writable_def)
    apply (simp add: tcp_get_connection_def mem_pool_create_def malloc_def demo_cmem_def frame_simps Let_def fresh_block_def
        blk_end_def apart_def addr_top_def log_info_def)
    apply (simp add: add_event_def epoll_add_event_def os_epoll_ctl_def interest_fds_def Let_def frame_simps connection_zero_def
        event_defs)
    done
qed

lemma demo_boot_start: "bufs_ok demo_boot" "\<forall>n. \<exists>m \<ge> n. os_fail demo_boot m \<noteq> EINTR"
  by (auto simp: bufs_ok_def buf_ok_def demo_boot_def demo_net_def demo_world_def world.defs cmem.defs)

theorem init_network_listens_witness:
  "\<exists>s' c. init_network_mod (Some demo_cf) None demo_boot = Inr (MOD_OK, s') \<and> net_ready s' \<and>
     nt_interest s' = [(sv_sock_fd (nt_server s'), EPOLLIN, c)] \<and> cn_read_handler (nt_conns s' c) = Some H_accept"
proof -
  obtain s' where "init_network_mod (Some demo_cf) None demo_boot = Inr (MOD_OK, s')" using demo_room_init [OF demo_boot_room] by blast
  then show ?thesis
    using init_network_listens [of demo_cf None demo_boot s'] demo_boot_start demo_boot_room
    by (auto simp: demo_room_def demo_cf_def)
qed

text \<open>
  \<open>SIGTERM\<close> stops the server.  In a build without \<open>USE_BACKTRACE\<close>, from a state of the
  network as the initialisation leaves it, a \<open>SIGTERM\<close> that arrives in round \<open>k\<close> makes the main
  loop return with \<open>stop\<close> set, at the latest after that round, whatever the kernel and the
  clients do; unless the run has ended before by an invalid \<open>free\<close>, a null handler or a buffer
  overflow.
\<close>

theorem sigterm_stops_working:
  assumes "net_ready (pc_net p)" "pc_stop p = 0" "\<not> ev_backtrace e" "ev_term e k" "pc_ticks p \<le> k"
  shows "\<exists>res. system_modules_working e p = Some res \<and>
    (case res of Inl u \<Rightarrow> u \<noteq> Diverges \<and> u \<noteq> Null_deref
     | Inr p' \<Rightarrow> pc_stop p' = 1 \<and> pc_ticks p' \<le> Suc k \<and> net_ready (pc_net p'))"
  using working_ends [OF assms(3,4,1,2,5)] by (auto simp: ends_def split: sum.splits)

definition demo_env :: env where
  "demo_env = \<lparr>ev_backtrace = False, ev_localtime = (\<lambda>_. \<lparr>tm_sec = 0, tm_min = 0, tm_hour = 0, tm_mday = 1, tm_mon = 0, tm_year = 70\<rparr>),
     ev_clock = (\<lambda>_. (0, 0)), ev_term = (\<lambda>n. n = 2), ev_events = (\<lambda>_. []), ev_peer = (\<lambda>_. ([], 0))\<rparr>"

definition demo_proc :: proc where
  "demo_proc = \<lparr>pc_net = demo_active, pc_mods = [sys_net_module], pc_stop = 0, pc_default_logger = None,
     pc_timer = \<lparr>time_current_msecs = 0, time_current_seconds = 0, log_time = replicate 21 NUL\<rparr>, pc_ticks = 1\<rparr>"

theorem sigterm_stops_working_witness:
  "net_ready (pc_net demo_proc) \<and> sm_process (hd (pc_mods demo_proc)) = Some process_network \<and>
   (\<exists>res. system_modules_working demo_env demo_proc = Some res \<and>
    (case res of Inl u \<Rightarrow> u \<noteq> Diverges \<and> u \<noteq> Null_deref | Inr p' \<Rightarrow> pc_stop p' = 1 \<and> pc_ticks p' \<le> Suc 2 \<and> net_ready (pc_net p')))"
proof -
  have "net_ready (pc_net demo_proc)" "pc_stop demo_proc = 0" "\<not> ev_backtrace demo_env" "ev_term demo_env 2" "pc_ticks demo_proc \<le> 2"
    by (simp_all add: demo_proc_def demo_env_def demo_active_ready)
  moreover have "sm_process (hd (pc_mods demo_proc)) = Some process_network" by (simp add: demo_proc_def sys_net_module_def)
  ultimately show ?thesis using sigterm_stops_working [of demo_proc demo_env 2] by simp
qed

text \<open>
  C10: a server that has come up can be stopped.  When the initialisation of both modules and
  the start as a daemon succeed, starting from the network state that \<open>main\<close> has before, the
  main loop ends after a \<open>SIGTERM\<close> as above: the start-up leaves a state from which no round
  of the loop hangs.
\<close>

theorem started_server_stops:
  assumes "main_init False p = Inr (out, p')" "out \<noteq> Returns XPE_ERROR"
    and "pc_mods p = [m0, m1]" "sm_init m0 = Some init_main" "sm_init m1 = Some init_network"
    and "net_conf_of (sm_conf m1) = Some cf" "nc_conns cf < 2147483648"
    and "nt_interest (pc_net p) = []" "bufs_ok (pc_net p)" "\<forall>n. \<exists>m \<ge> n. os_fail (pc_net p) m \<noteq> EINTR"
    and "pc_stop p = 0" "\<not> ev_backtrace e" "ev_term e k" "pc_ticks p \<le> k"
  shows "\<exists>res. system_modules_working e p' = Some res \<and>
    (case res of Inl u \<Rightarrow> u \<noteq> Diverges \<and> u \<noteq> Null_deref | Inr p2 \<Rightarrow> pc_stop p2 = 1 \<and> pc_ticks p2 \<le> Suc k)"
proof -
  have p': "net_ready (pc_net p')" "pc_stop p' = 0" "pc_ticks p' \<le> k" using main_init_ready [OF assms(1-10)] assms(11,14) by simp_all
  from working_ends [OF assms(12,13) p'] show ?thesis by (auto simp: ends_def split: sum.splits)
qed

definition demo_pid_file :: file_t where
  "demo_pid_file = \<lparr>fl_fd = -1, fl_offset = 0, fl_name = xstring ''xpe.pid''\<rparr>"

text \<open>The two modules, configured, on the kernel that accepts every call.\<close>

definition demo_start :: proc where
  "demo_start = \<lparr>pc_net = demo_boot, pc_mods = mk_mods (Some \<lparr>mc_daemon = 0, mc_pid_file = demo_pid_file, mc_log = string_null\<rparr>) (Some demo_cf) None None,
     pc_stop = 0, pc_default_logger = None,
     pc_timer = \<lparr>time_current_msecs = 0, time_current_seconds = 0, log_time = replicate 21 NUL\<rparr>, pc_ticks = 1\<rparr>"

lemma demo_start_init: "\<exists>p'. main_init False demo_start = Inr (Returns XPE_OK, p')"
proof -
  obtain r s1 where i: "init_main_mod False demo_boot = (r, s1)" by fastforce
  have r: "r = MOD_OK" "demo_room s1"
    using i demo_boot_room
    by (auto simp: init_main_mod_def setup_signals_def Let_def os_call_def frame_simps demo_room_def)
  obtain s2 where "init_network_mod (Some demo_cf) None s1 = Inr (MOD_OK, s2)" using demo_room_init [OF r(2)] by blast
  then show ?thesis
    using i r(1) by (simp add: main_init_def system_modules_init_def demo_start_def mk_mods_def sys_main_module_def sys_net_module_def
        net_conf_of_def main_conf_of_def log_info_def process_daemon_def)
qed

theorem started_server_stops_witness:
  "\<exists>p' res. main_init False demo_start = Inr (Returns XPE_OK, p') \<and> system_modules_working demo_env p' = Some res \<and>
    (case res of Inl u \<Rightarrow> u \<noteq> Diverges \<and> u \<noteq> Null_deref | Inr p2 \<Rightarrow> pc_stop p2 = 1 \<and> pc_ticks p2 \<le> Suc 2)"
proof -
  obtain p' where p': "main_init False demo_start = Inr (Returns XPE_OK, p')" using demo_start_init by blast
  have m: "pc_mods demo_start = [hd (pc_mods demo_start), pc_mods demo_start ! 1]" "sm_init (hd (pc_mods demo_start)) = Some init_main"
    "sm_init (pc_mods demo_start ! 1) = Some init_network" "net_conf_of (sm_conf (pc_mods demo_start ! 1)) = Some demo_cf"
    "nc_conns demo_cf < 2147483648" "nt_interest (pc_net demo_start) = []" "bufs_ok (pc_net demo_start)"
    "\<forall>n. \<exists>m \<ge> n. os_fail (pc_net demo_start) m \<noteq> EINTR" "pc_stop demo_start = 0" "pc_ticks demo_start \<le> 2"
    using demo_boot_start demo_boot_room
    by (simp_all add: demo_start_def mk_mods_def sys_main_module_def sys_net_module_def net_conf_of_def demo_cf_def demo_room_def)
  have e: "\<not> ev_backtrace demo_env" "ev_term demo_env 2" by (simp_all add: demo_env_def)
  from started_server_stops [OF p' _ m(1-9) e m(10)] p' show ?thesis by auto
qed

text \<open>
  C22: becoming a daemon.  A process that is to become a daemon and gets anything but 0 from
  \<open>fork\<close>, so also the -1 of a failed \<open>fork\<close>, exits with code 0 right away.  The child starts a
  session of its own, and it goes on (\<open>XPE_OK\<close>) only after it has opened the pid file and the
  kernel has taken its process id, in decimal, completely; the descriptor is kept.  The pid file
  is not truncated: it then holds exactly the process id if and only if its old content was not
  longer.
\<close>

theorem process_daemon_outcome:
  assumes "process_daemon daemon pid_file lg s = (out, pid_file', s')" "daemon \<noteq> 0"
  shows "case out of
      Exits code \<Rightarrow> code = 0 \<and> (\<exists>pid. pid \<noteq> 0 \<and> os_trace s' = os_trace s @ [(Sys_fork, pid)])
    | Returns r \<Rightarrow> (\<exists>sid tr. os_trace s' = os_trace s @ [(Sys_fork, 0), (Sys_setsid, sid)] @ tr \<and>
        (r = XPE_OK \<longrightarrow> (\<exists>tr0 fd pid. fd \<noteq> -1 \<and> pid_file' = pid_file\<lparr>fl_fd := fd\<rparr> \<and>
           (\<forall>old. file_after (FL_WRONLY OR FL_CREATE) old (fmt_d 0 pid) = fmt_d 0 pid \<longleftrightarrow> length old \<le> length (fmt_d 0 pid)) \<and>
           tr = tr0 @ [(Sys_open (str_data (fl_name pid_file)) (FL_WRONLY OR FL_CREATE) 420, fd), (Sys_getpid, pid),
           (Sys_write fd (fmt_d 0 pid), int (length (fmt_d 0 pid)))])))"
proof -
  obtain pid s1 where f: "os_call s Sys_fork = (pid, s1)" by fastforce
  have t1: "os_trace s1 = os_trace s @ [(Sys_fork, pid)]" using f by (auto simp: os_call_def Let_def frame_simps)
  show ?thesis
  proof (cases "pid = 0")
    case False
    then show ?thesis using assms f t1 by (auto simp: process_daemon_def)
  next
    case True
    obtain sid s2 where d: "os_call s1 Sys_setsid = (sid, s2)" by fastforce
    obtain tr0 where tr0: "os_trace (detach_stdio s2) = os_trace s2 @ tr0" using detach_stdio_trace by blast
    have t2: "os_trace (detach_stdio s2) = os_trace s @ [(Sys_fork, 0), (Sys_setsid, sid)] @ tr0"
      using d t1 True tr0 by (auto simp: os_call_def Let_def frame_simps)
    obtain fd s4 where o: "os_call (detach_stdio s2) (Sys_open (str_data (fl_name pid_file)) (FL_WRONLY OR FL_CREATE) 420) = (fd, s4)" by fastforce
    have t4: "os_trace s4 = os_trace s @ [(Sys_fork, 0), (Sys_setsid, sid)] @ tr0 @ [(Sys_open (str_data (fl_name pid_file)) (FL_WRONLY OR FL_CREATE) 420, fd)]"
      using o t2 by (auto simp: os_call_def Let_def frame_simps)
    obtain self s5 where g: "os_call s4 Sys_getpid = (self, s5)" by fastforce
    have t5: "os_trace s5 = os_trace s4 @ [(Sys_getpid, self)]" using g by (auto simp: os_call_def Let_def frame_simps)
    obtain n s6 where w: "os_write s5 fd (fmt_d 0 self) = (n, s6)" by fastforce
    have t6: "os_trace s6 = os_trace s5 @ [(Sys_write fd (fmt_d 0 self), n)]" using w by (auto simp: os_write_def Let_def frame_simps)
    show ?thesis
      using assms f d o g w True t4 t5 t6 by (auto simp: process_daemon_def Let_def frame_simps file_after_overwrite split: if_splits)
  qed
qed

definition demo_fork :: net where
  "demo_fork = demo_net (\<lambda>i. if i = 0 then 0 else 5) (\<lambda>_. [])"

theorem process_daemon_outcome_witness:
  "fst (process_daemon 1 demo_pid_file None demo_fork) = Returns XPE_OK \<and>
   (\<exists>tr fd pid. fd \<noteq> -1 \<and> os_trace (snd (snd (process_daemon 1 demo_pid_file None demo_fork))) =
     tr @ [(Sys_open ''xpe.pid'' (FL_WRONLY OR FL_CREATE) 420, fd), (Sys_getpid, pid), (Sys_write fd (fmt_d 0 pid), int (length (fmt_d 0 pid)))])"
proof -
  have n: "length (fmt_d 0 5) = 1" by (simp add: fmt_d_def dec_digits.simps)
  have e: "fst (process_daemon 1 demo_pid_file None demo_fork) = Returns XPE_OK" "str_data (fl_name demo_pid_file) = ''xpe.pid''"
    by (simp_all add: process_daemon_def detach_stdio_def Let_def os_call_def os_close_def os_write_def frame_simps n demo_fork_def
        demo_net_def demo_world_def world.defs cmem.defs demo_pid_file_def xstring_def)
  obtain f' s' where d: "process_daemon 1 demo_pid_file None demo_fork = (Returns XPE_OK, f', s')" using e(1) by (metis prod.collapse)
  obtain tr0 fd pid tr where "fd \<noteq> -1" "os_trace s' = tr @ tr0 @ [(Sys_open ''xpe.pid'' (FL_WRONLY OR FL_CREATE) 420, fd), (Sys_getpid, pid),
      (Sys_write fd (fmt_d 0 pid), int (length (fmt_d 0 pid)))]"
    using process_daemon_outcome [OF d] e(2) by force
  then have "os_trace s' = (tr @ tr0) @ [(Sys_open ''xpe.pid'' (FL_WRONLY OR FL_CREATE) 420, fd), (Sys_getpid, pid),
      (Sys_write fd (fmt_d 0 pid), int (length (fmt_d 0 pid)))]" "fd \<noteq> -1" by simp_all
  then show ?thesis using d by auto
qed





text \<open>
  Without a \<open>log\<close> command for the module main, the program runs without a default logger.
  \<open>create_default_logger\<close> opens the default log file, creates a logger for it and reports
  success, but stores it nowhere: the default logger is what it was before.
\<close>

theorem default_logger_lost:
  assumes "create_default_logger s = (XPE_OK, s')" "rs_main_logger s = None"
  shows "rs_default_logger s' = rs_default_logger s \<and>
    (\<exists>fd. fd \<noteq> -1 \<and> (Sys_open (default_logger_full_path s) FL_APPEND 420, fd) \<in> set (os_trace s'))"
proof -
  obtain a s1 where a: "conf_pmalloc s sizeof_file_t = (a, s1)" by fastforce
  obtain fd s2 where o: "os_call s1 (Sys_open (default_logger_full_path s1) FL_APPEND 420) = (fd, s2)" by fastforce
  obtain lg s3 q where l: "log_create s2 (cf_pool s2) LOG_LEVEL_INFO
      \<lparr>fl_fd = fd, fl_offset = mem_long (cm_mem s2) (a + 8), fl_name = xstring (default_logger_full_path s2)\<rparr> = (lg, s3, q)" using prod_cases3 by blast
  have s': "s' = s3\<lparr>cf_pool := q\<rparr>" "fd \<noteq> -1"
    using assms a o l by (auto simp: create_default_logger_def Let_def split: if_splits)
  have f1: "rs_default_logger s1 = rs_default_logger s" "pg_install_dir s1 = pg_install_dir s"
    using a prog_more_logger [OF pmalloc_more] by (auto simp: conf_pmalloc_def split: prod.splits)
  have f2: "rs_default_logger s2 = rs_default_logger s1" "(Sys_open (default_logger_full_path s1) FL_APPEND 420, fd) \<in> set (os_trace s2)"
    using o by (auto simp: os_call_def Let_def frame_simps os_done_def)
  note f3 = prog_more_logger [OF log_create_more [OF l]]
  show ?thesis using s' f1 f2 f3 by (auto simp: default_logger_full_path_def)
qed

definition demo_logs :: prog where
  "demo_logs = (demo_prog [])\<lparr>cm_live := cm_live demo_w, cm_calls := cm_calls demo_w, cf_pool := demo_pool\<rparr>"

theorem default_logger_lost_witness:
  "\<exists>s'. create_default_logger demo_logs = (XPE_OK, s') \<and> rs_default_logger s' = None \<and>
     (\<exists>fd. fd \<noteq> -1 \<and> (Sys_open ''/opt/log/xpipe.log'' FL_APPEND 420, fd) \<in> set (os_trace s'))"
proof -
  have "fst (create_default_logger demo_logs) = XPE_OK"
    by (simp add: demo_logs_def demo_prog_def demo_world_def world.defs cmem.defs create_default_logger_def conf_pmalloc_def
        log_create_def os_call_def Let_def pmalloc_eval demo_eval sizeof_defs sizeof_file_t_def sizeof_logger_t_def os_done_def)
  then obtain s' where s': "create_default_logger demo_logs = (XPE_OK, s')" by (metis prod.collapse)
  have "rs_main_logger demo_logs = None" "rs_default_logger demo_logs = None" "default_logger_full_path demo_logs = ''/opt/log/xpipe.log''"
    by (simp_all add: demo_logs_def demo_prog_def world.defs default_logger_full_path_def)
  with default_logger_lost [OF s'] s' show ?thesis by simp
qed

text \<open>
  C37: the pointers \<open>mod_conf\<close> point to structures of the right type.  After the parser has
  accepted a configuration, the table has its two modules with their own commands and functions,
  and the configuration that a module's functions cast \<open>mod_conf\<close> to is the one its own
  constructor has made, or null.
\<close>

theorem conf_module_types:
  assumes "conf_ready s" "input_ends s n" "conf_file_parser s lg = Inr (CONF_OK, t)"
  shows "map sm_init (pg_mods t) = map sm_init sys_modules \<and> map sm_commands (pg_mods t) = map sm_commands sys_modules \<and>
    (case sm_conf (pg_mods t ! 0) of None \<Rightarrow> True | Some c \<Rightarrow> \<exists>m. c = Main_conf m) \<and>
    (case sm_conf (pg_mods t ! 1) of None \<Rightarrow> True | Some c \<Rightarrow> \<exists>d. c = Net_conf d)"
proof -
  have "prog_ok t" using conf_parser_result [OF assms(1,2), of lg] assms(3) by (auto simp: conf_result_def Let_def)
  then obtain c d l k where "pg_mods t = mk_mods c d l k" by (auto simp: prog_ok_def)
  then show ?thesis by (cases c; cases d) (simp_all add: mk_mods_def sys_modules_def)
qed

theorem conf_module_types_witness:
  "\<exists>t. conf_file_parser (demo_prog (print_conf [LF] demo_comment)) \<lparr>lg_level = LOG_LEVEL_INFO, lg_file = None\<rparr> = Inr (CONF_OK, t) \<and>
     map sm_init (pg_mods t) = [Some init_main, Some init_network]"
proof -
  obtain t where "conf_file_parser (demo_prog (print_conf [LF] demo_comment)) \<lparr>lg_level = LOG_LEVEL_INFO, lg_file = None\<rparr> = Inr (CONF_OK, t)"
    using demo_comment_parse by blast
  with conf_module_types [OF demo_prog_ready this] show ?thesis by (auto simp: sys_modules_def sys_main_module_def sys_net_module_def)
qed

end
