(* ===== verification/WholeProgram.thy ===== *)
theory WholeProgram
  imports Lifecycle
begin

text \<open>
  The function \<open>main\<close> as a whole: reading the configuration, the default logger, preparing and
  initialising the modules, the daemon and the main loop, composed as the code composes them.
\<close>

section \<open>The initialisation ends\<close>

lemma add_event_failed:
  assumes "add_event s c ev h = (EVENT_ERROR, s')"
  shows "nt_conns s' = nt_conns s"
  using assms by (auto simp: add_event_def epoll_add_event_def Let_def os_epoll_ctl_def frame_simps split: if_splits prod.splits)

lemma tcp_get_connection_pool:
  assumes "tcp_get_connection s fd = (c, s')" "c \<noteq> NULL"
  shows "\<exists>pool. cn_pool (nt_conns s' c) = Some pool"
  using assms(1)
proof (cases rule: tcp_get_connection_cases)
  case (some pool s1)
  then show ?thesis by (simp add: frame_simps)
qed (use assms(2) in simp)

lemma start_listening_ends:
  assumes "start_listening lg s = Inl u"
  shows "ends u"
proof -
  obtain c s1 where g: "tcp_get_connection s (sv_sock_fd (nt_server s)) = (c, s1)" by fastforce
  define s2 where "s2 = upd_conn c (\<lambda>k. k\<lparr>cn_is_listen := 1\<rparr>) s1"
  obtain r s3 where a: "add_event s2 c EV_READ_EVENT H_accept = (r, s3)" by fastforce
  define s4 where "s4 = log_error s3 lg 0 ''add the read event of listen to event driver failed.''"
  obtain q s5 where o: "os_close s4 (cn_fd (nt_conns s4 c)) = (q, s5)" by fastforce
  have f: "c \<noteq> NULL" "r = EVENT_ERROR" "tcp_free_connection s5 c = Inl u"
    using assms unfolding start_listening_def Let_def g prod.case s2_def [symmetric] a s4_def [symmetric] o
    by (simp_all add: sbind_Inl_iff split: if_splits)
  obtain pool where "cn_pool (nt_conns s1 c) = Some pool" using tcp_get_connection_pool [OF g f(1)] by blast
  moreover have "nt_conns s5 = nt_conns s2"
    using add_event_failed [of s2 c] a f(2) os_close_frame(2) [of s4 "cn_fd (nt_conns s4 c)"] o
    by (simp add: s4_def frame_simps)
  ultimately have "in_use s5 [] c" using f(1) by (simp add: in_use_def s2_def frame_simps)
  from tcp_free_connection_ends [OF this f(3)] show ?thesis .
qed

lemma tcp_server_init_ends: "tcp_server_init s = Inl u \<Longrightarrow> ends u"
  by (auto simp: tcp_server_init_def connection_pool_init_def Let_def sbind_Inl_iff ends_def split: if_splits prod.splits)

lemma init_network_ends: "init_network_mod (Some cf) lg s = Inl u \<Longrightarrow> ends u"
  by (auto simp: init_network_mod_def Let_def sbind_Inl_iff dest: start_listening_ends tcp_server_init_ends
      split: if_splits prod.splits)

lemma main_init_ends:
  assumes "main_init bt p = Inl u" "pc_mods p = [m0, m1]" "sm_init m0 = Some init_main" "sm_init m1 = Some init_network"
    "net_conf_of (sm_conf m1) = Some cf" "main_conf_of (sm_conf m0) = Some mc"
  shows "ends u"
  using assms init_network_ends
  by (auto simp: main_init_def system_modules_init_def sbind_Inl_iff sbind_Inr_iff split: if_splits prod.splits)

text \<open>Without a block the initialisation follows a null pointer, or fails before.\<close>

lemma main_init_missing:
  assumes "pc_mods p = [m0, m1]" "sm_init m0 = Some init_main" "sm_init m1 = Some init_network"
    "net_conf_of (sm_conf m1) = None \<or> main_conf_of (sm_conf m0) = None"
  shows "case main_init bt p of Inl u \<Rightarrow> u \<noteq> Diverges | Inr (out, p') \<Rightarrow> out = Returns XPE_ERROR"
proof (cases "net_conf_of (sm_conf m1)")
  case None
  have "init_network_mod None lg s = Inl u \<Longrightarrow> u = Null_deref" "init_network_mod None lg s = Inr (r, s') \<Longrightarrow> r = MOD_ERROR" for lg s u r s'
    by (auto simp: init_network_mod_def split: prod.splits if_splits)
  then show ?thesis
    using None assms(1-3)
    by (auto simp: main_init_def system_modules_init_def sbind_Inl_iff sbind_Inr_iff split: sum.splits prod.splits if_splits)
next
  case (Some cf)
  then have "main_conf_of (sm_conf m0) = None" using assms(4) by simp
  then show ?thesis
    using Some assms(1-3) init_network_ends
    by (auto simp: main_init_def system_modules_init_def sbind_Inl_iff sbind_Inr_iff ends_def split: sum.splits prod.splits if_splits)
qed

lemma main_init_exits: "main_init bt p = Inr (Exits c, p') \<Longrightarrow> c = 0"
  by (auto simp: main_init_def process_daemon_def Let_def sbind_Inr_iff split: if_splits prod.splits option.splits)

section \<open>Preparing the modules\<close>

text \<open>What the steps before the initialisation keep of the state.\<close>

definition same_mods :: "prog \<Rightarrow> prog \<Rightarrow> bool" where
  "same_mods s t \<longleftrightarrow> os_fail t = os_fail s \<and> rs_stop t = rs_stop s \<and> map sm_init (pg_mods t) = map sm_init (pg_mods s) \<and>
     map sm_conf (pg_mods t) = map sm_conf (pg_mods s)"

lemma same_mods_refl [simp]: "same_mods s s" by (simp add: same_mods_def)

lemma same_mods_trans [trans]: "same_mods s t \<Longrightarrow> same_mods t u \<Longrightarrow> same_mods s u" by (simp add: same_mods_def)

lemma same_mods_more:
  fixes s t :: prog
  assumes "cmem.more t = cmem.more s"
  shows "same_mods s t" "pg_mods t = pg_mods s"
  using assms by (cases s; cases t; simp add: same_mods_def)+

lemma same_mods_upd:
  assumes "\<And>m. sm_init (f m) = sm_init m" "\<And>m. sm_conf (f m) = sm_conf m"
  shows "same_mods s (upd_mod i f s)"
  using assms by (simp add: same_mods_def upd_mod_def map_update list_update_same_conv)
    (metis list_update_beyond list_update_id map_update not_le nth_map)

lemma same_mods_field [simp]:
  "same_mods s (t\<lparr>cf_pool := q\<rparr>) = same_mods s t" "same_mods s (t\<lparr>rs_default_logger := lg\<rparr>) = same_mods s t"
  by (simp_all add: same_mods_def)

lemma same_mods_log [simp]: "same_mods s (log_error t lg e m) = same_mods s t" "same_mods s (log_info t lg e m) = same_mods s t"
  by (simp_all add: same_mods_def log_error_def log_info_def log_emit_def split: option.splits)

lemma prepare_mods_done:
  "prepare_mods s i n = (r, t) \<Longrightarrow> i + n \<le> length (pg_mods s) \<Longrightarrow> same_mods s t \<and>
     (r \<noteq> MOD_ERROR \<longrightarrow> (\<forall>j. i \<le> j \<and> j < i + n \<longrightarrow> sm_pool (pg_mods t ! j) \<noteq> None) \<and>
       (\<forall>j < i. pg_mods t ! j = pg_mods s ! j))"
proof (induction s i n rule: prepare_mods.induct)
  case (2 s i n)
  let ?s1 = "if sm_logger (pg_mods s ! i) = None then upd_mod i (\<lambda>m. m\<lparr>sm_logger := rs_default_logger s\<rparr>) s else s"
  have m1: "same_mods s ?s1" by (simp add: same_mods_upd)
  show ?case
  proof (cases "mem_pool_create ?s1 (str_data (sm_name (pg_mods ?s1 ! i))) MODULE_POOL_SIZE (sm_logger (pg_mods ?s1 ! i))")
    case (Pair q s2)
    note m2 = same_mods_more [OF mem_pool_create_more [OF Pair]]
    show ?thesis
    proof (cases q)
      case None
      then show ?thesis using 2 Pair m1 m2(1) by (auto simp: Let_def intro: same_mods_trans)
    next
      case (Some pool)
      let ?s3 = "upd_mod i (\<lambda>m. m\<lparr>sm_pool := Some pool\<rparr>) s2"
      have l: "length (pg_mods ?s3) = length (pg_mods s)" using m2(2) by (simp add: upd_mod_def)
      have eq: "prepare_mods ?s3 (Suc i) n = (r, t)" using "2.prems" Pair Some by (simp add: Let_def)
      have "same_mods s2 ?s3" by (rule same_mods_upd) simp_all
      then have "same_mods s ?s3" using m1 m2(1) same_mods_trans by blast
      moreover have "pg_mods ?s3 ! j = pg_mods s ! j" if "j < i" for j using that m2(2) by (simp add: upd_mod_def)
      moreover have "sm_pool (pg_mods ?s3 ! i) \<noteq> None" using "2.prems"(2) m2(2) by (simp add: upd_mod_def)
      moreover note IH = "2.IH" [OF refl Pair [symmetric] Some eq]
      ultimately show ?thesis using "2.prems"(2) l
        by (auto dest: same_mods_trans) (metis Suc_leI le_neq_implies_less lessI)
    qed
  qed
qed auto

lemma same_mods_os_call: "same_mods s (snd (os_call t x)) = same_mods s t"
  by (simp add: same_mods_def os_call_def Let_def frame_simps os_done_def)

lemma conf_pmalloc_same: "conf_pmalloc s n = (p, t) \<Longrightarrow> same_mods s t"
  using same_mods_more(1) [OF pmalloc_more] by (auto simp: conf_pmalloc_def split: prod.splits)

lemma create_default_logger_same:
  assumes "create_default_logger s = (r, t)"
  shows "same_mods s t"
proof -
  obtain a s1 where a: "conf_pmalloc s sizeof_file_t = (a, s1)" by fastforce
  obtain fd s2 where o: "os_call s1 (Sys_open (default_logger_full_path s1) FL_APPEND 420) = (fd, s2)" by fastforce
  obtain lg s3 q where l: "log_create s2 (cf_pool s2) LOG_LEVEL_INFO
      \<lparr>fl_fd = fd, fl_offset = mem_long (cm_mem s2) (a + 8), fl_name = xstring (default_logger_full_path s2)\<rparr> = (lg, s3, q)"
    using prod_cases3 by blast
  have m1: "same_mods s s1" by (rule conf_pmalloc_same [OF a])
  have m2: "same_mods s s2" using m1 o same_mods_os_call by (metis snd_conv)
  have m3: "same_mods s s3" using same_mods_trans [OF m2 same_mods_more(1) [OF log_create_more [OF l]]] .
  show ?thesis
    using assms a o l m1 m2 m3 by (auto simp: create_default_logger_def Let_def split: if_splits)
qed

lemma sys_modules_prepare_done:
  assumes "sys_modules_prepare s = (r, t)"
  shows "same_mods s t" "r \<noteq> MOD_ERROR \<Longrightarrow> j < length (pg_mods s) \<Longrightarrow> sm_pool (pg_mods t ! j) \<noteq> None"
  using prepare_mods_done [OF assms [unfolded sys_modules_prepare_def Let_def]]
  by (auto simp: same_mods_def)

lemma number_modules_ready:
  assumes "live_wf s" "length (pg_install_dir s) \<le> 700" "input_ends s n"
  shows "conf_ready (number_modules s)" "input_ends (number_modules s) n"
  using assms
  by (simp_all add: conf_ready_def number_modules_def input_ends_def live_wf_def sys_modules_def mk_mods_def
      sys_main_module_def sys_net_module_def)

text \<open>The part of \<open>main\<close> up to the prepared modules: it ends, and what it leaves.\<close>

lemma main_prepare_ends:
  assumes "live_wf s" "length (pg_install_dir s) \<le> 700" "input_ends s n" "main_prepare s = Inl u"
  shows "ends u"
  using conf_parser_result [OF number_modules_ready [OF assms(1-3)], of log_stdout_logger] assms(4)
  by (auto simp: main_prepare_def sbind_Inl_iff conf_result_def Let_def split: if_splits prod.splits sum.splits)

lemma main_prepare_done:
  assumes "live_wf s" "length (pg_install_dir s) \<le> 700" "input_ends s n" "main_prepare s = Inr (r, t)" "r \<noteq> XPE_ERROR"
  obtains u c d where "conf_file_parser (number_modules s) log_stdout_logger = Inr (CONF_OK, u)"
    "settings_of u = \<lparr>set_main = c, set_net = map_option (\<lambda>d. d\<lparr>nc_netwk := NULL\<rparr>) d,
       set_main_log = set_main_log (settings_of u), set_net_log = set_net_log (settings_of u)\<rparr>"
    "map sm_init (pg_mods t) = [Some init_main, Some init_network]"
    "map sm_conf (pg_mods t) = [map_option Main_conf c, map_option Net_conf d]"
    "os_fail t = os_fail s" "rs_stop t = 0" "sm_pool (pg_mods t ! 1) \<noteq> None"
proof -
  obtain q u where u: "conf_file_parser (number_modules s) log_stdout_logger = Inr (q, u)" "q \<noteq> CONF_ERROR"
    using assms(4,5) by (auto simp: main_prepare_def sbind_Inr_iff split: if_splits)
  have R: "q = CONF_OK" "prog_ok u" "os_fail u = os_fail s"
    using conf_parser_result [OF number_modules_ready [OF assms(1-3)], of log_stdout_logger] u
    by (auto simp: conf_result_def Let_def ran_def number_modules_def)
  obtain c d l k where m: "pg_mods u = mk_mods c d l k" using R(2) by (auto simp: prog_ok_def)
  let ?s3 = "u\<lparr>rs_stop := 0, rs_log_stdout := Some log_stdout_logger, rs_main_logger := sm_logger (pg_mods u ! 0)\<rparr>"
  obtain q2 s4 where c4: "create_default_logger ?s3 = (q2, s4)" by fastforce
  obtain q3 s6 where p6: "sys_modules_prepare (log_info s4 (rs_default_logger s4) 0
      ''finish building resource, begin to prepare system modules.'') = (q3, s6)" by fastforce
  have t: "t = s6" "q3 \<noteq> MOD_ERROR"
    using assms(4,5) u c4 p6 by (auto simp: main_prepare_def Let_def split: if_splits)
  note P = sys_modules_prepare_done [OF p6]
  have "same_mods s4 s6" by (rule same_mods_trans [OF _ P(1)]) simp
  then have same: "same_mods ?s3 t" using same_mods_trans [OF create_default_logger_same [OF c4]] t(1) by simp
  show ?thesis
  proof (rule that)
    show "conf_file_parser (number_modules s) log_stdout_logger = Inr (CONF_OK, u)" using u R(1) by simp
    show "map sm_init (pg_mods t) = [Some init_main, Some init_network]" "map sm_conf (pg_mods t) = [map_option Main_conf c, map_option Net_conf d]"
      "os_fail t = os_fail s" "rs_stop t = 0"
      using same R(3) m by (simp_all add: same_mods_def mk_mods_def sys_main_module_def sys_net_module_def)
    have "length (pg_mods s4) = 2" using create_default_logger_same [OF c4] m by (auto simp: same_mods_def mk_mods_def dest: map_eq_imp_length_eq)
    then show "sm_pool (pg_mods t ! 1) \<noteq> None" using P(2) [of 1] t by (simp add: log_info_def log_emit_def split: option.splits)
  qed (simp add: settings_of_mods [OF m])
qed

text \<open>The part of \<open>main\<close> from the initialisation on, for a configuration with both blocks.\<close>

lemma main_run_ends:
  assumes "\<not> ev_backtrace e" "ev_term e k" "pc_ticks p \<le> k" "pc_stop p = 0"
    and m: "pc_mods p = [m0, m1]" "sm_init m0 = Some init_main" "sm_init m1 = Some init_network"
      "net_conf_of (sm_conf m1) = Some cf" "main_conf_of (sm_conf m0) = Some mc" "nc_conns cf < 2147483648"
    and s: "nt_interest (pc_net p) = []" "bufs_ok (pc_net p)" "\<forall>n. \<exists>m \<ge> n. os_fail (pc_net p) m \<noteq> EINTR"
  shows "case main_run e p of Inl u \<Rightarrow> ends u | Inr code \<Rightarrow> code = 0 \<or> code = XPE_ERROR"
proof (cases "main_init (ev_backtrace e) p")
  case (Inl u)
  then show ?thesis using main_init_ends [OF Inl m(1-5)] by (simp add: main_run_def)
next
  case (Inr x)
  obtain out p' where x: "x = (out, p')" by (cases x)
  show ?thesis
  proof (cases "out = Returns XPE_ERROR \<or> (\<exists>c. out = Exits c)")
    case True
    then show ?thesis using Inr x main_init_exits by (auto simp: main_run_def)
  next
    case False
    then obtain c where c: "out = Returns c" "c \<noteq> XPE_ERROR" by (cases out) auto
    have "net_ready (pc_net p') \<and> pc_stop p' = pc_stop p \<and> pc_ticks p' = pc_ticks p"
      using main_init_ready [OF _ _ m(1-4,6) s] Inr x c by blast
    then have "\<exists>res. system_modules_working e p' = Some res \<and> (case res of Inl u \<Rightarrow> ends u
        | Inr p2 \<Rightarrow> pc_stop p2 = 1 \<and> pc_ticks p2 \<le> Suc k \<and> net_ready (pc_net p2))"
      using assms(3,4) by (intro working_ends [OF assms(1,2)]) auto
    then obtain res where res: "system_modules_working e p' = Some res"
      "case res of Inl u \<Rightarrow> ends u | Inr p2 \<Rightarrow> pc_stop p2 = 1 \<and> pc_ticks p2 \<le> Suc k \<and> net_ready (pc_net p2)" by blast
    then show ?thesis using Inr x c by (cases res) (simp_all add: main_run_def)
  qed
qed

lemma to_proc_start:
  "nt_interest (pc_net (to_proc e t pool s)) = []" "bufs_ok (pc_net (to_proc e t pool s))"
  "os_fail (pc_net (to_proc e t pool s)) = os_fail s" "pc_mods (to_proc e t pool s) = pg_mods s"
  "pc_stop (to_proc e t pool s) = rs_stop s" "pc_ticks (to_proc e t pool s) = 1"
  by (simp_all add: to_proc_def bufs_ok_def buf_ok_def world.defs)

section \<open>Properties\<close>

text \<open>
  C1: the program ends after a \<open>SIGTERM\<close>, from the first line of \<open>main\<close> on.  The memory
  may run out and the kernel may fail any call, the configuration file may hold any bytes, and
  clients may connect and send whatever they like: as long as the file has an end, \<open>accept\<close> is not
  interrupted for ever and a \<open>SIGTERM\<close> arrives in some round \<open>k\<close> of the main loop, \<open>main\<close> of a
  build without \<open>USE_BACKTRACE\<close> returns.  It returns 0 only after a configuration with the blocks
  of both modules has been accepted, and the error code otherwise; what is left besides are
  the write past a buffer, the invalid \<open>free\<close> and the null handler of the other theorems, and a
  null dereference, this one only for an accepted configuration that lacks a block.  The
  configuration must not ask for \<open>2 ^ 31\<close> connections or more, for which the loop that links the
  connections does not run.
\<close>

theorem main_ends:
  assumes "live_wf s" "length (pg_install_dir s) \<le> 700" "input_ends s n" "\<forall>n. \<exists>m \<ge> n. os_fail s m \<noteq> EINTR"
    and "\<not> ev_backtrace e" "ev_term e k" "1 \<le> k"
  shows "(case main_function e t0 s of
      Inl u \<Rightarrow> u \<noteq> Diverges \<and> (u = Null_deref \<longrightarrow>
        (\<exists>t. conf_file_parser (number_modules s) log_stdout_logger = Inr (CONF_OK, t) \<and>
           (set_main (settings_of t) = None \<or> set_net (settings_of t) = None)))
    | Inr code \<Rightarrow> code = XPE_ERROR \<or> code = 0 \<and>
        (\<exists>t. conf_file_parser (number_modules s) log_stdout_logger = Inr (CONF_OK, t) \<and>
           set_main (settings_of t) \<noteq> None \<and> set_net (settings_of t) \<noteq> None)) \<or>
    (\<exists>t d. conf_file_parser (number_modules s) log_stdout_logger = Inr (CONF_OK, t) \<and>
       set_net (settings_of t) = Some d \<and> 2147483648 \<le> nc_conns d)"
proof (cases "timer_init (ev_localtime e) (ev_clock e 0) t0")
  case (Inl u)
  then show ?thesis using timer_update_ends by (auto simp: main_function_def timer_init_def ends_def)
next
  case t: (Inr t)
  show ?thesis
  proof (cases "main_prepare s")
    case (Inl u)
    then show ?thesis using t main_prepare_ends [OF assms(1-3) Inl] by (auto simp: main_function_def ends_def)
  next
    case (Inr x)
    obtain r s1 where x: "x = (r, s1)" by (cases x)
    show ?thesis
    proof (cases "r = XPE_ERROR")
      case True
      then show ?thesis using t Inr x by (simp add: main_function_def)
    next
      case False
      obtain u c d where u: "conf_file_parser (number_modules s) log_stdout_logger = Inr (CONF_OK, u)"
        "set_main (settings_of u) = c" "set_net (settings_of u) = map_option (\<lambda>d. d\<lparr>nc_netwk := NULL\<rparr>) d"
        "map sm_init (pg_mods s1) = [Some init_main, Some init_network]"
        "map sm_conf (pg_mods s1) = [map_option Main_conf c, map_option Net_conf d]"
        "os_fail s1 = os_fail s" "rs_stop s1 = 0" "sm_pool (pg_mods s1 ! 1) \<noteq> None"
        using main_prepare_done [OF assms(1-3) Inr [unfolded x] False] by (metis settings.select_convs(1,2))
      obtain m0 m1 where m: "pg_mods s1 = [m0, m1]" "sm_init m0 = Some init_main" "sm_init m1 = Some init_network"
        "main_conf_of (sm_conf m0) = c" "net_conf_of (sm_conf m1) = d"
        using u(4,5) by (cases c; cases d; auto simp: main_conf_of_def net_conf_of_def)
      obtain pool where pool: "sm_pool (pg_mods s1 ! 1) = Some pool" using u(8) by blast
      let ?p = "to_proc e t pool s1"
      have M: "main_function e t0 s = main_run e ?p" using t Inr x False pool by (simp add: main_function_def)
      show ?thesis
      proof (cases "c = None \<or> d = None")
        case True
        have "case main_init (ev_backtrace e) ?p of Inl u \<Rightarrow> u \<noteq> Diverges | Inr (out, p') \<Rightarrow> out = Returns XPE_ERROR"
          using main_init_missing [of ?p m0 m1] m True by (auto simp: to_proc_start)
        then show ?thesis using M u(1-3) True by (auto simp: main_run_def split: sum.splits)
      next
        case both: False
        then obtain cf mc where cd: "d = Some cf" "c = Some mc" by auto
        show ?thesis
        proof (cases "nc_conns cf < 2147483648")
          case True
          have "case main_run e ?p of Inl u \<Rightarrow> ends u | Inr code \<Rightarrow> code = 0 \<or> code = XPE_ERROR"
            using main_run_ends [of e k ?p m0 m1 cf mc] assms(4-7) m cd True u(6,7) by (simp add: to_proc_start)
          then show ?thesis using M u(1-3) cd by (auto simp: ends_def split: sum.splits)
        qed (use u(1,3) cd in auto)
      qed
    qed
  qed
qed

text \<open>
  A machine whose configuration file holds only a comment, and a \<open>SIGTERM\<close> in the second round:
  the file is accepted, and the program does not hang and does not report success.
\<close>

theorem main_ends_witness:
  "main_function demo_env \<lparr>time_current_msecs = 0, time_current_seconds = 0, log_time = replicate 21 NUL\<rparr>
     (demo_prog (print_conf [LF] demo_comment)) \<notin> {Inl Diverges, Inr 0}"
proof -
  let ?s = "demo_prog (print_conf [LF] demo_comment)"
  have n: "number_modules ?s = ?s"
    by (simp add: number_modules_def demo_prog_defs sys_modules_def mk_mods_def sys_main_module_def sys_net_module_def)
  obtain t where t: "conf_file_parser (number_modules ?s) log_stdout_logger = Inr (CONF_OK, t)" "settings_of t = no_settings"
    using demo_comment_settings unfolding n log_stdout_logger_def by blast
  have h: "live_wf ?s" "length (pg_install_dir ?s) \<le> 700" "input_ends ?s 2"
    using demo_prog_ready by (simp_all add: conf_ready_def)
  have f: "\<forall>n. \<exists>m \<ge> n. os_fail ?s m \<noteq> EINTR" by (auto simp: demo_prog_defs)
  have e: "\<not> ev_backtrace demo_env" "ev_term demo_env 2" by (simp_all add: demo_env_def)
  show ?thesis
    using main_ends [OF h f e, of "\<lparr>time_current_msecs = 0, time_current_seconds = 0, log_time = replicate 21 NUL\<rparr>"] t
    by (auto simp: no_settings_def split: sum.splits)
qed

end
