(* ===== verification/ServerFaults.thy ===== *)
theory ServerFaults
  imports NetRun
begin

text \<open>
  Two faults of the server that depend on its configuration or on the order of events: a
  receive buffer that does not fit a chunk of the request's pool, and a connection that becomes
  readable and writable at once.
\<close>

section \<open>Pools with large blocks\<close>

lemma add_mem_chunk_large: "add_mem_chunk w p n = (a, w', p') \<Longrightarrow> mp_large p' = mp_large p \<and> mp_max p' = mp_max p"
  by (auto simp: add_mem_chunk_def Let_def split: prod.splits if_splits)

lemma pmalloc_small_large: "pmalloc_small w p n = (a, w', p') \<Longrightarrow> mp_large p' = mp_large p \<and> mp_max p' = mp_max p"
  by (auto simp: pmalloc_small_def Let_def dest: add_mem_chunk_large split: option.splits prod.splits)

lemma reuse_large_nonempty: "reuse_large n p ls = Some ls' \<Longrightarrow> ls' \<noteq> []"
  by (cases ls) (auto split: if_splits)

lemma pmalloc_large:
  assumes "pmalloc w p n = (a, w', p')"
  shows "mp_max p < n \<Longrightarrow> a \<noteq> NULL \<Longrightarrow> mp_large p' \<noteq> []" "mp_large p \<noteq> [] \<Longrightarrow> mp_large p' \<noteq> []"
  using assms
  by (auto simp: pmalloc_def alloc_large_mem_def Let_def dest!: pmalloc_small_large reuse_large_nonempty
      split: if_splits prod.splits option.splits)

lemma pool_wf_live: "cm_live w' = cm_live w \<Longrightarrow> pool_wf w' p = pool_wf w p"
  for w :: "'a cmem_scheme" and w' :: "'b cmem_scheme"
  by (simp add: pool_wf_def chunks_wf_def larges_wf_def large_ok_def live_wf_def list_all_iff)

lemma pool_request:
  assumes "pool_wf w p" "pmalloc w p n = (a, w', p')" "4096 + 32 \<le> mp_total p" "mp_max p = 4096"
  shows "pool_wf w' p' \<and> 4096 + 32 \<le> mp_total p' \<and> mp_max p' = 4096"
  using pmalloc_spec [OF assms(1) _ assms(2)] assms(3,4) by (simp add: pool_step_def request_fits_def sizeof_defs)

section \<open>A large receive buffer\<close>

lemma request_init_large:
  assumes i: "tcp_request_init s c = (Some rq, s')" and n: "4064 < clamp_buf_size (sv_request_buf_size (nt_server s))" and l: "live_wf s"
  shows "pool_wf s' (rq_pool rq) \<and> mp_large (rq_pool rq) \<noteq> [] \<and> cn_request (nt_conns s' c) = Some rq"
proof -
  let ?n = "clamp_buf_size (sv_request_buf_size (nt_server s))"
  obtain po s1 where p0: "mem_pool_create s ''request'' REQUEST_POOL_SIZE (cn_logger (nt_conns s c)) = (po, s1)" by fastforce
  obtain pool where po: "po = Some pool" using i p0 by (cases po) (auto simp: tcp_request_init_def)
  have w1: "pool_wf s1 pool" "4096 + 32 \<le> mp_total pool" "mp_max pool = 4096"
    using create_wf(1) [OF l, of REQUEST_POOL_SIZE "''request''" "cn_logger (nt_conns s c)" pool s1]
      mem_pool_create_Some [of s "''request''" REQUEST_POOL_SIZE "cn_logger (nt_conns s c)" pool s1] p0 po
    by (simp_all add: sizeof_defs)
  obtain ra s2 pool2 where p1: "pmalloc s1 pool sizeof_tcp_request_t = (ra, s2, pool2)" using prod_cases3 by blast
  note w2 = pool_request [OF w1(1) p1 w1(2,3)]
  obtain b s3 pool3 where p2: "pmalloc s2 pool2 (?n + sizeof_buffer_t) = (b, s3, pool3)" using prod_cases3 by blast
  have w3: "pool_wf s3 pool3 \<and> 4096 + 32 \<le> mp_total pool3 \<and> mp_max pool3 = 4096" using pool_request p2 w2 by blast
  define s4 where "s4 = upd_buf b (\<lambda>_. new_buffer b ?n) s3"
  have w4: "pool_wf s4 pool3" using w3 pool_wf_live [of s4 s3] by (simp add: s4_def frame_simps)
  obtain b1 s5 pool5 where p3: "pmalloc s4 pool3 (?n + sizeof_buffer_t) = (b1, s5, pool5)" using prod_cases3 by blast
  have w5: "pool_wf s5 pool5 \<and> 4096 + 32 \<le> mp_total pool5 \<and> mp_max pool5 = 4096" using pool_request p3 w4 w3 by blast
  define s6 where "s6 = upd_buf b1 (\<lambda>_. new_buffer b1 ?n) s5"
  have w6: "pool_wf s6 pool5" using w5 pool_wf_live [of s6 s5] by (simp add: s6_def frame_simps)
  obtain a7 s7 pool7 where p4: "pmalloc s6 pool5 sizeof_protocol_t = (a7, s7, pool7)" using prod_cases3 by blast
  have w7: "pool_wf s7 pool7" using pool_request p4 w6 w5 by blast
  have ok: "b \<noteq> NULL" "rq_pool rq = pool7" "cm_live s' = cm_live s7"
    using i unfolding tcp_request_init_def Let_def p0 prod.case po option.case p1 p2 s4_def [symmetric] p3 s6_def [symmetric]
      protocol_init_def pcalloc_def p4
    by (auto simp: frame_simps memset_def split: if_splits)
  have "mp_large pool3 \<noteq> []" using pmalloc_large(1) [OF p2] w2 n ok(1) by (simp add: sizeof_defs)
  then have "mp_large pool7 \<noteq> []" using pmalloc_large(2) [OF p4] pmalloc_large(2) [OF p3] by blast
  then show ?thesis using w7 ok(2,3) pool_wf_live [of s' s7] tcp_request_init_request [OF i] by simp
qed

section \<open>Reading and writing at once\<close>

text \<open>What the read handler leaves of a connection until the response is sent.\<close>

definition alike :: "addr \<Rightarrow> net \<Rightarrow> net \<Rightarrow> bool" where
  "alike c s s' \<longleftrightarrow> cn_active_events (nt_conns s' c) = cn_active_events (nt_conns s c) \<and>
     cn_events (nt_conns s' c) = cn_events (nt_conns s c)"

text \<open>
  The connection after its request is gone, when it has not been closed and need not wait for
  the rest of the response: the write handler is gone with the request.
\<close>

definition unhandled :: "addr \<Rightarrow> net \<Rightarrow> net \<Rightarrow> bool" where
  "unhandled c s s' \<longleftrightarrow> (cn_request (nt_conns s' c) = None \<longrightarrow> cn_close (nt_conns s' c) = 0 \<longrightarrow> cn_add_events (nt_conns s' c) = 0 \<longrightarrow>
     cn_events (nt_conns s c) AND EV_WRITE_EVENT \<noteq> 0 \<longrightarrow> cn_write_handler (nt_conns s' c) = None) \<and>
     cn_active_events (nt_conns s' c) = cn_active_events (nt_conns s c)"

lemma unhandled_alike: "alike c s s1 \<Longrightarrow> unhandled c s1 s2 \<Longrightarrow> unhandled c s s2"
  by (simp add: alike_def unhandled_def)

lemma unhandled_request: "cn_request (nt_conns s' c) \<noteq> None \<Longrightarrow> alike c s s' \<Longrightarrow> unhandled c s s'"
  by (auto simp: alike_def unhandled_def)

lemma tcp_request_finish_unhandled:
  assumes "bufs_ok s" "tcp_request_finish s c = Inr (r, s')"
  shows "unhandled c s s'"
proof -
  obtain rq where rq: "cn_request (nt_conns s c) = Some rq"
    using assms(2) by (cases "cn_request (nt_conns s c)") (auto simp: tcp_request_finish_def)
  obtain s0 where g: "tcp_respone_generate s rq = Inr s0" using assms(2) rq by (auto simp: tcp_request_finish_def elim!: sbindE)
  have q0: "quiet s s0" "nt_conns s0 = nt_conns s" using tcp_respone_generate_quiet [OF quiet_refl [OF assms(1)] g] by auto
  have b: "buf_ok (nt_bufs s0 (rq_response rq))" using quiet_bufs [OF q0(1)] by (simp add: bufs_ok_def)
  then obtain s1 where s1: "send_loop s0 c (rq_response rq) = Some s1" "sends s0 c (rq_response rq) s1"
    using send_loop_sends [of s0 "rq_response rq" c] by (auto simp: buf_ok_def)
  have k: "nt_conns s1 c = sent_all (nt_conns s c) \<or> nt_conns s1 c = sent_later (nt_conns s c) \<or> nt_conns s1 c = sent_fail (nt_conns s c)"
    using s1(2) q0(2) unfolding sends_def by auto
  obtain r1 where r1: "cn_request (nt_conns s1 c) = Some r1"
    using k rq by (auto simp: sent_all_def sent_later_def sent_fail_def finish_req_def split: if_splits)
  have s': "s' = s1 \<or> (\<exists>s2. mem_pool_destroy s1 (rq_pool r1) = Inr s2 \<and> s' = upd_conn c (\<lambda>k. k\<lparr>cn_request := None\<rparr>) s2)"
    using assms(2) rq g s1(1) r1 q0(2) by (auto simp: tcp_request_finish_def tcp_server_send_def elim!: sbindE split: if_splits)
  have n: "nt_conns s' c = nt_conns s1 c \<or> nt_conns s' c = (nt_conns s1 c)\<lparr>cn_request := None\<rparr>"
    using s' net_more(10) [OF mem_pool_destroy_more] by (auto simp: frame_simps)
  from k show ?thesis
    by (elim disjE; use n in \<open>auto simp: unhandled_def sent_all_def sent_later_def sent_fail_def finish_req_def event_defs\<close>)
qed

lemma alike_step:
  assumes "alike c s s1"
  shows "alike c s (upd_req x f s1)" "alike c s (upd_buf b h s1)" "alike c s (log_error s1 lg e t)" "alike c s (os_done s1 y z)"
    "alike c s (write_bytes s1 a bs)" "alike c s (s1\<lparr>cm_mem := m\<rparr>)" "cmem.more s2 = cmem.more s1 \<Longrightarrow> alike c s s2"
  using assms net_more(10) [of s2 s1] by (auto simp: alike_def frame_simps write_bytes_def)

lemma alike_refl: "alike c s s"
  by (simp add: alike_def)

lemma finish_later_unhandled:
  assumes "quiet s s1" "alike c s s1" "sbind (tcp_request_finish s1 c) (\<lambda>(_, s2). Inr (k, s2)) = Inr (r, s')"
  shows "unhandled c s s'"
  using assms(3) unhandled_alike [OF assms(2) tcp_request_finish_unhandled [OF quiet_bufs [OF assms(1)]]] by (auto elim!: sbindE)

lemma grow_request_unhandled:
  assumes "bufs_ok s" "cn_request (nt_conns s c) = Some rq"
  shows "case grow_request s c rq of Inl s1 \<Rightarrow> quiet s s1 \<and> alike c s s1 | Inr s1 \<Rightarrow> unhandled c s s1"
proof -
  obtain p s1 pool1 where p: "pmalloc s (rq_pool rq) (BUFFER_MIN_SIZE + sizeof_buffer_t) = (p, s1, pool1)" using prod_cases3 by blast
  note m = pmalloc_more [OF p]
  have q1: "quiet s s1" and a1: "alike c s s1" and c1: "cn_request (nt_conns s1 c) = Some rq"
    using quiet_more [OF quiet_refl [OF assms(1)] m] alike_step(7) [OF alike_refl m] assms(2) net_more(10) [OF m] by simp_all
  show ?thesis
    unfolding grow_request_def p using q1 a1 c1
    by (auto simp: Let_def frame_simps intro!: quiet_step alike_step unhandled_request)
qed

lemma tcp_request_process_unhandled:
  assumes "bufs_ok s" "tcp_request_process s c ret = Inr (r, s')"
  shows "unhandled c s s'"
proof -
  obtain rq where rq: "cn_request (nt_conns s c) = Some rq"
    using assms(2) by (cases "cn_request (nt_conns s c)") (auto simp: tcp_request_process_def)
  note q = quiet_refl [OF assms(1)] and al = alike_refl [of c s]
  show ?thesis
  proof (cases "ret = PROTOCOL_OK")
    case True
    then show ?thesis
      using assms(2) rq grow_request_unhandled [OF assms(1) rq] finish_later_unhandled [of s _ c] unhandled_request [OF _ al]
      by (auto simp: tcp_request_process_def Let_def split: if_splits sum.splits)
  next
    case False
    define s1 where "s1 = (if ret = PROTOCOL_DONE then upd_req c (\<lambda>r. r\<lparr>rq_done := 1\<rparr>) s
      else if ret \<noteq> -1 then log_error (upd_req c (\<lambda>r. r\<lparr>rq_error := ret\<rparr>) s) (rq_logger rq) 0
             (''Request is error: '' @ str_data (protocol_err_info ! nat ret))
      else log_error (upd_req c (\<lambda>r. r\<lparr>rq_error := ret\<rparr>) s) (rq_logger rq) 0 ''Process request failed.'')"
    have "quiet s s1" "alike c s s1" using q al by (simp_all add: s1_def quiet_step alike_step)
    moreover have "sbind (tcp_request_finish s1 c) (\<lambda>(_, s2). Inr (TCP_SRV_OK, s2)) = Inr (r, s')"
      using assms(2) rq False unfolding tcp_request_process_def Let_def s1_def by simp
    ultimately show ?thesis by (rule finish_later_unhandled)
  qed
qed

lemma tcp_server_recv_unhandled:
  assumes "bufs_ok s" "cn_request (nt_conns s c) = Some rq" "tcp_server_recv s c = Inr (r, s')"
  shows "unhandled c s s'"
proof -
  let ?buf = "nt_bufs s (rq_last_buffer rq)"
  let ?n = "to_size_t (int (bf_end ?buf) - int (bf_last ?buf))"
  have b: "buf_ok ?buf" using assms(1) by (simp add: bufs_ok_def)
  then have room: "?n = bf_end ?buf - bf_last ?buf" by (simp add: buf_ok_def to_size_t_nonneg nat_diff_distrib)
  obtain res s2 where rd: "os_read s (cn_fd (nt_conns s c)) ?n = (res, s2)" by fastforce
  have s2: "\<exists>n k. s2 = os_done s (Sys_read (cn_fd (nt_conns s c)) n) k" and len: "\<And>bs. res = Some bs \<Longrightarrow> length bs \<le> ?n"
    using rd by (auto simp: os_read_def Let_def split: if_splits)
  have q2: "quiet s s2" "alike c s s2" using s2 quiet_step(1) [OF quiet_refl [OF assms(1)]] alike_step(4) [OF alike_refl] by auto
  have f2: "nt_conns s2 = nt_conns s" "nt_bufs s2 = nt_bufs s" using s2 by (auto simp: frame_simps)
  have data: "unhandled c s s'" if R: "res = Some bs" "recv_data s2 c rq bs = Inr (r, s')" for bs
  proof -
    let ?b = "rq_last_buffer rq"
    obtain ret pro m where p: "protocol_parse ?b (cm_mem (write_bytes s2 (bf_last (nt_bufs s2 ?b)) bs)) (rq_protocol rq)
        (bf_last (nt_bufs s2 ?b)) (bf_last (nt_bufs s2 ?b) + length bs) = (ret, pro, m)" using prod_cases3 by blast
    define s3 where "s3 = upd_buf ?b (\<lambda>k. k\<lparr>bf_last := bf_last k + length bs\<rparr>)
      (upd_req c (\<lambda>r. r\<lparr>rq_protocol := pro\<rparr>) ((write_bytes s2 (bf_last (nt_bufs s2 ?b)) bs)\<lparr>cm_mem := m\<rparr>))"
    have "quiet s s3"
      unfolding s3_def using len [OF R(1)] room b
      by (intro quiet_step(9)) (auto intro!: quiet_step q2(1) simp: frame_simps write_bytes_def buf_ok_def f2)
    moreover have "alike c s s3" using q2(2) by (simp add: s3_def alike_step)
    moreover obtain k where "tcp_request_process s3 c ret = Inr (k, s')"
      using R(2) unfolding recv_data_def Let_def p prod.case s3_def [symmetric] by (auto elim!: sbindE)
    ultimately show ?thesis using unhandled_alike tcp_request_process_unhandled quiet_bufs by blast
  qed
  show ?thesis
    using assms(2,3) rd data f2 q2(2)
    by (auto simp: tcp_server_recv_def Let_def kill_conn_def frame_simps alike_def split: option.splits if_splits
        intro!: unhandled_request)
qed

section \<open>Properties\<close>

text \<open>
  C38: a configured receive buffer of more than 4064 bytes breaks every request.  With its
  header such a buffer is above the limit of the pool for small blocks, and the pool gets a
  large block; when the request is taken down, \<open>mem_pool_destroy\<close> passes the address of a
  header inside the pool to \<open>free\<close>.  So closing the connection of a client that has sent
  anything ends in an invalid \<open>free\<close>.
\<close>

theorem large_buffer_invalid_free:
  assumes "tcp_request_init s c = (Some rq, s')" "4064 < clamp_buf_size (sv_request_buf_size (nt_server s))" "live_wf s"
  shows "\<exists>a. a \<notin> fst ` set (cm_live s') \<and> mem_pool_destroy s' (rq_pool rq) = Inl (Invalid_free a) \<and>
    tcp_free_connection s' c = Inl (Invalid_free a)"
proof -
  note h = request_init_large [OF assms]
  obtain x xs where x: "mp_large (rq_pool rq) = x # xs" using h by (cases "mp_large (rq_pool rq)") auto
  then have d: "mem_pool_destroy s' (rq_pool rq) = Inl (Invalid_free (lg_self x))" using large_header_free h by blast
  have "chunks_wf s' (rq_pool rq)" "larges_wf s' (rq_pool rq)" using h by (simp_all add: pool_wf_def)
  moreover from calculation have "lg_self x \<in> pool_used (rq_pool rq)"
    using larges_wfD(2) [of s' "rq_pool rq" x] x by (auto simp: sizeof_defs)
  ultimately have "lg_self x \<notin> fst ` set (cm_live s')" using used_no_base by blast
  with d h show ?thesis by (auto simp: tcp_free_connection_def Let_def)
qed

text \<open>A server configured with \<open>request_buffer_size 8192\<close>.\<close>

definition demo_big :: net where
  "demo_big = (let s = demo_net (\<lambda>_. 4) (\<lambda>_. []) in s\<lparr>nt_server := (nt_server s)\<lparr>sv_request_buf_size := 8192\<rparr>\<rparr>)"

lemma demo_big_sel: "cm_live demo_big = [(16777216, 1024)]" "cm_pick demo_big = cm_pick demo_cmem" "cm_calls demo_big = 1"
  "sv_request_buf_size (nt_server demo_big) = 8192" "cn_logger (nt_conns demo_big 4096) = None"
  by (simp_all add: demo_big_def Let_def demo_net_def demo_world_def world.defs cmem.defs demo_eval connection_zero_def)

lemma demo_big_init: "\<exists>rq s'. tcp_request_init demo_big 4096 = (Some rq, s')"
  by (simp add: tcp_request_init_def Let_def mem_pool_create_def malloc_def demo_big_sel demo_cmem_def fresh_block_def blk_end_def
      addr_top_def apart_def clamp_buf_size_def pmalloc_eval sizeof_defs to_size_t_def frame_simps protocol_init_def pcalloc_def)

theorem large_buffer_invalid_free_witness:
  "\<exists>rq s' a. tcp_request_init demo_big 4096 = (Some rq, s') \<and> tcp_free_connection s' 4096 = Inl (Invalid_free a) \<and>
     a \<notin> fst ` set (cm_live s')"
proof -
  obtain rq s' where i: "tcp_request_init demo_big 4096 = (Some rq, s')" using demo_big_init by blast
  have "live_wf demo_big" by (simp add: live_wf_def demo_big_sel blk_end_def addr_top_def)
  then show ?thesis using large_buffer_invalid_free [OF i] i by (auto simp: demo_big_sel clamp_buf_size_def)
qed

text \<open>
  C39: a connection that is readable and writable at once can make the server call a null
  pointer.  A response that could not be sent at once has left the connection registered for
  writing.  When the kernel then reports both events, the read handler runs first; if the bytes
  it reads end the request and the kernel takes the whole response, the handler forgets the
  write handler together with the request, and the event loop calls it nevertheless.
\<close>

theorem read_write_null_call:
  assumes "bufs_ok s" "cn_request (nt_conns s c) \<noteq> None" "cn_read_handler (nt_conns s c) = Some H_recv"
    and "cn_events (nt_conns s c) AND EV_WRITE_EVENT \<noteq> 0" "cn_active_events (nt_conns s c) = EV_READ_EVENT OR EV_WRITE_EVENT"
    and "tcp_server_recv s c = Inr (r, s1)" "cn_request (nt_conns s1 c) = None" "cn_close (nt_conns s1 c) = 0"
      "cn_add_events (nt_conns s1 c) = 0"
  shows "run_handlers s c = Inl Null_call"
proof -
  obtain rq where "cn_request (nt_conns s c) = Some rq" using assms(2) by blast
  from tcp_server_recv_unhandled [OF assms(1) this assms(6)] have
    h: "cn_write_handler (nt_conns s1 c) = None" "cn_active_events (nt_conns s1 c) = EV_READ_EVENT OR EV_WRITE_EVENT"
    using assms(4,5,7-9) by (auto simp: unhandled_def)
  have "(EV_READ_EVENT OR EV_WRITE_EVENT) AND EV_READ_EVENT \<noteq> 0" "(EV_READ_EVENT OR EV_WRITE_EVENT) AND EV_WRITE_EVENT \<noteq> 0"
    by (simp_all add: event_defs)
  then show ?thesis using assms(3,5,6) h by (simp add: run_handlers_def call_handler_def)
qed

text \<open>A connection that still waits to write when the next request arrives as a whole.\<close>

definition demo_both :: net where
  "demo_both = (demo_net (\<lambda>_. 4) (\<lambda>_. put_request [] ''k=v1'' ''hello''))
     \<lparr>nt_conns := (\<lambda>_. connection_zero\<lparr>cn_fd := 7, cn_events := EV_READ_EVENT OR EV_WRITE_EVENT,
        cn_active_events := EV_READ_EVENT OR EV_WRITE_EVENT, cn_read_handler := Some H_recv, cn_write_handler := Some H_send\<rparr>)\<rparr>"

theorem read_write_null_call_witness:
  "\<exists>s. cn_request (nt_conns s 4096) \<noteq> None \<and> cn_write_handler (nt_conns s 4096) = Some H_send \<and> bufs_ok s \<and>
     run_handlers s 4096 = Inl Null_call"
proof -
  have d: "sv_request_buf_size (nt_server demo_both) = 0" "os_answer demo_both = (\<lambda>_. 4)" "os_calls demo_both = 0"
    "os_input demo_both = (\<lambda>_. put_request [] ''k=v1'' ''hello'')" "bufs_ok demo_both"
    by (simp_all add: demo_both_def demo_net_def demo_world_def world.defs cmem.defs bufs_ok_def buf_ok_def)
  have c: "cn_events (nt_conns demo_both 4096) = EV_READ_EVENT OR EV_WRITE_EVENT" "cn_logger (nt_conns demo_both 4096) = None"
    "cn_active_events (nt_conns demo_both 4096) = EV_READ_EVENT OR EV_WRITE_EVENT" "cn_close (nt_conns demo_both 4096) = 0"
    "cn_add_events (nt_conns demo_both 4096) = 0" "cn_read_handler (nt_conns demo_both 4096) = Some H_recv"
    "cn_write_handler (nt_conns demo_both 4096) = Some H_send"
    by (simp_all add: demo_both_def connection_zero_def)
  obtain pool s1 where p: "mem_pool_create demo_both ''request'' REQUEST_POOL_SIZE None = (Some pool, s1)"
    by (simp add: demo_both_def demo_net_def demo_world_def world.defs cmem.defs demo_eval apart_def)
  have n: "clamp_buf_size (sv_request_buf_size (nt_server demo_both)) = 1024" by (simp add: d clamp_buf_size_def)
  obtain rq s2 where i: "tcp_request_init demo_both 4096 = (Some rq, s2)" "request_ready s2 4096 (cm_live demo_both) 1024 rq"
    "rq_protocol rq = protocol_zero" "bf_last (nt_bufs s2 (rq_last_buffer rq)) = bf_buffer (nt_bufs s2 (rq_last_buffer rq))"
    and f: "os_answer s2 = os_answer demo_both" "os_input s2 = os_input demo_both" "os_calls s2 = os_calls demo_both"
      "nt_conns s2 4096 = (nt_conns demo_both 4096)\<lparr>cn_request := Some rq\<rparr>"
    using tcp_request_init_ready [OF n [symmetric], of 4096 pool s1] p c(2) by auto
  have b: "bufs_ok s2" using quiet_bufs [OF tcp_request_init_quiet [OF d(5) i(1)]] .
  have l: "length (put_request [] ''k=v1'' ''hello'') \<le> 1024" "put_request [] ''k=v1'' ''hello'' \<noteq> []"
    by (simp_all add: demo_request CRLF_def)
  have g: "gives s2 (put_request [] ''k=v1'' ''hello'')" by (simp add: gives_def f d)
  obtain s3 where s3: "tcp_server_recv s2 4096 = Inr (TCP_SRV_OK, s3)" "cn_request (nt_conns s3 4096) = None"
    "cn_close (nt_conns s3 4096) = 0" "cn_add_events (nt_conns s3 4096) = 0"
    using recv_done [OF receiving_start [OF i(2-4)] g l(2), of "[]" "''k=v1''" "''hello''"] l(1) demo_put_pre(2) f d c by auto
  have e: "(EV_READ_EVENT OR EV_WRITE_EVENT) AND EV_WRITE_EVENT \<noteq> 0" by (simp add: event_defs)
  have "run_handlers s2 4096 = Inl Null_call"
    by (rule read_write_null_call [OF b _ _ _ _ s3]) (simp_all add: f(4) c e event_defs)
  then show ?thesis using b f(4) c(7) by (intro exI [of _ s2]) simp
qed

end
