(* ===== verification/LateResponse.thy ===== *)
theory LateResponse
  imports NetRun
begin

text \<open>
  A response that the kernel does not take at once and that is completed by the write event: the
  request it belongs to is never taken down, and the next request on the connection is parsed
  with what is left of it.
\<close>

section \<open>The parser inside the data\<close>

text \<open>The remaining bytes of the data, and bytes beyond them.\<close>

lemma run_rest_data:
  "px_state x = sw_data \<Longrightarrow> length ps = px_len x \<Longrightarrow> run (parse_step lb) x ps = Inr (x\<lparr>px_len := 0\<rparr>)"
proof (induction ps arbitrary: x)
  case (Cons p ps)
  have "run (parse_step lb) (x\<lparr>px_len := size_dec (px_len x)\<rparr>) ps = Inr (x\<lparr>px_len := 0\<rparr>)"
    using Cons.IH [of "x\<lparr>px_len := size_dec (px_len x)\<rparr>"] Cons.prems by (simp add: size_dec_def)
  moreover have "parse_step lb x p = Inr (x\<lparr>px_len := size_dec (px_len x)\<rparr>)"
    using Cons.prems by (auto simp: parse_step_def parse_data_def Let_def)
  ultimately show ?case by simp
qed simp

lemma run_past_data:
  "px_state x = sw_data \<Longrightarrow> px_len x < length ps \<Longrightarrow>
   \<exists>x'. run (parse_step lb) x ps = Inl (err_needless_data, x') \<and> px_pro x' = px_pro x"
proof (induction ps arbitrary: x)
  case (Cons p ps)
  show ?case
  proof (cases "px_len x = 0")
    case True
    then show ?thesis using Cons.prems(1) by (simp add: parse_step_def parse_data_def Let_def)
  next
    case False
    then show ?thesis
      using Cons.prems Cons.IH [of "x\<lparr>px_len := size_dec (px_len x)\<rparr>"]
      by (simp add: parse_step_def parse_data_def Let_def size_dec_def)
  qed
qed simp

text \<open>What the parser has saved when the bytes so far end inside the data of a \<open>PUT\<close> request.\<close>

definition in_data :: "protocol_t \<Rightarrow> nat \<Rightarrow> bool" where
  "in_data pro k \<longleftrightarrow> pr_type pro = PUT_T \<and> pr_state pro = sw_data \<and> pr_tmp_data_len pro = k"

lemma parse_rest:
  assumes "in_data pro k"
  shows "protocol_parse lb m pro a (a + k) = (PROTOCOL_DONE, pro\<lparr>pr_data_end := a + k\<rparr>, m)"
  using assms run_rest_data [of "\<lparr>px_pro = pro, px_state = sw_data, px_len = k, px_mem = m\<rparr>" "[a..<a + k]" lb]
  by (simp add: protocol_parse_run in_data_def parse_end_def Let_def)

lemma parse_past:
  assumes "in_data pro k" "k < n"
  shows "\<exists>m'. protocol_parse lb m pro a (a + n) = (err_needless_data, pro, m')"
proof -
  obtain x' where "run (parse_step lb) \<lparr>px_pro = pro, px_state = sw_data, px_len = k, px_mem = m\<rparr> [a..<a + n] = Inl (err_needless_data, x')"
    "px_pro x' = pro"
    using run_past_data [of "\<lparr>px_pro = pro, px_state = sw_data, px_len = k, px_mem = m\<rparr>" "[a..<a + n]" lb] assms(2) by auto
  then show ?thesis using assms(1) by (simp add: protocol_parse_run in_data_def)
qed

lemma parse_cut:
  assumes put: "list_all is_blank pre" "list_all is_header_char hs" "length da < 2147483648"
    and x: "put_request pre hs da = xs @ bs" "bs \<noteq> []" "length bs < length da"
    and m: "holds m a xs" "a + length xs \<le> addr_top"
    and p: "protocol_parse lb m protocol_zero a (a + length xs) = (PROTOCOL_OK, pro, m')"
  shows "in_data pro (length bs)"
proof -
  define h where "h = pre @ ''PUT'' @ CRLF @ hs @ CRLF @ dec_digits (length da) @ CRLF"
  define k where "k = length da - length bs"
  have "h @ da = xs @ bs" using x(1) by (simp add: h_def put_request_def)
  moreover from this have "length xs = length h + k" using x(3) by (auto simp: k_def dest: arg_cong [of _ _ length])
  ultimately have xs: "xs = h @ take k da" by (metis append_eq_conv_conj take_append add_diff_cancel_left' take_all_iff le_add1)
  have k: "take k da \<noteq> []" "k + length bs = length da" using x(2,3) by (auto simp: k_def)
  have "run spec_step (V_start []) xs = Inr (V_data pre ''PUT'' hs (dec_digits (length da)) (take k da))"
    using reach_data [OF put_request_ok [OF put(1,2)], of "take k da" "length da"] k put(3) by (simp add: xs h_def put_len_digits)
  then have "protocol_parse lb m protocol_zero a (a + length xs) =
      parse_end (a + length xs) (view_ctx lb m a (V_data pre ''PUT'' hs (dec_digits (length da)) (take k da)))"
    using fresh_parse [OF m, of lb] by simp
  then show ?thesis
    using p k x(2) put(3) by (auto simp: parse_end_def Let_def put_len_digits in_data_def pro_defs type_of_def split: if_splits)
qed

section \<open>The response\<close>

text \<open>The response buffer has been sent so far and has room for another response.\<close>

definition can_respond :: "net \<Rightarrow> addr \<Rightarrow> bool" where
  "can_respond s b \<longleftrightarrow> bf_buffer (nt_bufs s b) = bf_last (nt_bufs s b) \<and> bf_last (nt_bufs s b) + 8 \<le> bf_end (nt_bufs s b) \<and>
     bf_end (nt_bufs s b) < size_mod"

lemma generate_pending:
  assumes t: "pr_type (rq_protocol rq) = PUT_T" "txt = (if rq_error rq \<noteq> 0 then ''error'' @ CRLF else ''ok'' @ CRLF)"
    and b: "can_respond s (rq_response rq)"
  obtains s3 where "tcp_respone_generate s rq = Inr s3" "pending s3 (rq_response rq) = txt"
    "nt_bufs s3 = (nt_bufs s)(rq_response rq := (nt_bufs s (rq_response rq))\<lparr>bf_last := bf_last (nt_bufs s (rq_response rq)) + length txt\<rparr>)"
    "nt_conns s3 = nt_conns s" "cm_live s3 = cm_live s" "os_trace s3 = os_trace s" "os_calls s3 = os_calls s"
    "os_answer s3 = os_answer s" "os_fail s3 = os_fail s" "os_input s3 = os_input s"
proof -
  let ?b = "rq_response rq" let ?l = "bf_last (nt_bufs s (rq_response rq))"
  define s3 where "s3 = upd_buf ?b (\<lambda>k. k\<lparr>bf_last := ?l + length txt\<rparr>) (write_bytes s ?l (txt @ [NUL]))"
  have len: "length txt \<le> 7" by (simp add: t(2) CRLF_def)
  have g: "tcp_respone_generate s rq = put_text s ?b txt" using t by (simp add: tcp_respone_generate_def)
  also have "\<dots> = Inr s3" using b len by (simp add: s3_def put_text_def can_respond_def Let_def)
  finally have g: "tcp_respone_generate s rq = Inr s3" .
  have "holds (cm_mem (write_bytes s ?l (txt @ [NUL]))) ?l txt"
    using holds_write [of s ?l "txt @ [NUL]"] unfolding holds_append by blast
  then have "pending s3 ?b = txt" using b by (simp add: pending_def s3_def frame_simps can_respond_def holds_def)
  with g show ?thesis by (rule that) (simp_all add: s3_def frame_simps write_bytes_def)
qed

lemma send_loop_whole:
  assumes b: "bf_buffer (nt_bufs s b) \<le> bf_last (nt_bufs s b)" "bf_last (nt_bufs s b) < size_mod"
    and a: "int (length (pending s b)) \<le> os_answer s (os_calls s)"
  obtains s' where "send_loop s c b = Some s'" "cm_live s' = cm_live s"
    "os_trace s' = os_trace s @ [(Sys_write (cn_fd (nt_conns s c)) (pending s b), int (length (pending s b)))]"
    "nt_conns s' = (nt_conns s)(c := sent_all (nt_conns s c))"
    "nt_bufs s' = (nt_bufs s)(b := (nt_bufs s b)\<lparr>bf_buffer := bf_last (nt_bufs s b)\<rparr>)"
proof -
  let ?n = "int (length (pending s b))"
  have o: "os_send s (cn_fd (nt_conns s c)) (pending s b) = (?n, os_done s (Sys_write (cn_fd (nt_conns s c)) (pending s b)) ?n)"
    using a by (simp add: os_send_def Let_def)
  have l: "bf_buffer (nt_bufs s b) + length (pending s b) = bf_last (nt_bufs s b)" using b(1) by (simp add: pending_def)
  have "bf_last (nt_bufs s b) < bf_buffer (nt_bufs s b) + size_mod" using b(2) by simp
  from send_loop_unfold [OF b(1) this o] l that show ?thesis
    by (simp add: frame_simps sent_all_def finish_req_def Let_def)
qed

text \<open>The request of the connection, with nothing else than its own block in its pool.\<close>

definition request_held :: "net \<Rightarrow> addr \<Rightarrow> block list \<Rightarrow> tcp_request_t \<Rightarrow> bool" where
  "request_held s c L rq \<longleftrightarrow> cn_request (nt_conns s c) = Some rq \<and> mp_large (rq_pool rq) = [] \<and> tl (mp_chunks (rq_pool rq)) = [] \<and>
     cm_live s = (mp_self (rq_pool rq), REQUEST_POOL_SIZE) # L \<and> mp_self (rq_pool rq) \<noteq> NULL \<and> mp_self (rq_pool rq) \<notin> fst ` set L"

lemma held_destroy:
  assumes "request_held s c L rq" "cm_live s' = cm_live s"
  shows "\<exists>s2. mem_pool_destroy s' (rq_pool rq) = Inr s2 \<and> cm_live s2 = L"
proof -
  let ?P = "mp_self (rq_pool rq)"
  have h: "mp_large (rq_pool rq) = []" "tl (mp_chunks (rq_pool rq)) = []" "?P \<noteq> NULL"
    "cm_live s' = (?P, REQUEST_POOL_SIZE) # L" "?P \<notin> fst ` set L"
    using assms by (auto simp: request_held_def)
  have "filter (\<lambda>x. fst x \<noteq> ?P) L = L" using h(5) by (force simp: filter_id_conv)
  then show ?thesis using h by (simp add: mem_pool_destroy_def c_free_def frame_simps)
qed

text \<open>A response that the kernel does not take now.\<close>

lemma finish_refused:
  assumes rq: "cn_request (nt_conns s c) = Some rq" "pr_type (rq_protocol rq) = PUT_T" "rq_error rq = 0" "rq_finish rq = 0"
    and b: "can_respond s (rq_response rq)" and w: "os_answer s (os_calls s) < 0" "os_fail s (os_calls s) = EAGAIN"
  obtains s' where "tcp_request_finish s c = Inr (TCP_SRV_OK, s')" "pending s' (rq_response rq) = ''ok'' @ CRLF"
    "nt_bufs s' = (nt_bufs s)(rq_response rq := (nt_bufs s (rq_response rq))\<lparr>bf_last := bf_last (nt_bufs s (rq_response rq)) + 4\<rparr>)"
    "nt_conns s' = (nt_conns s)(c := sent_later (nt_conns s c))" "cm_live s' = cm_live s"
proof -
  let ?b = "rq_response rq" let ?t = "''ok'' @ CRLF"
  have t: "?t = (if rq_error rq \<noteq> 0 then ''error'' @ CRLF else ''ok'' @ CRLF)" using rq(3) by simp
  obtain s3 where s3: "tcp_respone_generate s rq = Inr s3" "pending s3 ?b = ?t"
    "nt_bufs s3 = (nt_bufs s)(?b := (nt_bufs s ?b)\<lparr>bf_last := bf_last (nt_bufs s ?b) + length ?t\<rparr>)"
    "nt_conns s3 = nt_conns s" "cm_live s3 = cm_live s" "os_calls s3 = os_calls s" "os_answer s3 = os_answer s" "os_fail s3 = os_fail s"
    using generate_pending [OF rq(2) t b] by metis
  define s4 where "s4 = os_done s3 (Sys_write (cn_fd (nt_conns s3 c)) (pending s3 ?b)) (-1)"
  have o: "os_send s3 (cn_fd (nt_conns s3 c)) (pending s3 ?b) = (-1, s4)" using w(1) s3(6,7) by (simp add: os_send_def s4_def Let_def)
  have l: "bf_buffer (nt_bufs s3 ?b) \<le> bf_last (nt_bufs s3 ?b)" "bf_last (nt_bufs s3 ?b) < bf_buffer (nt_bufs s3 ?b) + size_mod"
    using b by (simp_all add: s3(3) can_respond_def CRLF_def)
  have e: "os_errno s4 = EAGAIN" using w(2) s3(6,8) by (simp add: s4_def os_done_def)
  let ?s' = "upd_conn c (\<lambda>k. k\<lparr>cn_add_events := EV_WRITE_EVENT\<rparr>) s4"
  have "send_loop s3 c ?b = Some ?s'" using send_loop_unfold [OF l o] e by simp
  then have "tcp_server_send s3 c = Inr (TCP_SRV_OK, ?s')" using rq(1) s3(4) by (simp add: tcp_server_send_def)
  moreover have k: "nt_conns ?s' = (nt_conns s)(c := sent_later (nt_conns s c))" by (simp add: s4_def frame_simps s3(4) sent_later_def)
  ultimately have "tcp_request_finish s c = Inr (TCP_SRV_OK, ?s')"
    using rq(1,4) s3(1) by (simp add: tcp_request_finish_def sent_later_def)
  moreover have "pending ?s' ?b = ?t" using s3(2) by (simp add: pending_def s4_def frame_simps)
  moreover have "length ?t = 4" by (simp add: CRLF_def)
  then have "nt_bufs ?s' = (nt_bufs s)(?b := (nt_bufs s ?b)\<lparr>bf_last := bf_last (nt_bufs s ?b) + 4\<rparr>)" "cm_live ?s' = cm_live s"
    using s3(3,5) by (simp_all only: s4_def frame_simps)
  ultimately show ?thesis using that k by blast
qed

text \<open>A rejected request that the kernel takes the answer to.\<close>

lemma finish_rejected:
  assumes h: "request_held s c L rq" and t: "pr_type (rq_protocol rq) = PUT_T" "rq_error rq \<noteq> 0"
    and b: "can_respond s (rq_response rq)" and w: "7 \<le> os_answer s (os_calls s)"
  obtains s' where "tcp_request_finish s c = Inr (TCP_SRV_OK, s')" "cn_request (nt_conns s' c) = None" "cm_live s' = L"
    "os_trace s' = os_trace s @ [(Sys_write (cn_fd (nt_conns s c)) (''error'' @ CRLF), 7)]"
proof -
  let ?b = "rq_response rq" let ?t = "''error'' @ CRLF"
  have rq: "cn_request (nt_conns s c) = Some rq" using h by (simp add: request_held_def)
  have t': "?t = (if rq_error rq \<noteq> 0 then ''error'' @ CRLF else ''ok'' @ CRLF)" using t(2) by simp
  obtain s3 where s3: "tcp_respone_generate s rq = Inr s3" "pending s3 ?b = ?t"
    "nt_bufs s3 = (nt_bufs s)(?b := (nt_bufs s ?b)\<lparr>bf_last := bf_last (nt_bufs s ?b) + length ?t\<rparr>)"
    "nt_conns s3 = nt_conns s" "cm_live s3 = cm_live s" "os_trace s3 = os_trace s" "os_calls s3 = os_calls s" "os_answer s3 = os_answer s"
    using generate_pending [OF t(1) t' b] by metis
  have l: "bf_buffer (nt_bufs s3 ?b) \<le> bf_last (nt_bufs s3 ?b)" "bf_last (nt_bufs s3 ?b) < size_mod"
    "int (length (pending s3 ?b)) \<le> os_answer s3 (os_calls s3)"
    using b w by (simp_all add: s3 can_respond_def CRLF_def)
  obtain s4 where s4: "send_loop s3 c ?b = Some s4" "cm_live s4 = cm_live s"
    "os_trace s4 = os_trace s @ [(Sys_write (cn_fd (nt_conns s c)) ?t, 7)]" "nt_conns s4 = (nt_conns s)(c := sent_all (nt_conns s c))"
    using send_loop_whole [OF l, of c] unfolding s3(2,4,5,6) by (auto simp: CRLF_def)
  have rq4: "cn_request (nt_conns s4 c) = Some (rq\<lparr>rq_finish := 1\<rparr>)" using rq by (simp add: s4(4) sent_all_def finish_req_def)
  obtain s5 where s5: "mem_pool_destroy s4 (rq_pool rq) = Inr s5" "cm_live s5 = L" using held_destroy [OF h s4(2)] by blast
  have "tcp_server_send s3 c = Inr (TCP_SRV_OK, s4)" using rq s3(4) s4(1) by (simp add: tcp_server_send_def)
  then have "tcp_request_finish s c = Inr (TCP_SRV_OK, upd_conn c (\<lambda>k. k\<lparr>cn_request := None\<rparr>) s5)"
    using rq rq4 s5(1) s3(1) by (simp add: tcp_request_finish_def)
  then show ?thesis
    using that s5(2) s4(3) net_more(6) [OF mem_pool_destroy_more [OF s5(1)]] by (simp add: frame_simps)
qed

section \<open>The handlers\<close>

text \<open>The read handler gets the bytes \<open>bs\<close>, which fit the receive buffer.\<close>

lemma recv_bytes:
  assumes "cn_request (nt_conns s c) = Some rq" "gives s bs" "bs \<noteq> []"
    and b: "bf_last (nt_bufs s (rq_last_buffer rq)) + length bs \<le> bf_end (nt_bufs s (rq_last_buffer rq))"
      "bf_end (nt_bufs s (rq_last_buffer rq)) < size_mod"
  shows "\<exists>k. tcp_server_recv s c = recv_data (os_done s (Sys_read (cn_fd (nt_conns s c)) k) (int (length bs))) c rq bs"
proof -
  let ?buf = "nt_bufs s (rq_last_buffer rq)"
  have n: "to_size_t (int (bf_end ?buf) - int (bf_last ?buf)) = bf_end ?buf - bf_last ?buf"
    using b by (simp add: to_size_t_nonneg nat_diff_distrib)
  have "take (bf_end ?buf - bf_last ?buf) bs = bs" using b(1) by simp
  then have "os_read s (cn_fd (nt_conns s c)) (bf_end ?buf - bf_last ?buf) =
      (Some bs, os_done s (Sys_read (cn_fd (nt_conns s c)) (bf_end ?buf - bf_last ?buf)) (int (length bs)))"
    using assms(2) by (simp add: os_read_def gives_def Let_def)
  then show ?thesis using assms(1,3) n by (auto simp: tcp_server_recv_def Let_def)
qed

lemma recv_data_parse:
  assumes "protocol_parse (rq_last_buffer rq) (cm_mem (write_bytes s (bf_last (nt_bufs s (rq_last_buffer rq))) bs)) (rq_protocol rq)
     (bf_last (nt_bufs s (rq_last_buffer rq))) (bf_last (nt_bufs s (rq_last_buffer rq)) + length bs) = (ret, pro, m)"
  shows "recv_data s c rq bs = sbind (tcp_request_process (parsed s c rq bs pro m) c ret) (\<lambda>(_, s4). Inr (TCP_SRV_OK, s4))"
  unfolding recv_data_def Let_def assms prod.case parsed_def by (simp add: write_bytes_def)

text \<open>What the last piece of a request leaves when the kernel does not take the response.\<close>

lemma recv_late:
  assumes rq: "cn_request (nt_conns s c) = Some rq" "in_data (rq_protocol rq) (length bs)" "rq_error rq = 0" "rq_finish rq = 0"
    and g: "gives s bs" "bs \<noteq> []"
    and b: "bf_last (nt_bufs s (rq_last_buffer rq)) + length bs \<le> bf_end (nt_bufs s (rq_last_buffer rq))"
      "bf_end (nt_bufs s (rq_last_buffer rq)) < size_mod" "can_respond s (rq_response rq)" "rq_response rq \<noteq> rq_last_buffer rq"
    and w: "os_answer s (Suc (os_calls s)) < 0" "os_fail s (Suc (os_calls s)) = EAGAIN"
  obtains s1 rq1 where "tcp_server_recv s c = Inr (TCP_SRV_OK, s1)" "cn_request (nt_conns s1 c) = Some rq1"
    "rq1 = rq\<lparr>rq_protocol := rq_protocol rq1, rq_done := 1\<rparr>" "in_data (rq_protocol rq1) (length bs)"
    "cn_add_events (nt_conns s1 c) = EV_WRITE_EVENT" "cn_fd (nt_conns s1 c) = cn_fd (nt_conns s c)" "cm_live s1 = cm_live s"
    "pending s1 (rq_response rq) = ''ok'' @ CRLF"
    "nt_bufs s1 = (nt_bufs s)(rq_last_buffer rq := (nt_bufs s (rq_last_buffer rq))\<lparr>bf_last := bf_last (nt_bufs s (rq_last_buffer rq)) + length bs\<rparr>,
       rq_response rq := (nt_bufs s (rq_response rq))\<lparr>bf_last := bf_last (nt_bufs s (rq_response rq)) + 4\<rparr>)"
proof -
  obtain j where j: "tcp_server_recv s c = recv_data (os_done s (Sys_read (cn_fd (nt_conns s c)) j) (int (length bs))) c rq bs"
    using recv_bytes [OF rq(1) g b(1,2)] by blast
  define s0 where "s0 = os_done s (Sys_read (cn_fd (nt_conns s c)) j) (int (length bs))"
  let ?l = "bf_last (nt_bufs s (rq_last_buffer rq))"
  define pro where "pro = (rq_protocol rq)\<lparr>pr_data_end := ?l + length bs\<rparr>"
  have f0: "nt_bufs s0 = nt_bufs s" "nt_conns s0 = nt_conns s" "cm_live s0 = cm_live s" "os_calls s0 = Suc (os_calls s)"
    "os_answer s0 = os_answer s" "os_fail s0 = os_fail s" by (simp_all add: s0_def frame_simps)
  let ?m = "cm_mem (write_bytes s0 ?l bs)"
  have d: "recv_data s0 c rq bs = sbind (tcp_request_process (parsed s0 c rq bs pro ?m) c PROTOCOL_DONE) (\<lambda>(_, s4). Inr (TCP_SRV_OK, s4))"
    using recv_data_parse [of rq s0 bs] parse_rest [OF rq(2)] unfolding f0 pro_def by blast
  define s2 rq1 where "s2 = upd_req c (\<lambda>r. r\<lparr>rq_done := 1\<rparr>) (parsed s0 c rq bs pro ?m)" and "rq1 = rq\<lparr>rq_protocol := pro, rq_done := 1\<rparr>"
  have r2: "cn_request (nt_conns s2 c) = Some rq1" using rq(1) by (simp add: s2_def rq1_def parsed_def frame_simps f0)
  have b2: "nt_bufs s2 = (nt_bufs s)(rq_last_buffer rq := (nt_bufs s (rq_last_buffer rq))\<lparr>bf_last := ?l + length bs\<rparr>)"
    by (simp add: s2_def parsed_def frame_simps f0)
  have p: "in_data pro (length bs)" using rq(2) by (simp add: in_data_def pro_def)
  have q: "pr_type (rq_protocol rq1) = PUT_T" "rq_error rq1 = 0" "rq_finish rq1 = 0" "rq_response rq1 = rq_response rq"
    using p rq(3,4) by (simp_all add: rq1_def in_data_def)
  have c2: "can_respond s2 (rq_response rq1)" using b(3,4) by (simp add: can_respond_def b2 q(4))
  have w2: "os_answer s2 (os_calls s2) < 0" "os_fail s2 (os_calls s2) = EAGAIN"
    using w by (simp_all add: s2_def parsed_def frame_simps f0)
  obtain s1 where s1: "tcp_request_finish s2 c = Inr (TCP_SRV_OK, s1)" "pending s1 (rq_response rq) = ''ok'' @ CRLF"
    "nt_bufs s1 = (nt_bufs s2)(rq_response rq := (nt_bufs s2 (rq_response rq))\<lparr>bf_last := bf_last (nt_bufs s2 (rq_response rq)) + 4\<rparr>)"
    "nt_conns s1 = (nt_conns s2)(c := sent_later (nt_conns s2 c))" "cm_live s1 = cm_live s2"
    using finish_refused [OF r2 q(1-3) c2 w2] unfolding q(4) by metis
  have "tcp_request_process (parsed s0 c rq bs pro ?m) c PROTOCOL_DONE = Inr (TCP_SRV_OK, s1)"
    using s1(1) rq(1) by (simp add: tcp_request_process_def parsed_def frame_simps f0 flip: s2_def [unfolded parsed_def])
  then have "tcp_server_recv s c = Inr (TCP_SRV_OK, s1)" using j d by (simp add: s0_def)
  moreover have "cm_live s2 = cm_live s" "cn_fd (nt_conns s2 c) = cn_fd (nt_conns s c)" by (simp_all add: s2_def parsed_def frame_simps f0)
  ultimately show ?thesis
    using that [of s1 rq1] r2 s1(2-5) b2 b(4) p by (simp add: sent_later_def rq1_def)
qed

text \<open>The next piece is longer than what the parser waits for.\<close>

lemma recv_needless:
  assumes h: "request_held s c L rq" and rq: "in_data (rq_protocol rq) k"
    and g: "gives s bs" "k < length bs"
    and b: "bf_last (nt_bufs s (rq_last_buffer rq)) + length bs \<le> bf_end (nt_bufs s (rq_last_buffer rq))"
      "bf_end (nt_bufs s (rq_last_buffer rq)) < size_mod" "can_respond s (rq_response rq)" "rq_response rq \<noteq> rq_last_buffer rq"
    and w: "7 \<le> os_answer s (Suc (os_calls s))"
  shows "\<exists>s' j. tcp_server_recv s c = Inr (TCP_SRV_OK, s') \<and> cn_request (nt_conns s' c) = None \<and> cm_live s' = L \<and>
    os_trace s' = os_trace s @ [(Sys_read (cn_fd (nt_conns s c)) j, int (length bs)), (Sys_write (cn_fd (nt_conns s c)) (''error'' @ CRLF), 7)]"
proof -
  have r: "cn_request (nt_conns s c) = Some rq" "bs \<noteq> []" using h g(2) by (auto simp: request_held_def)
  obtain j where j: "tcp_server_recv s c = recv_data (os_done s (Sys_read (cn_fd (nt_conns s c)) j) (int (length bs))) c rq bs"
    using recv_bytes [OF r(1) g(1) r(2) b(1,2)] by blast
  define s0 where "s0 = os_done s (Sys_read (cn_fd (nt_conns s c)) j) (int (length bs))"
  have f0: "nt_bufs s0 = nt_bufs s" "nt_conns s0 = nt_conns s" "cm_live s0 = cm_live s" "os_calls s0 = Suc (os_calls s)"
    "os_answer s0 = os_answer s" "os_trace s0 = os_trace s @ [(Sys_read (cn_fd (nt_conns s c)) j, int (length bs))]"
    by (simp_all add: s0_def frame_simps)
  obtain m where d: "recv_data s0 c rq bs =
      sbind (tcp_request_process (parsed s0 c rq bs (rq_protocol rq) m) c err_needless_data) (\<lambda>(_, s4). Inr (TCP_SRV_OK, s4))"
    using recv_data_parse [of rq s0 bs] parse_past [OF rq g(2)] by metis
  let ?p = "parsed s0 c rq bs (rq_protocol rq) m" and ?t = "''Request is error: '' @ str_data (protocol_err_info ! nat err_needless_data)"
  define s2 rq1 where "s2 = log_error (upd_req c (\<lambda>r. r\<lparr>rq_error := err_needless_data\<rparr>) ?p) (rq_logger rq) 0 ?t"
    and "rq1 = rq\<lparr>rq_error := err_needless_data\<rparr>"
  have f2: "nt_conns s2 c = (nt_conns s c)\<lparr>cn_request := Some rq1\<rparr>" "cm_live s2 = cm_live s" "os_trace s2 = os_trace s0"
    "os_calls s2 = Suc (os_calls s)" "os_answer s2 = os_answer s"
    using r(1) by (simp_all add: s2_def rq1_def parsed_def frame_simps f0)
  have b2: "nt_bufs s2 = (nt_bufs s)(rq_last_buffer rq := (nt_bufs s (rq_last_buffer rq))\<lparr>bf_last := bf_last (nt_bufs s (rq_last_buffer rq)) + length bs\<rparr>)"
    by (simp add: s2_def parsed_def frame_simps f0)
  have h2: "request_held s2 c L rq1" using h by (simp add: request_held_def f2 rq1_def)
  have q: "pr_type (rq_protocol rq1) = PUT_T" "rq_error rq1 \<noteq> 0" "can_respond s2 (rq_response rq1)" "7 \<le> os_answer s2 (os_calls s2)"
    using rq b(3,4) w by (simp_all add: rq1_def in_data_def can_respond_def b2 f2)
  obtain s' where s': "tcp_request_finish s2 c = Inr (TCP_SRV_OK, s')" "cn_request (nt_conns s' c) = None" "cm_live s' = L"
    "os_trace s' = os_trace s2 @ [(Sys_write (cn_fd (nt_conns s2 c)) (''error'' @ CRLF), 7)]"
    using finish_rejected [OF h2 q] by blast
  have "cn_request (nt_conns ?p c) = Some rq" using r(1) by (simp add: parsed_def frame_simps f0)
  then have "tcp_request_process ?p c err_needless_data = Inr (TCP_SRV_OK, s')"
    using s'(1) by (simp add: tcp_request_process_def Let_def s2_def)
  then have "tcp_server_recv s c = Inr (TCP_SRV_OK, s')" using j d by (simp add: s0_def)
  then show ?thesis using s'(2-4) f2(1,3) f0(6) by (intro exI [of _ s'] exI [of _ j]) simp
qed

section \<open>From the last piece to the next request\<close>

text \<open>Between two calls of handlers, nothing has touched the request of the connection or the memory.\<close>

definition untouched :: "addr \<Rightarrow> net \<Rightarrow> net \<Rightarrow> bool" where
  "untouched c s t \<longleftrightarrow> cm_mem t = cm_mem s \<and> cm_live t = cm_live s \<and> nt_bufs t = nt_bufs s \<and>
     cn_request (nt_conns t c) = cn_request (nt_conns s c) \<and> cn_fd (nt_conns t c) = cn_fd (nt_conns s c)"

text \<open>
  A request that is complete but still there: its parser waits for \<open>k\<close> more bytes of data, and
  its receive buffer has room for \<open>room\<close> bytes.
\<close>

definition stale :: "net \<Rightarrow> addr \<Rightarrow> block list \<Rightarrow> nat \<Rightarrow> nat \<Rightarrow> tcp_request_t \<Rightarrow> bool" where
  "stale s c L k room rq \<longleftrightarrow> request_held s c L rq \<and> in_data (rq_protocol rq) k \<and> rq_response rq \<noteq> rq_last_buffer rq \<and>
     bf_last (nt_bufs s (rq_last_buffer rq)) + room \<le> bf_end (nt_bufs s (rq_last_buffer rq)) \<and>
     bf_end (nt_bufs s (rq_last_buffer rq)) < size_mod"

text \<open>Its response is still to be sent.\<close>

definition unsent :: "net \<Rightarrow> tcp_request_t \<Rightarrow> bool" where
  "unsent s rq \<longleftrightarrow> (let buf = nt_bufs s (rq_response rq)
     in pending s (rq_response rq) = ''ok'' @ CRLF \<and> bf_buffer buf \<le> bf_last buf \<and> bf_last buf + 8 \<le> bf_end buf \<and> bf_end buf < size_mod)"

lemma untouched_stale:
  assumes "untouched c s t"
  shows "stale t c L k room rq = stale s c L k room rq" "unsent t rq = unsent s rq" "can_respond t b = can_respond s b"
  using assms by (simp_all add: untouched_def stale_def unsent_def can_respond_def request_held_def pending_def Let_def)

lemma recv_last_piece:
  assumes put: "list_all is_blank pre" "list_all is_header_char hs" "length da < 2147483648"
    and x: "put_request pre hs da = xs @ bs" "bs \<noteq> []" "length bs < length da"
    and R: "receiving s c L n xs" "1024 \<le> n" "length (put_request pre hs da) \<le> n"
    and g: "gives s bs" "os_answer s (Suc (os_calls s)) < 0" "os_fail s (Suc (os_calls s)) = EAGAIN"
  obtains s1 rq where "tcp_server_recv s c = Inr (TCP_SRV_OK, s1)" "cn_add_events (nt_conns s1 c) = EV_WRITE_EVENT"
    "stale s1 c L (length bs) (n - length (put_request pre hs da)) rq" "unsent s1 rq" "cm_live s1 = cm_live s"
    "cn_fd (nt_conns s1 c) = cn_fd (nt_conns s c)"
proof -
  obtain rq m where h: "request_ready s c L n rq"
    "bf_last (nt_bufs s (rq_last_buffer rq)) = bf_buffer (nt_bufs s (rq_last_buffer rq)) + length xs"
    "holds m (bf_buffer (nt_bufs s (rq_last_buffer rq))) xs"
    "protocol_parse (rq_last_buffer rq) m protocol_zero (bf_buffer (nt_bufs s (rq_last_buffer rq)))
       (bf_buffer (nt_bufs s (rq_last_buffer rq)) + length xs) = (PROTOCOL_OK, rq_protocol rq, cm_mem s)"
    using R(1) unfolding receiving_def Let_def by blast
  let ?b = "rq_last_buffer rq" and ?r = "rq_response rq"
  have H: "request_held s c L rq" and rq: "cn_request (nt_conns s c) = Some rq" "rq_error rq = 0" "rq_finish rq = 0" "?r \<noteq> ?b"
    and e: "bf_end (nt_bufs s ?b) = bf_buffer (nt_bufs s ?b) + n" "bf_end (nt_bufs s ?b) < size_mod" "can_respond s ?r"
      "bf_end (nt_bufs s ?r) = bf_buffer (nt_bufs s ?r) + n" "bf_last (nt_bufs s ?r) = bf_buffer (nt_bufs s ?r)"
    using h(1) R(2) by (auto simp: request_ready_def request_held_def can_respond_def addr_top_def)
  have l: "length xs + length bs = length (put_request pre hs da)" by (simp add: x(1))
  have "in_data (rq_protocol rq) (length bs)"
    by (rule parse_cut [OF put x h(3) _ h(4)]) (use h(1) R(3) l in \<open>simp add: request_ready_def\<close>)
  moreover have b: "bf_last (nt_bufs s ?b) + length bs \<le> bf_end (nt_bufs s ?b)" using h(2) e(1) R(3) l by simp
  ultimately obtain s1 rq1 where s1: "tcp_server_recv s c = Inr (TCP_SRV_OK, s1)" "cn_request (nt_conns s1 c) = Some rq1"
    "rq1 = rq\<lparr>rq_protocol := rq_protocol rq1, rq_done := 1\<rparr>" "in_data (rq_protocol rq1) (length bs)"
    "cn_add_events (nt_conns s1 c) = EV_WRITE_EVENT" "cn_fd (nt_conns s1 c) = cn_fd (nt_conns s c)" "cm_live s1 = cm_live s"
    "pending s1 ?r = ''ok'' @ CRLF"
    "nt_bufs s1 = (nt_bufs s)(?b := (nt_bufs s ?b)\<lparr>bf_last := bf_last (nt_bufs s ?b) + length bs\<rparr>,
       ?r := (nt_bufs s ?r)\<lparr>bf_last := bf_last (nt_bufs s ?r) + 4\<rparr>)"
    using recv_late [OF rq(1) _ rq(2,3) g(1) x(2) _ e(2,3) rq(4) g(2,3)] by metis
  have q1: "rq_response rq1 = ?r" "rq_last_buffer rq1 = ?b" "rq_pool rq1 = rq_pool rq" by (subst s1(3), simp)+
  have "stale s1 c L (length bs) (n - length (put_request pre hs da)) rq1"
    using H s1(2,4,7) rq(4) e(1,2) h(2) l R(3) by (simp add: stale_def request_held_def q1 s1(9))
  moreover have "unsent s1 rq1" using e(3-5) R(2) s1(8) by (simp add: unsent_def q1 s1(9) can_respond_def Let_def)
  ultimately show ?thesis using that s1 by blast
qed

text \<open>The write handler sends the response and leaves the request.\<close>

lemma send_late:
  assumes h: "stale t c L k room rq" "unsent t rq" and w: "4 \<le> os_answer t (os_calls t)"
  obtains s2 rq2 where "call_handler (Some H_send) t c = Inr (TCP_SRV_OK, s2)"
    "os_trace s2 = os_trace t @ [(Sys_write (cn_fd (nt_conns t c)) (''ok'' @ CRLF), 4)]"
    "stale s2 c L k room rq2" "can_respond s2 (rq_response rq2)" "cm_live s2 = cm_live t" "cn_fd (nt_conns s2 c) = cn_fd (nt_conns t c)"
proof -
  let ?r = "rq_response rq"
  have p: "pending t ?r = ''ok'' @ CRLF" and q: "cn_request (nt_conns t c) = Some rq" "?r \<noteq> rq_last_buffer rq"
    using h by (simp_all add: unsent_def stale_def request_held_def Let_def)
  have "bf_buffer (nt_bufs t ?r) \<le> bf_last (nt_bufs t ?r)" "bf_last (nt_bufs t ?r) < size_mod"
    "int (length (pending t ?r)) \<le> os_answer t (os_calls t)"
    using h(2) w p by (simp_all add: unsent_def CRLF_def Let_def)
  then obtain s2 where s2: "send_loop t c ?r = Some s2" "cm_live s2 = cm_live t"
    "os_trace s2 = os_trace t @ [(Sys_write (cn_fd (nt_conns t c)) (pending t ?r), int (length (pending t ?r)))]"
    "nt_conns s2 = (nt_conns t)(c := sent_all (nt_conns t c))"
    "nt_bufs s2 = (nt_bufs t)(?r := (nt_bufs t ?r)\<lparr>bf_buffer := bf_last (nt_bufs t ?r)\<rparr>)"
    using send_loop_whole [of t ?r c] by metis
  let ?q = "rq\<lparr>rq_finish := 1\<rparr>"
  have "call_handler (Some H_send) t c = Inr (TCP_SRV_OK, s2)" using q(1) s2(1) by (simp add: call_handler_def tcp_server_send_def)
  moreover have "stale s2 c L k room ?q" using h(1) q s2(2,4,5) by (simp add: stale_def request_held_def sent_all_def finish_req_def)
  moreover have "can_respond s2 (rq_response ?q)" using h(2) s2(5) by (simp add: can_respond_def unsent_def Let_def)
  ultimately show ?thesis
    using that [of s2 ?q] s2(2-4) p by (simp add: sent_all_def finish_req_def CRLF_def)
qed

lemma stale_room: "stale s c L k room rq \<Longrightarrow> n \<le> room \<Longrightarrow>
    bf_last (nt_bufs s (rq_last_buffer rq)) + n \<le> bf_end (nt_bufs s (rq_last_buffer rq))"
  by (simp add: stale_def)

section \<open>Properties\<close>

text \<open>
  C17: a late response spoils the next request.  A \<open>PUT\<close> request arrives in pieces, with a cut
  inside its data, and the kernel does not take the response when the last piece has been read:
  the handler asks for the write event.  The write handler then sends the whole response, but the
  request stays with the connection and its memory stays allocated: only \<open>tcp_request_finish\<close>
  takes a request down, and it has returned before.  So the next request is read into the
  buffers of the old one and parsed from the state saved inside the old data.  When it arrives
  in a piece longer than the last piece of the old request, the client is answered \<open>error\<close>,
  whatever it has sent.
\<close>

theorem late_response_spoils_next:
  assumes put: "list_all is_blank pre" "list_all is_header_char hs" "length da < 2147483648"
    and x: "put_request pre hs da = xs @ bs" "bs \<noteq> []" "length bs < length da"
    and R: "receiving s c L n xs" "1024 \<le> n" "length (put_request pre hs da) \<le> n"
    and g: "gives s bs" "os_answer s (Suc (os_calls s)) < 0" "os_fail s (Suc (os_calls s)) = EAGAIN"
  shows "\<exists>s1. tcp_server_recv s c = Inr (TCP_SRV_OK, s1) \<and> cn_add_events (nt_conns s1 c) = EV_WRITE_EVENT \<and>
    (\<forall>t. untouched c s1 t \<longrightarrow> 4 \<le> os_answer t (os_calls t) \<longrightarrow>
      (\<exists>s2. call_handler (Some H_send) t c = Inr (TCP_SRV_OK, s2) \<and>
        os_trace s2 = os_trace t @ [(Sys_write (cn_fd (nt_conns s c)) (''ok'' @ CRLF), 4)] \<and>
        cn_request (nt_conns s2 c) \<noteq> None \<and> cm_live s2 = cm_live s \<and>
        (\<forall>u ys. untouched c s2 u \<longrightarrow> gives u ys \<longrightarrow> length bs < length ys \<longrightarrow> length (put_request pre hs da @ ys) \<le> n \<longrightarrow>
          7 \<le> os_answer u (Suc (os_calls u)) \<longrightarrow>
          (\<exists>s3 j. call_handler (Some H_recv) u c = Inr (TCP_SRV_OK, s3) \<and>
            os_trace s3 = os_trace u @ [(Sys_read (cn_fd (nt_conns s c)) j, int (length ys)),
              (Sys_write (cn_fd (nt_conns s c)) (''error'' @ CRLF), 7)]))))"
proof -
  obtain s1 rq where s1: "tcp_server_recv s c = Inr (TCP_SRV_OK, s1)" "cn_add_events (nt_conns s1 c) = EV_WRITE_EVENT"
    "stale s1 c L (length bs) (n - length (put_request pre hs da)) rq" "unsent s1 rq" "cm_live s1 = cm_live s"
    "cn_fd (nt_conns s1 c) = cn_fd (nt_conns s c)"
    using recv_last_piece [OF assms] by metis
  have "\<exists>s2. call_handler (Some H_send) t c = Inr (TCP_SRV_OK, s2) \<and>
      os_trace s2 = os_trace t @ [(Sys_write (cn_fd (nt_conns s c)) (''ok'' @ CRLF), 4)] \<and>
      cn_request (nt_conns s2 c) \<noteq> None \<and> cm_live s2 = cm_live s \<and>
      (\<forall>u ys. untouched c s2 u \<longrightarrow> gives u ys \<longrightarrow> length bs < length ys \<longrightarrow> length (put_request pre hs da @ ys) \<le> n \<longrightarrow>
        7 \<le> os_answer u (Suc (os_calls u)) \<longrightarrow>
        (\<exists>s3 j. call_handler (Some H_recv) u c = Inr (TCP_SRV_OK, s3) \<and>
          os_trace s3 = os_trace u @ [(Sys_read (cn_fd (nt_conns s c)) j, int (length ys)),
            (Sys_write (cn_fd (nt_conns s c)) (''error'' @ CRLF), 7)]))"
    if T: "untouched c s1 t" "4 \<le> os_answer t (os_calls t)" for t
  proof -
    have f: "cn_fd (nt_conns t c) = cn_fd (nt_conns s c)" "cm_live t = cm_live s" using T(1) s1(5,6) by (simp_all add: untouched_def)
    obtain s2 rq2 where s2: "call_handler (Some H_send) t c = Inr (TCP_SRV_OK, s2)"
      "os_trace s2 = os_trace t @ [(Sys_write (cn_fd (nt_conns s c)) (''ok'' @ CRLF), 4)]"
      "stale s2 c L (length bs) (n - length (put_request pre hs da)) rq2" "can_respond s2 (rq_response rq2)"
      "cm_live s2 = cm_live s" "cn_fd (nt_conns s2 c) = cn_fd (nt_conns s c)"
      using send_late [of t c L "length bs" "n - length (put_request pre hs da)" rq] T(2) s1(3,4) untouched_stale [OF T(1)] f by metis
    have "\<exists>s3 j. call_handler (Some H_recv) u c = Inr (TCP_SRV_OK, s3) \<and>
        os_trace s3 = os_trace u @ [(Sys_read (cn_fd (nt_conns s c)) j, int (length ys)),
          (Sys_write (cn_fd (nt_conns s c)) (''error'' @ CRLF), 7)]"
      if U: "untouched c s2 u" "gives u ys" "length bs < length ys" "length (put_request pre hs da @ ys) \<le> n" "7 \<le> os_answer u (Suc (os_calls u))" for u ys
    proof -
      have S: "stale u c L (length bs) (n - length (put_request pre hs da)) rq2" "can_respond u (rq_response rq2)"
        "cn_fd (nt_conns u c) = cn_fd (nt_conns s c)"
        using s2(3,4,6) untouched_stale [OF U(1)] U(1) by (simp_all add: untouched_def)
      have q: "request_held u c L rq2" "in_data (rq_protocol rq2) (length bs)" "bf_end (nt_bufs u (rq_last_buffer rq2)) < size_mod"
        "rq_response rq2 \<noteq> rq_last_buffer rq2" using S(1) by (simp_all add: stale_def)
      have "length ys \<le> n - length (put_request pre hs da)" using U(4) by simp
      from recv_needless [OF q(1,2) U(2,3) stale_room [OF S(1) this] q(3) S(2) q(4) U(5)] S(3) show ?thesis
        by (auto simp: call_handler_def)
    qed
    moreover have "cn_request (nt_conns s2 c) \<noteq> None" using s2(3) by (simp add: stale_def request_held_def)
    ultimately show ?thesis using s2(1,2,5) by blast
  qed
  with s1(1,2) show ?thesis by blast
qed

text \<open>
  The request with the data \<open>hello\<close>, cut before its last three bytes, and then the same request
  once more in one piece.
\<close>

definition demo_twice :: net where
  "demo_twice = demo_net (\<lambda>i. if i = 2 then -1 else 7)
     (\<lambda>i. if i = 0 then take 16 (put_request [] ''k=v1'' ''hello'') else ''llo'')"

theorem late_response_spoils_next_witness:
  "\<exists>s0 s1 s2 s3 j. tcp_server_recv demo_twice 4096 = Inr (TCP_SRV_OK, s0) \<and> tcp_server_recv s0 4096 = Inr (TCP_SRV_OK, s1) \<and>
     call_handler (Some H_send) (s1\<lparr>os_answer := \<lambda>_. 7\<rparr>) 4096 = Inr (TCP_SRV_OK, s2) \<and>
     call_handler (Some H_recv) (s2\<lparr>os_answer := \<lambda>_. 7, os_input := \<lambda>_. put_request [] ''k=v1'' ''hello''\<rparr>) 4096 = Inr (TCP_SRV_OK, s3) \<and>
     os_trace s3 = os_trace s2 @ [(Sys_read 7 j, 19), (Sys_write 7 (''error'' @ CRLF), 7)]"
proof -
  let ?put = "put_request [] ''k=v1'' ''hello''"
  have d: "sv_request_buf_size (nt_server demo_twice) = 0" "cn_request (nt_conns demo_twice 4096) = None" "cn_logger (nt_conns demo_twice 4096) = None"
    "os_calls demo_twice = 0" "cn_fd (nt_conns demo_twice 4096) = 7" "os_fail demo_twice = (\<lambda>_. EAGAIN)"
    "os_answer demo_twice = (\<lambda>i. if i = 2 then -1 else 7)" "os_input demo_twice = (\<lambda>i. if i = 0 then take 16 ?put else ''llo'')"
    by (simp_all add: demo_twice_def demo_net_def demo_world_def world.defs cmem.defs connection_zero_def)
  obtain pool s' where p: "mem_pool_create demo_twice ''request'' REQUEST_POOL_SIZE None = (Some pool, s')"
    by (simp add: demo_twice_def demo_net_def demo_world_def world.defs cmem.defs demo_eval apart_def)
  have n: "clamp_buf_size (sv_request_buf_size (nt_server demo_twice)) = 1024" by (simp add: d clamp_buf_size_def)
  obtain rq s where i: "tcp_request_init demo_twice 4096 = (Some rq, s)" "request_ready s 4096 (cm_live demo_twice) 1024 rq"
    "rq_protocol rq = protocol_zero" "bf_last (nt_bufs s (rq_last_buffer rq)) = bf_buffer (nt_bufs s (rq_last_buffer rq))"
    and f: "os_answer s = os_answer demo_twice" "os_input s = os_input demo_twice" "os_calls s = 0" "cn_fd (nt_conns s 4096) = 7"
    using tcp_request_init_ready [OF n [symmetric], of 4096 pool s'] p d by auto
  have o: "os_fail s = (\<lambda>_. EAGAIN)" using tcp_request_init_quiet [OF _ i(1)] d(6)
    by (simp add: quiet_def demo_twice_def demo_net_def bufs_ok_def buf_ok_def demo_world_def world.defs cmem.defs)
  have "cn_request (nt_conns s 4096) = Some rq" using i(2) by (simp add: request_ready_def)
  then have r: "tcp_server_recv demo_twice 4096 = tcp_server_recv s 4096" using d(2) i(1) by (simp add: tcp_server_recv_def)
  have put: "?put = take 16 ?put @ ''llo''" "take 16 ?put \<noteq> []" "length (take 16 ?put) < 1024" "length ?put = 19"
    by (simp_all add: demo_request CRLF_def)
  have "spec_parse ([] @ take 16 ?put) = PROTOCOL_OK"
    using spec_parse_prefix [of "take 16 ?put" "CHR ''l''" "''lo''"] put_request_is [of "[]" "''k=v1''" "''hello''"] put(1) demo_put_pre(2) by simp
  then obtain s0 where s0: "tcp_server_recv s 4096 = Inr (TCP_SRV_OK, s0)" "receiving s0 4096 (cm_live demo_twice) 1024 (take 16 ?put)" "after_call s 4096 s0"
    using recv_more [OF receiving_start [OF i(2-4)], of "take 16 ?put"] put f d by (auto simp: gives_def)
  have k: "gives s0 ''llo''" "os_answer s0 (Suc (os_calls s0)) < 0" "os_fail s0 (Suc (os_calls s0)) = EAGAIN" "cn_fd (nt_conns s0 4096) = 7"
    using s0(3) f d o by (simp_all add: after_call_def gives_def)
  have c: "list_all is_blank []" "length ''hello'' < 2147483648" "''llo'' \<noteq> []" "length ''llo'' < length ''hello''" "(1024 :: nat) \<le> 1024"
    "length ?put \<le> 1024" by (simp_all add: put(4))
  obtain s1 where s1: "tcp_server_recv s0 4096 = Inr (TCP_SRV_OK, s1)"
    and X: "\<And>t. untouched 4096 s1 t \<Longrightarrow> 4 \<le> os_answer t (os_calls t) \<Longrightarrow>
      \<exists>s2. call_handler (Some H_send) t 4096 = Inr (TCP_SRV_OK, s2) \<and>
        (\<forall>u ys. untouched 4096 s2 u \<longrightarrow> gives u ys \<longrightarrow> length ''llo'' < length ys \<longrightarrow> length (?put @ ys) \<le> 1024 \<longrightarrow>
          7 \<le> os_answer u (Suc (os_calls u)) \<longrightarrow>
          (\<exists>s3 j. call_handler (Some H_recv) u 4096 = Inr (TCP_SRV_OK, s3) \<and>
            os_trace s3 = os_trace u @ [(Sys_read 7 j, int (length ys)), (Sys_write 7 (''error'' @ CRLF), 7)]))"
    using late_response_spoils_next [OF c(1) demo_put_pre(2) c(2) put(1) c(3,4) s0(2) c(5,6) k(1-3), unfolded k(4)] by blast
  have "untouched 4096 s1 (s1\<lparr>os_answer := \<lambda>_. 7\<rparr>)" by (simp add: untouched_def)
  from X [OF this] obtain s2 where s2: "call_handler (Some H_send) (s1\<lparr>os_answer := \<lambda>_. 7\<rparr>) 4096 = Inr (TCP_SRV_OK, s2)"
    and Y: "\<And>u ys. untouched 4096 s2 u \<Longrightarrow> gives u ys \<Longrightarrow> length ''llo'' < length ys \<Longrightarrow> length (?put @ ys) \<le> 1024 \<Longrightarrow>
       7 \<le> os_answer u (Suc (os_calls u)) \<Longrightarrow>
       \<exists>s3 j. call_handler (Some H_recv) u 4096 = Inr (TCP_SRV_OK, s3) \<and>
         os_trace s3 = os_trace u @ [(Sys_read 7 j, int (length ys)), (Sys_write 7 (''error'' @ CRLF), 7)]" by auto
  let ?u = "s2\<lparr>os_answer := \<lambda>_. 7, os_input := \<lambda>_. ?put\<rparr>"
  have "untouched 4096 s2 ?u" "gives ?u ?put" by (simp_all add: untouched_def gives_def)
  from Y [OF this] obtain s3 j where "call_handler (Some H_recv) ?u 4096 = Inr (TCP_SRV_OK, s3)"
    "os_trace s3 = os_trace s2 @ [(Sys_read 7 j, 19), (Sys_write 7 (''error'' @ CRLF), 7)]" using put(4) by auto
  with r s0(1) s1 s2 show ?thesis by auto
qed

end
