(* ===== verification/UnitTests.thy ===== *)
theory UnitTests
  imports XFile
begin

text \<open>
  The unit tests: the runner and the assertions of \<open>XTest/core\<close>, and the test of the memory
  pool, \<open>uc_test_mem_pool.c\<close>.  What the tests print is a list of lines; of a formatted line
  the format is kept.  A failed assertion returns \<open>TEST_ERROR\<close> from the function that contains
  it (\<open>Inl\<close>).
\<close>

abbreviation (input) TEST_OK :: int where "TEST_OK \<equiv> 0"
abbreviation (input) TEST_ERROR :: int where "TEST_ERROR \<equiv> -1"
abbreviation (input) FL_BEGIN_OFFSET :: int where "FL_BEGIN_OFFSET \<equiv> 0"

section \<open>The runner\<close>

datatype test_line = Case_name string | Pass string | Fail string | Message string

text \<open>The global variables of the test of the memory pool are fields of the state.\<close>

record xtest = world +
  xt_out :: "test_line list"
  xt_file :: addr
  xt_file_data :: file_t
  xt_logger :: addr
  xt_logger_data :: logger_t
  xt_pool :: "mem_pool_t option"

definition say :: "test_line \<Rightarrow> xtest \<Rightarrow> xtest" where
  "say l s = s\<lparr>xt_out := xt_out s @ [l]\<rparr>"

definition test_case_name :: "string \<Rightarrow> xtest \<Rightarrow> xtest" where
  "test_case_name name s = say (Case_name name) s"

definition test_ok :: "string \<Rightarrow> xtest \<Rightarrow> xtest" where
  "test_ok fmt s = say (Pass fmt) s"

definition test_fail :: "string \<Rightarrow> xtest \<Rightarrow> xtest" where
  "test_fail fmt s = say (Fail fmt) s"

record unit_cases_t =
  uc_name :: string
  uc_prepare :: "xtest \<Rightarrow> ub + (int \<times> xtest)"
  uc_run :: "xtest \<Rightarrow> ub + (int \<times> xtest)"
  uc_finish :: "xtest \<Rightarrow> ub + (int \<times> xtest)"

text \<open>\<open>main\<close>: a unit whose preparation fails is skipped; one whose run fails is still finished.\<close>

fun xtest_main :: "unit_cases_t list \<Rightarrow> xtest \<Rightarrow> ub + (int \<times> xtest)" where
  "xtest_main [] s = Inr (0, s)"
| "xtest_main (tc # tcs) s =
     sbind (uc_prepare tc s) (\<lambda>(ret, s1).
     if ret = TEST_ERROR then xtest_main tcs (say (Message (uc_name tc @ '' prepare failed.'')) s1)
     else
       sbind (uc_run tc s1) (\<lambda>(ret2, s2).
       let s3 = (if ret2 = TEST_ERROR then say (Message (uc_name tc @ '' run failed.'')) s2 else s2)
       in sbind (uc_finish tc s3) (\<lambda>(ret3, s4).
          xtest_main tcs (if ret3 = TEST_ERROR then say (Message (uc_name tc @ '' finish failed.'')) s4 else s4))))"

section \<open>Assertions\<close>

definition assertion :: "bool \<Rightarrow> string \<Rightarrow> string \<Rightarrow> xtest \<Rightarrow> xtest + xtest" where
  "assertion c good bad s = (if c then Inr (test_ok good s) else Inl (test_fail bad s))"

definition ASSERT_NOT_NULL :: "addr \<Rightarrow> xtest \<Rightarrow> xtest + xtest" where
  "ASSERT_NOT_NULL p s = assertion (p \<noteq> NULL) ''pointer is not NULL'' ''pointer is NULL'' s"

definition ASSERT_EQ :: "'a \<Rightarrow> 'a \<Rightarrow> xtest \<Rightarrow> xtest + xtest" where
  "ASSERT_EQ n1 n2 s = assertion (n1 = n2) ''%d == %d'' ''%d == %d'' s"

definition ASSERT_NE :: "'a \<Rightarrow> 'a \<Rightarrow> xtest \<Rightarrow> xtest + xtest" where
  "ASSERT_NE n1 n2 s = assertion (n1 \<noteq> n2) ''%d != %d'' ''%d != %d'' s"

definition ASSERT_GT :: "int \<Rightarrow> int \<Rightarrow> xtest \<Rightarrow> xtest + xtest" where
  "ASSERT_GT n1 n2 s = assertion (n1 > n2) ''%d > %d'' ''%d > %d'' s"

definition ASSERT_GE :: "int \<Rightarrow> int \<Rightarrow> xtest \<Rightarrow> xtest + xtest" where
  "ASSERT_GE n1 n2 s = assertion (n1 \<ge> n2) ''%d >= %d'' ''%d >= %d'' s"

definition ASSERT_LT :: "int \<Rightarrow> int \<Rightarrow> xtest \<Rightarrow> xtest + xtest" where
  "ASSERT_LT n1 n2 s = assertion (n1 < n2) ''%d < %d'' ''%d < %d'' s"

definition ASSERT_LE :: "int \<Rightarrow> int \<Rightarrow> xtest \<Rightarrow> xtest + xtest" where
  "ASSERT_LE n1 n2 s = assertion (n1 \<le> n2) ''%d <= %d'' ''%d <= %d'' s"

definition ASSERT_STR_EQ :: "byte list \<Rightarrow> byte list \<Rightarrow> xtest \<Rightarrow> xtest + xtest" where
  "ASSERT_STR_EQ s1 s2 s = assertion (c_strcmp s1 s2 = 0) ''%s == %s'' ''%s == %s'' s"

definition ASSERT_STR_GT :: "byte list \<Rightarrow> byte list \<Rightarrow> xtest \<Rightarrow> xtest + xtest" where
  "ASSERT_STR_GT s1 s2 s = assertion (c_strcmp s1 s2 > 0) ''%s > %s'' ''%s > %s'' s"

definition ASSERT_STR_GE :: "byte list \<Rightarrow> byte list \<Rightarrow> xtest \<Rightarrow> xtest + xtest" where
  "ASSERT_STR_GE s1 s2 s = assertion (c_strcmp s1 s2 \<ge> 0) ''%s >= %s'' ''%s >= %s'' s"

definition ASSERT_STR_LT :: "byte list \<Rightarrow> byte list \<Rightarrow> xtest \<Rightarrow> xtest + xtest" where
  "ASSERT_STR_LT s1 s2 s = assertion (c_strcmp s1 s2 < 0) ''%s < %s'' ''%s < %s'' s"

definition ASSERT_STR_LE :: "byte list \<Rightarrow> byte list \<Rightarrow> xtest \<Rightarrow> xtest + xtest" where
  "ASSERT_STR_LE s1 s2 s = assertion (c_strcmp s1 s2 \<le> 0) ''%s <= %s'' ''%s <= %s'' s"

text \<open>Assertions one after the other.\<close>

fun checks :: "(xtest \<Rightarrow> xtest + xtest) list \<Rightarrow> xtest \<Rightarrow> xtest + xtest" where
  "checks [] s = Inr s"
| "checks (a # as) s = sbind (a s) (checks as)"

section \<open>The test of the memory pool\<close>

definition prepare :: "xtest \<Rightarrow> ub + (int \<times> xtest)" where
  "prepare s =
     (let (file, s1) = malloc s sizeof_file_t
      in if file = NULL then Inr (TEST_ERROR, say (Message ''malloc file_t'') (s1\<lparr>xt_file := NULL\<rparr>))
         else
           let s2 = s1\<lparr>xt_file := file,
                 xt_file_data := \<lparr>fl_fd = FL_INVALID_FD, fl_offset = FL_BEGIN_OFFSET, fl_name = xstring ''/tmp/test.log''\<rparr>\<rparr>;
               (fd, s3) = os_call s2 (Sys_open (str_data (fl_name (xt_file_data s2))) (FL_APPEND OR FL_CREATE) 420);
               s4 = s3\<lparr>xt_file_data := (xt_file_data s3)\<lparr>fl_fd := fd\<rparr>\<rparr>
           in if fd = FL_INVALID_FD then Inr (TEST_ERROR, say (Message ''open file'') s4)
              else
                let (logger, s5) = malloc s4 sizeof_logger_t
                in if logger = NULL then Inr (TEST_ERROR, say (Message ''malloc logger_t'') (s5\<lparr>xt_logger := NULL\<rparr>))
                   else Inr (TEST_OK, s5\<lparr>xt_logger := logger,
                          xt_logger_data := \<lparr>lg_level = LOG_LEVEL_DEBUG, lg_file = Some (xt_file_data s5)\<rparr>\<rparr>))"

text \<open>
  The three test cases of \<open>run\<close> that do something.  \<open>pool->chunk\<close> is the first of the pool's
  chunks, and \<open>pool->current\<close> and \<open>chunk.next\<close> are the addresses of the chunks they point to.
\<close>

definition cur_addr :: "mem_pool_t \<Rightarrow> addr" where
  "cur_addr p = ck_self (mp_chunks p ! mp_current p)"

definition next_addr :: "mem_pool_t \<Rightarrow> addr" where
  "next_addr p = (case tl (mp_chunks p) of [] \<Rightarrow> NULL | c # _ \<Rightarrow> ck_self c)"

definition chunk_addr :: "mem_pool_t \<Rightarrow> addr" where
  "chunk_addr p = mp_self p + offsetof_chunk"

definition case_create :: "xtest \<Rightarrow> xtest + (mem_pool_t \<times> xtest)" where
  "case_create s0 =
     (let s = test_case_name ''create_mem_pool(1024)'' s0
      in case mem_pool_create s ''mem_pool_test'' 1024 (Some (xt_logger_data s)) of
           (pool, s1) \<Rightarrow>
             let s2 = s1\<lparr>xt_pool := pool\<rparr>
             in sbind (ASSERT_NOT_NULL (case pool of None \<Rightarrow> NULL | Some p \<Rightarrow> mp_self p) s2) (\<lambda>s3.
                case pool of None \<Rightarrow> Inl s3
                | Some p \<Rightarrow>
                    sbind (checks [ASSERT_EQ (mp_total p) 1024, ASSERT_EQ (mp_max p) 1024,
                       ASSERT_EQ (cur_addr p) (chunk_addr p), ASSERT_EQ (mp_large p) [],
                       ASSERT_EQ (mp_logger p) (Some (xt_logger_data s3)),
                       ASSERT_EQ (ck_fail (hd (mp_chunks p))) 0,
                       ASSERT_EQ (ck_end (hd (mp_chunks p))) (mp_self p + 1024),
                       ASSERT_EQ (ck_last (hd (mp_chunks p))) (mp_self p + sizeof_mem_pool_t),
                       ASSERT_EQ (next_addr p) NULL] s3) (\<lambda>s4. Inr (p, s4))))"

text \<open>A request from the pool of the test.\<close>

definition test_pmalloc :: "xtest \<Rightarrow> mem_pool_t \<Rightarrow> nat \<Rightarrow> addr \<times> mem_pool_t \<times> xtest" where
  "test_pmalloc s p n = (case pmalloc s p n of (a, s1, p1) \<Rightarrow> (a, p1, s1\<lparr>xt_pool := Some p1\<rparr>))"

definition case_pmalloc :: "mem_pool_t \<times> xtest \<Rightarrow> xtest + (mem_pool_t \<times> xtest)" where
  "case_pmalloc ps =
     (let (a, p1, s1) = test_pmalloc (test_case_name ''pmalloc'' (snd ps)) (fst ps) 10
      in sbind (checks [ASSERT_NOT_NULL (mp_self p1), ASSERT_EQ (cur_addr p1) (chunk_addr p1),
           ASSERT_EQ (ck_last (hd (mp_chunks p1))) (mp_self p1 + sizeof_mem_pool_t + 10)] s1) (\<lambda>s2.
         let (b, p3, s3) = test_pmalloc s2 p1 512
         in sbind (checks [ASSERT_NOT_NULL (mp_self p3), ASSERT_EQ (cur_addr p3) (chunk_addr p3),
              ASSERT_EQ (ck_last (hd (mp_chunks p3))) (mp_self p3 + sizeof_mem_pool_t + 522)] s3) (\<lambda>s4. Inr (p3, s4))))"

definition case_add_chunk :: "mem_pool_t \<times> xtest \<Rightarrow> xtest + (mem_pool_t \<times> xtest)" where
  "case_add_chunk ps =
     (let (a, p, s1) = test_pmalloc (test_case_name ''pmalloc (add chunk)'' (snd ps)) (fst ps) 1024
      in sbind (checks [ASSERT_NOT_NULL a, ASSERT_EQ (cur_addr p) (chunk_addr p),
           ASSERT_EQ (ck_last (hd (mp_chunks p))) (mp_self p + sizeof_mem_pool_t + 522),
           ASSERT_NOT_NULL (next_addr p),
           ASSERT_EQ (ck_last (hd (tl (mp_chunks p)))) (next_addr p + sizeof_mem_pool_chunk_t + 1024),
           ASSERT_EQ (ck_fail (hd (mp_chunks p))) 1, ASSERT_EQ (ck_fail (hd (tl (mp_chunks p)))) 0,
           ASSERT_EQ (mp_total p) 2048] s1) (\<lambda>s2. Inr (p, s2)))"

definition run_tests :: "xtest \<Rightarrow> ub + (int \<times> xtest)" where
  "run_tests s =
     (case sbind (case_create s) (\<lambda>ps. sbind (case_pmalloc ps) case_add_chunk) of
        Inl s1 \<Rightarrow> Inr (TEST_ERROR, s1)
      | Inr (_, s1) \<Rightarrow> Inr (TEST_OK, test_case_name ''pcalloc'' (test_case_name ''pmalloc large'' s1)))"

text \<open>\<open>mem_pool_clear\<close> works on the pool in place; after \<open>mem_pool_destroy\<close> the pointer dangles.\<close>

definition finish :: "xtest \<Rightarrow> ub + (int \<times> xtest)" where
  "finish s =
     sbind (c_free s (xt_file s)) (\<lambda>s1.
     sbind (c_free s1 (xt_logger s1)) (\<lambda>s2.
     case xt_pool s2 of None \<Rightarrow> Inl Null_deref
     | Some p \<Rightarrow>
         sbind (mem_pool_clear s2 p) (\<lambda>(s3, p1).
         sbind (mem_pool_destroy (s3\<lparr>xt_pool := Some p1\<rparr>) p1) (\<lambda>s4. Inr (TEST_OK, s4)))))"

definition test_mem_pool :: unit_cases_t where
  "test_mem_pool = \<lparr>uc_name = ''test_mem_pool'', uc_prepare = prepare, uc_run = run_tests, uc_finish = finish\<rparr>"

definition test_units :: "unit_cases_t list" where
  "test_units = [test_mem_pool]"

section \<open>The run of the tests\<close>

text \<open>The memory part of a state is all that \<open>malloc\<close> looks at.\<close>

lemma say_sel [simp]:
  "cm_live (say l s) = cm_live s" "cm_pick (say l s) = cm_pick s" "cm_calls (say l s) = cm_calls s"
  "xt_out (say l s) = xt_out s @ [l]" "xt_file (say l s) = xt_file s" "xt_logger (say l s) = xt_logger s"
  "xt_logger_data (say l s) = xt_logger_data s" "xt_pool (say l s) = xt_pool s"
  by (simp_all add: say_def)

text \<open>A line of a test that has not failed.\<close>

primrec passed :: "test_line \<Rightarrow> bool" where
  "passed (Case_name n) = True"
| "passed (Pass f) = True"
| "passed (Fail f) = False"
| "passed (Message m) = False"

text \<open>Assertions that hold change nothing but the lines printed.\<close>

definition passes :: "xtest \<Rightarrow> xtest \<Rightarrow> bool" where
  "passes s s' \<longleftrightarrow> cm_live s' = cm_live s \<and> cm_pick s' = cm_pick s \<and> cm_calls s' = cm_calls s \<and> xt_file s' = xt_file s \<and>
     xt_logger s' = xt_logger s \<and> xt_logger_data s' = xt_logger_data s \<and> xt_pool s' = xt_pool s \<and>
     (\<exists>ls. xt_out s' = xt_out s @ ls \<and> list_all passed ls)"

lemma passes_refl: "passes s s"
  by (simp add: passes_def)

lemma passes_trans: "passes s t \<Longrightarrow> passes t u \<Longrightarrow> passes s u"
  by (fastforce simp: passes_def)

lemma passes_say: "passes s (test_ok f s)" "passes s (test_case_name n s)"
  by (simp_all add: passes_def test_ok_def test_case_name_def)

lemma assert_pass:
  "p \<noteq> NULL \<Longrightarrow> ASSERT_NOT_NULL p s = Inr (test_ok ''pointer is not NULL'' s)"
  "ASSERT_EQ x x s = Inr (test_ok ''%d == %d'' s)"
  by (simp_all add: ASSERT_NOT_NULL_def ASSERT_EQ_def assertion_def)

text \<open>A list of assertions that all hold.\<close>

definition holds_all :: "(xtest \<Rightarrow> xtest + xtest) list \<Rightarrow> bool" where
  "holds_all as \<longleftrightarrow> list_all (\<lambda>a. \<forall>s. \<exists>s'. a s = Inr s' \<and> passes s s') as"

lemma checks_pass: "holds_all as \<Longrightarrow> \<exists>s'. checks as s = Inr s' \<and> passes s s'"
proof (induction as arbitrary: s)
  case (Cons a as)
  then obtain s1 where "a s = Inr s1" "passes s s1" "holds_all as" by (auto simp: holds_all_def)
  moreover obtain s2 where "checks as s1 = Inr s2" "passes s1 s2" using Cons.IH \<open>holds_all as\<close> by blast
  ultimately show ?case using passes_trans by auto
qed (simp add: passes_refl)

lemma holds_all_simps [simp]:
  "holds_all []" "holds_all (ASSERT_EQ x y # as) \<longleftrightarrow> x = y \<and> holds_all as"
  "holds_all (ASSERT_NOT_NULL p # as) \<longleftrightarrow> p \<noteq> NULL \<and> holds_all as"
  by (auto simp: holds_all_def ASSERT_EQ_def ASSERT_NOT_NULL_def assertion_def passes_say)

text \<open>The pool of the test: \<open>used\<close> bytes of the first chunk are taken.\<close>

definition test_pool :: "addr \<Rightarrow> logger_t \<Rightarrow> nat \<Rightarrow> mem_pool_t" where
  "test_pool a lg used = \<lparr>mp_self = a, mp_name = \<lparr>str_len = length (cstr ''mem_pool_test''), str_data = ''mem_pool_test''\<rparr>,
     mp_total = 1024, mp_max = 1024, mp_current = 0, mp_large = [], mp_logger = Some lg,
     mp_chunks = [\<lparr>ck_self = a + offsetof_chunk, ck_fail = 0, ck_last = a + sizeof_mem_pool_t + used, ck_end = a + 1024\<rparr>]\<rparr>"

definition test_pool2 :: "addr \<Rightarrow> addr \<Rightarrow> logger_t \<Rightarrow> mem_pool_t" where
  "test_pool2 a b lg = (test_pool a lg 522)\<lparr>mp_total := 2048,
     mp_chunks := [\<lparr>ck_self = a + offsetof_chunk, ck_fail = 1, ck_last = a + sizeof_mem_pool_t + 522, ck_end = a + 1024\<rparr>,
       \<lparr>ck_self = b, ck_fail = 0, ck_last = b + sizeof_mem_pool_chunk_t + 1024, ck_end = b + 1024\<rparr>]\<rparr>"

lemma test_pool_room:
  "used \<le> 936 \<Longrightarrow> chunk_room \<lparr>ck_self = x, ck_fail = y, ck_last = a + sizeof_mem_pool_t + used, ck_end = a + 1024\<rparr> = 936 - used"
  by (simp add: chunk_room_def sizeof_defs to_size_t_nonneg nat_diff_distrib)

lemma test_pmalloc_small:
  assumes "used + n \<le> 936"
  shows "test_pmalloc s (test_pool a lg used) n =
     (a + sizeof_mem_pool_t + used, test_pool a lg (used + n), s\<lparr>xt_pool := Some (test_pool a lg (used + n))\<rparr>)"
proof -
  have "used \<le> 936" "n \<le> 936 - used" "n \<le> 1024" using assms by simp_all
  then show ?thesis
    using test_pool_room [of used "a + offsetof_chunk" 0 a]
    by (simp add: test_pmalloc_def pmalloc_def pmalloc_small_def test_pool_def add.assoc)
qed

lemma test_pmalloc_grow:
  assumes "malloc s 1024 = (b, s1)"
  shows "test_pmalloc s (test_pool a lg 522) 1024 =
     (if b = NULL then (NULL, test_pool a lg 522, (log_error s1 (Some lg) 0 ''add_mem_chunk failed.'')\<lparr>xt_pool := Some (test_pool a lg 522)\<rparr>)
      else (b + sizeof_mem_pool_chunk_t, test_pool2 a b lg, s1\<lparr>xt_pool := Some (test_pool2 a b lg)\<rparr>))"
  using assms test_pool_room [of 522 "a + offsetof_chunk" 0 a]
  by (simp add: test_pmalloc_def pmalloc_def pmalloc_small_def test_pool_def test_pool2_def add_mem_chunk_def Let_def)

lemma case_create_result:
  assumes "malloc (test_case_name ''create_mem_pool(1024)'' s) 1024 = (a, s1)"
  shows "if a = NULL then \<exists>s'. case_create s = Inl s' \<and> xt_pool s' = None \<and> cm_live s' = cm_live s \<and> xt_file s' = xt_file s \<and>
      xt_logger s' = xt_logger s
    else \<exists>s'. case_create s = Inr (test_pool a (xt_logger_data s) 0, s') \<and>
      passes (s1\<lparr>xt_pool := Some (test_pool a (xt_logger_data s) 0)\<rparr>) s'"
proof (cases "a = NULL")
  case True
  then show ?thesis
    using assms by (auto simp: case_create_def Let_def mem_pool_create_def ASSERT_NOT_NULL_def assertion_def test_fail_def test_case_name_def
        log_error_def log_emit_def split: option.split elim!: malloc_cases)
next
  case False
  let ?lg = "xt_logger_data s"
  have lg: "xt_logger_data (test_case_name n s) = ?lg" "xt_logger_data s1 = ?lg" for n
    using assms by (auto simp: test_case_name_def elim!: malloc_cases)
  let ?s2 = "s1\<lparr>xt_pool := Some (test_pool a ?lg 0)\<rparr>"
  have p: "mem_pool_create (test_case_name ''create_mem_pool(1024)'' s) ''mem_pool_test'' 1024 (Some ?lg) = (Some (test_pool a ?lg 0), s1)"
    using assms False by (simp add: mem_pool_create_def test_pool_def)
  define s3 where "s3 = test_ok ''pointer is not NULL'' ?s2"
  have s3: "passes ?s2 s3" "xt_logger_data s3 = ?lg" using passes_say lg(2) by (simp_all add: s3_def test_ok_def)
  have n: "ASSERT_NOT_NULL (mp_self (test_pool a ?lg 0)) ?s2 = Inr s3"
    using False by (simp add: assert_pass s3_def test_pool_def)
  let ?p = "test_pool a ?lg 0"
  have "holds_all [ASSERT_EQ (mp_total ?p) 1024, ASSERT_EQ (mp_max ?p) 1024,
      ASSERT_EQ (cur_addr ?p) (chunk_addr ?p), ASSERT_EQ (mp_large ?p) [], ASSERT_EQ (mp_logger ?p) (Some (xt_logger_data s3)),
      ASSERT_EQ (ck_fail (hd (mp_chunks ?p))) 0, ASSERT_EQ (ck_end (hd (mp_chunks ?p))) (mp_self ?p + 1024),
      ASSERT_EQ (ck_last (hd (mp_chunks ?p))) (mp_self ?p + sizeof_mem_pool_t), ASSERT_EQ (next_addr ?p) NULL]"
    using s3(2) by (simp add: test_pool_def cur_addr_def chunk_addr_def next_addr_def)
  from checks_pass [OF this, of s3] passes_trans [OF s3(1)] show ?thesis
    using False unfolding case_create_def Let_def lg(1) p prod.case option.case n sbind.simps by auto
qed

lemma case_pmalloc_result:
  assumes "a \<noteq> NULL"
  shows "\<exists>s'. case_pmalloc (test_pool a lg 0, s) = Inr (test_pool a lg 522, s') \<and>
    passes (s\<lparr>xt_pool := Some (test_pool a lg 522)\<rparr>) s'"
proof -
  let ?s1 = "(test_case_name ''pmalloc'' s)\<lparr>xt_pool := Some (test_pool a lg 10)\<rparr>"
  have m1: "test_pmalloc (test_case_name ''pmalloc'' s) (test_pool a lg 0) 10 = (a + sizeof_mem_pool_t + 0, test_pool a lg 10, ?s1)"
    using test_pmalloc_small [of 0 10] by simp
  have h: "holds_all [ASSERT_NOT_NULL (mp_self (test_pool a lg k)), ASSERT_EQ (cur_addr (test_pool a lg k)) (chunk_addr (test_pool a lg k)),
       ASSERT_EQ (ck_last (hd (mp_chunks (test_pool a lg k)))) (mp_self (test_pool a lg k) + sizeof_mem_pool_t + k)]" for k
    using assms by (simp add: test_pool_def cur_addr_def chunk_addr_def)
  obtain s2 where s2: "checks [ASSERT_NOT_NULL (mp_self (test_pool a lg 10)), ASSERT_EQ (cur_addr (test_pool a lg 10)) (chunk_addr (test_pool a lg 10)),
       ASSERT_EQ (ck_last (hd (mp_chunks (test_pool a lg 10)))) (mp_self (test_pool a lg 10) + sizeof_mem_pool_t + 10)] ?s1 = Inr s2" "passes ?s1 s2"
    using checks_pass [OF h] by blast
  let ?s3 = "s2\<lparr>xt_pool := Some (test_pool a lg 522)\<rparr>"
  have m2: "test_pmalloc s2 (test_pool a lg 10) 512 = (a + sizeof_mem_pool_t + 10, test_pool a lg 522, ?s3)"
    using test_pmalloc_small [of 10 512] by simp
  obtain s4 where s4: "checks [ASSERT_NOT_NULL (mp_self (test_pool a lg 522)), ASSERT_EQ (cur_addr (test_pool a lg 522)) (chunk_addr (test_pool a lg 522)),
       ASSERT_EQ (ck_last (hd (mp_chunks (test_pool a lg 522)))) (mp_self (test_pool a lg 522) + sizeof_mem_pool_t + 522)] ?s3 = Inr s4" "passes ?s3 s4"
    using checks_pass [OF h] by blast
  have "passes (s\<lparr>xt_pool := Some (test_pool a lg 522)\<rparr>) ?s3"
    using s2(2) by (auto simp: passes_def test_case_name_def)
  from passes_trans [OF this s4(2)] show ?thesis
    unfolding case_pmalloc_def Let_def fst_conv snd_conv m1 prod.case s2(1) sbind.simps m2 s4(1) by blast
qed

lemma case_add_chunk_result:
  assumes "malloc (test_case_name ''pmalloc (add chunk)'' s) 1024 = (b, s1)" "a \<noteq> NULL"
  shows "if b = NULL then \<exists>s'. case_add_chunk (test_pool a lg 522, s) = Inl s' \<and> xt_pool s' = Some (test_pool a lg 522) \<and>
      cm_live s' = cm_live s \<and> xt_file s' = xt_file s \<and> xt_logger s' = xt_logger s
    else \<exists>s'. case_add_chunk (test_pool a lg 522, s) = Inr (test_pool2 a b lg, s') \<and> passes (s1\<lparr>xt_pool := Some (test_pool2 a b lg)\<rparr>) s'"
proof (cases "b = NULL")
  case True
  then show ?thesis
    using assms(1) by (auto simp: case_add_chunk_def Let_def test_pmalloc_grow ASSERT_NOT_NULL_def assertion_def test_fail_def test_case_name_def
        log_error_def log_emit_def split: option.split elim!: malloc_cases)
next
  case False
  let ?p = "test_pool2 a b lg"
  have "holds_all [ASSERT_NOT_NULL (b + sizeof_mem_pool_chunk_t), ASSERT_EQ (cur_addr ?p) (chunk_addr ?p),
      ASSERT_EQ (ck_last (hd (mp_chunks ?p))) (mp_self ?p + sizeof_mem_pool_t + 522), ASSERT_NOT_NULL (next_addr ?p),
      ASSERT_EQ (ck_last (hd (tl (mp_chunks ?p)))) (next_addr ?p + sizeof_mem_pool_chunk_t + 1024),
      ASSERT_EQ (ck_fail (hd (mp_chunks ?p))) 1, ASSERT_EQ (ck_fail (hd (tl (mp_chunks ?p)))) 0, ASSERT_EQ (mp_total ?p) 2048]"
    using False by (simp add: test_pool2_def test_pool_def cur_addr_def chunk_addr_def next_addr_def)
  from checks_pass [OF this, of "s1\<lparr>xt_pool := Some ?p\<rparr>"] False show ?thesis
    unfolding case_add_chunk_def Let_def fst_conv snd_conv test_pmalloc_grow [OF assms(1)] by auto
qed

lemma c_free_head:
  assumes "cm_live w = xs @ (a, n) # ys" "distinct (map fst (cm_live w))" "a \<noteq> NULL"
  shows "c_free w a = Inr (w\<lparr>cm_live := xs @ ys\<rparr>)"
proof -
  have "a \<notin> fst ` set xs" "a \<notin> fst ` set ys" using assms(1,2) by auto
  then have "filter (\<lambda>b. fst b \<noteq> a) xs = xs" "filter (\<lambda>b. fst b \<noteq> a) ys = ys" by (auto simp: filter_id_conv)
  then have "filter (\<lambda>b. fst b \<noteq> a) (xs @ (a, n) # ys) = xs @ ys" by simp
  then show ?thesis using assms by (simp add: c_free_def free_block_def)
qed

text \<open>\<open>bs\<close> are the blocks of the further chunks.\<close>

lemma finish_frees:
  assumes l: "cm_live s = bs @ (a, n) # (lo, k) # (fi, m) # L" and d: "distinct (map fst (cm_live s))" "NULL \<notin> fst ` set (cm_live s)"
    and x: "xt_file s = fi" "xt_logger s = lo" "xt_pool s = Some p"
    and p: "mp_self p = a" "mp_large p = []" "map ck_self (tl (mp_chunks p)) = map fst bs" "length bs \<le> 1"
  shows "\<exists>s'. finish s = Inr (TEST_OK, s') \<and> cm_live s' = L \<and> xt_out s' = xt_out s \<and>
    xt_pool s' = Some (p\<lparr>mp_large := [], mp_current := 0, mp_chunks := map reset_chunk (mp_chunks p)\<rparr>)"
proof -
  let ?s1 = "s\<lparr>cm_live := bs @ (a, n) # (lo, k) # L\<rparr>" let ?s2 = "s\<lparr>cm_live := bs @ (a, n) # L\<rparr>"
  let ?p = "p\<lparr>mp_large := [], mp_current := 0, mp_chunks := map reset_chunk (mp_chunks p)\<rparr>"
  define t where "t = s\<lparr>xt_pool := Some ?p\<rparr>"
  have f1: "c_free s fi = Inr ?s1" using c_free_head [of s "bs @ [(a, n), (lo, k)]" fi m L] l d by auto
  have f2: "c_free ?s1 lo = Inr ?s2" using c_free_head [of ?s1 "bs @ [(a, n)]" lo k L] l d by auto
  have c: "mem_pool_clear ?s2 p = Inr (?s2, ?p)" using p(2) by (simp add: mem_pool_clear_def)
  have t: "?s2\<lparr>xt_pool := Some ?p\<rparr> = t\<lparr>cm_live := bs @ (a, n) # L\<rparr>" by (simp add: t_def)
  have ch: "map ck_self (tl (map reset_chunk (mp_chunks p))) = map fst bs"
    using p(3) by (simp add: reset_chunk_def map_tl [symmetric] comp_def)
  have fc: "free_chunks (t\<lparr>cm_live := bs @ (a, n) # L\<rparr>) (tl (map reset_chunk (mp_chunks p))) = Inr (t\<lparr>cm_live := (a, n) # L\<rparr>)"
  proof (cases bs)
    case Nil
    then show ?thesis using ch by simp
  next
    case (Cons b bs')
    then have b: "bs = [b]" using p(4) by simp
    then obtain c where "tl (map reset_chunk (mp_chunks p)) = [c]" "ck_self c = fst b" using ch by (cases "tl (map reset_chunk (mp_chunks p))") auto
    then show ?thesis using c_free_head [of "t\<lparr>cm_live := bs @ (a, n) # L\<rparr>" "[]" "fst b" "snd b" "(a, n) # L"] l d b by auto
  qed
  have fa: "c_free (t\<lparr>cm_live := (a, n) # L\<rparr>) a = Inr (t\<lparr>cm_live := L\<rparr>)"
    using c_free_head [of "t\<lparr>cm_live := (a, n) # L\<rparr>" "[]" a n L] l d by auto
  have "finish s = Inr (TEST_OK, t\<lparr>cm_live := L\<rparr>)"
    using f1 f2 c fc fa x p(1) t by (simp add: finish_def mem_pool_destroy_def)
  then show ?thesis by (simp add: t_def)
qed

text \<open>What the preparation leaves when it succeeds.\<close>

lemma prepare_ok:
  assumes "prepare s = Inr (TEST_OK, s1)" "live_wf s"
  shows "\<exists>fi lo. cm_live s1 = (lo, sizeof_logger_t) # (fi, sizeof_file_t) # cm_live s \<and> xt_file s1 = fi \<and> xt_logger s1 = lo"
    "live_wf s1" "xt_out s1 = xt_out s"
proof -
  obtain fi t1 where m1: "malloc s sizeof_file_t = (fi, t1)" by fastforce
  define t2 where "t2 = t1\<lparr>xt_file := fi, xt_file_data := \<lparr>fl_fd = FL_INVALID_FD, fl_offset = FL_BEGIN_OFFSET, fl_name = xstring ''/tmp/test.log''\<rparr>\<rparr>"
  obtain fd t3 where o: "os_call t2 (Sys_open (str_data (fl_name (xt_file_data t2))) (FL_APPEND OR FL_CREATE) 420) = (fd, t3)" by fastforce
  define t4 where "t4 = t3\<lparr>xt_file_data := (xt_file_data t3)\<lparr>fl_fd := fd\<rparr>\<rparr>"
  obtain lo t5 where m2: "malloc t4 sizeof_logger_t = (lo, t5)" by fastforce
  have ok: "fi \<noteq> NULL" "lo \<noteq> NULL" "s1 = t5\<lparr>xt_logger := lo, xt_logger_data := \<lparr>lg_level = LOG_LEVEL_DEBUG, lg_file = Some (xt_file_data t5)\<rparr>\<rparr>"
    using assms(1) m1 o m2 by (auto simp: prepare_def Let_def t2_def t4_def split: if_splits)
  have l1: "cm_live t1 = (fi, sizeof_file_t) # cm_live s" "live_wf t1" "xt_out t1 = xt_out s"
    using m1 ok(1) malloc_live_wf [OF assms(2) m1] by (auto elim!: malloc_cases)
  have l4: "cm_live t4 = cm_live t1" "xt_file t4 = fi" "xt_out t4 = xt_out t1"
    using o by (auto simp: t4_def t2_def os_call_def Let_def os_done_def)
  have w4: "live_wf t4" using l1(2) by (simp add: live_wf_def l4(1))
  show "\<exists>fi lo. cm_live s1 = (lo, sizeof_logger_t) # (fi, sizeof_file_t) # cm_live s \<and> xt_file s1 = fi \<and> xt_logger s1 = lo"
    "xt_out s1 = xt_out s"
    using m2 ok l1(1,3) l4 by (auto elim!: malloc_cases)
  show "live_wf s1" using malloc_live_wf [OF w4 m2] by (simp add: ok(3) live_wf_def)
qed

text \<open>The two mallocs that the run makes.\<close>

lemma malloc_same:
  fixes w w' :: xtest
  assumes "malloc w n = (a, w1)" "cm_live w' = cm_live w" "cm_pick w' = cm_pick w" "cm_calls w' = cm_calls w"
  shows "\<exists>w1'. malloc w' n = (a, w1') \<and> cm_live w1' = cm_live w1 \<and> cm_pick w1' = cm_pick w1 \<and> cm_calls w1' = cm_calls w1 \<and>
    xt_file w1' = xt_file w' \<and> xt_logger w1' = xt_logger w' \<and> xt_logger_data w1' = xt_logger_data w' \<and> xt_out w1' = xt_out w'"
  using assms by (auto simp: malloc_def Let_def split: if_splits)

lemma live_distinct:
  assumes "live_wf w"
  shows "distinct (map fst (cm_live w))" "NULL \<notin> fst ` set (cm_live w)"
  using assms sorted_wrt_apart_distinct by (auto simp: live_wf_def list_all_iff)

lemma run_tests_result:
  assumes "malloc s 1024 = (a, w1)" "malloc w1 1024 = (b, w2)"
  shows "if a = NULL then \<exists>s'. run_tests s = Inr (TEST_ERROR, s') \<and> xt_pool s' = None \<and> cm_live s' = cm_live s \<and>
      xt_file s' = xt_file s \<and> xt_logger s' = xt_logger s
    else if b = NULL then \<exists>s'. run_tests s = Inr (TEST_ERROR, s') \<and> xt_pool s' = Some (test_pool a (xt_logger_data s) 522) \<and>
      cm_live s' = cm_live w1 \<and> xt_file s' = xt_file s \<and> xt_logger s' = xt_logger s
    else \<exists>s'. run_tests s = Inr (TEST_OK, s') \<and> xt_pool s' = Some (test_pool2 a b (xt_logger_data s)) \<and> cm_live s' = cm_live w2 \<and>
      xt_file s' = xt_file s \<and> xt_logger s' = xt_logger s \<and> (\<exists>ls. xt_out s' = xt_out s @ ls \<and> list_all passed ls)"
proof -
  let ?lg = "xt_logger_data s"
  obtain v1 where v1: "malloc (test_case_name ''create_mem_pool(1024)'' s) 1024 = (a, v1)" "cm_live v1 = cm_live w1" "cm_pick v1 = cm_pick w1"
    "cm_calls v1 = cm_calls w1" "xt_file v1 = xt_file s" "xt_logger v1 = xt_logger s" "xt_out v1 = xt_out s @ [Case_name ''create_mem_pool(1024)'']"
    using malloc_same [OF assms(1), of "test_case_name ''create_mem_pool(1024)'' s"] by (auto simp: test_case_name_def)
  note c1 = case_create_result [OF v1(1)]
  show ?thesis
  proof (cases "a = NULL")
    case True
    then show ?thesis using c1 by (auto simp: run_tests_def)
  next
    case False
    then obtain s1 where s1: "case_create s = Inr (test_pool a ?lg 0, s1)" "passes (v1\<lparr>xt_pool := Some (test_pool a ?lg 0)\<rparr>) s1"
      using c1 by auto
    obtain s2 where s2: "case_pmalloc (test_pool a ?lg 0, s1) = Inr (test_pool a ?lg 522, s2)"
      "passes (s1\<lparr>xt_pool := Some (test_pool a ?lg 522)\<rparr>) s2" using case_pmalloc_result [OF False] by blast
    have p2: "cm_live s2 = cm_live w1" "cm_pick s2 = cm_pick w1" "cm_calls s2 = cm_calls w1" "xt_file s2 = xt_file s" "xt_logger s2 = xt_logger s"
      using s1(2) s2(2) v1 by (auto simp: passes_def)
    obtain v2 where v2: "malloc (test_case_name ''pmalloc (add chunk)'' s2) 1024 = (b, v2)" "cm_live v2 = cm_live w2"
      "xt_file v2 = xt_file s" "xt_logger v2 = xt_logger s" "xt_out v2 = xt_out s2 @ [Case_name ''pmalloc (add chunk)'']"
      using malloc_same [OF assms(2), of "test_case_name ''pmalloc (add chunk)'' s2"] p2 by (auto simp: test_case_name_def)
    note c3 = case_add_chunk_result [OF v2(1) False, of ?lg]
    show ?thesis
    proof (cases "b = NULL")
      case True
      then show ?thesis using c3 s1(1) s2(1) False p2 by (auto simp: run_tests_def)
    next
      case ok: False
      let ?p = "test_pool2 a b ?lg"
      obtain s3 where s3: "case_add_chunk (test_pool a ?lg 522, s2) = Inr (?p, s3)" "passes (v2\<lparr>xt_pool := Some ?p\<rparr>) s3"
        using c3 ok by auto
      let ?s' = "test_case_name ''pcalloc'' (test_case_name ''pmalloc large'' s3)"
      have p3: "passes (v2\<lparr>xt_pool := Some ?p\<rparr>) ?s'" using passes_trans [OF s3(2) passes_trans [OF passes_say(2) passes_say(2)]] .
      obtain ls where "xt_out v2 = xt_out s @ ls" "list_all passed ls"
        using s1(2) s2(2) v1(7) v2(5) by (auto simp: passes_def)
      then have "\<exists>ls. xt_out ?s' = xt_out s @ ls \<and> list_all passed ls" using p3 by (auto simp: passes_def)
      moreover have "run_tests s = Inr (TEST_OK, ?s')" using s1(1) s2(1) s3(1) by (simp add: run_tests_def)
      ultimately show ?thesis
        using False ok p3 v2 by (auto simp: passes_def)
    qed
  qed
qed

section \<open>Properties\<close>

text \<open>
  C40: the unit test of the memory pool.  When its preparation succeeds, the outcome of the test
  run depends on two answers of \<open>malloc\<close> only.  If the pool gets no memory, the assertion
  fails and the clean-up, which runs nevertheless, follows the null pointer \<open>pool\<close>.  If the
  second chunk gets none, the run is reported as failed and everything is given back.  If both
  do, every assertion passes and everything is given back, although when the assertions of the
  run have passed, before the clean-up, the second chunk has handed out memory beyond its end:
  the test does not notice the overflow of \<open>add_mem_chunk\<close>, it asserts it.  Only the clean-up,
  which clears the pool before it destroys it, takes the chunk back into its bounds.
\<close>

theorem mem_pool_unit_test:
  assumes "live_wf s" "prepare s = Inr (TEST_OK, s1)" "malloc s1 1024 = (a, w1)" "malloc w1 1024 = (b, w2)"
  shows "if a = NULL then xtest_main test_units s = Inl Null_deref
    else \<exists>s'. xtest_main test_units s = Inr (0, s') \<and> cm_live s' = cm_live s \<and>
      (if b = NULL then last (xt_out s') = Message ''test_mem_pool run failed.''
       else (\<exists>ls. xt_out s' = xt_out s @ ls \<and> list_all passed ls) \<and>
         (\<exists>s2 p. run_tests s1 = Inr (TEST_OK, s2) \<and> xt_pool s2 = Some p \<and> ck_end (mp_chunks p ! 1) < ck_last (mp_chunks p ! 1)) \<and>
         (\<exists>p. xt_pool s' = Some p \<and> ck_last (mp_chunks p ! 1) < ck_end (mp_chunks p ! 1)))"
proof -
  note P = prepare_ok [OF assms(2,1)]
  obtain fi lo where l: "cm_live s1 = (lo, sizeof_logger_t) # (fi, sizeof_file_t) # cm_live s" "xt_file s1 = fi" "xt_logger s1 = lo"
    using P(1) by blast
  note R = run_tests_result [OF assms(3,4)]
  have w: "live_wf w1" "live_wf w2" using malloc_live_wf P(2) assms(3,4) by blast+
  note d = live_distinct [OF P(2)] live_distinct [OF w(1)] live_distinct [OF w(2)]
  let ?lg = "xt_logger_data s1" and ?msg = "Message ''test_mem_pool run failed.''"
  show ?thesis
  proof (cases "a = NULL")
    case True
    then obtain s2 where s2: "run_tests s1 = Inr (TEST_ERROR, s2)" "xt_pool s2 = None" "cm_live s2 = cm_live s1" "xt_file s2 = fi" "xt_logger s2 = lo"
      using R l by auto
    have "c_free (say ?msg s2) fi = Inr ((say ?msg s2)\<lparr>cm_live := (lo, sizeof_logger_t) # cm_live s\<rparr>)"
      using c_free_head [of "say ?msg s2" "[(lo, sizeof_logger_t)]" fi sizeof_file_t "cm_live s"] d(1,2) l s2 by auto
    moreover have "c_free ((say ?msg s2)\<lparr>cm_live := (lo, sizeof_logger_t) # cm_live s\<rparr>) lo = Inr ((say ?msg s2)\<lparr>cm_live := cm_live s\<rparr>)"
      using c_free_head [of "(say ?msg s2)\<lparr>cm_live := (lo, sizeof_logger_t) # cm_live s\<rparr>" "[]" lo sizeof_logger_t "cm_live s"] d(1,2) l by auto
    ultimately have "finish (say ?msg s2) = Inl Null_deref" using s2 by (simp add: finish_def)
    then show ?thesis using True assms(2) s2(1) by (simp add: test_units_def test_mem_pool_def)
  next
    case False
    then have l1: "cm_live w1 = (a, 1024) # cm_live s1" using assms(3) by (auto elim!: malloc_cases)
    show ?thesis
    proof (cases "b = NULL")
      case True
      then obtain s2 where s2: "run_tests s1 = Inr (TEST_ERROR, s2)" "xt_pool s2 = Some (test_pool a ?lg 522)" "cm_live s2 = cm_live w1"
        "xt_file s2 = fi" "xt_logger s2 = lo" using R l False by auto
      obtain s3 where "finish (say ?msg s2) = Inr (TEST_OK, s3)" "cm_live s3 = cm_live s" "xt_out s3 = xt_out (say ?msg s2)"
        using finish_frees [of "say ?msg s2" "[]" a 1024 lo sizeof_logger_t fi sizeof_file_t "cm_live s" "test_pool a ?lg 522"] s2 l l1 d(3,4)
        by (auto simp: test_pool_def)
      then show ?thesis using False True assms(2) s2(1) by (simp add: test_units_def test_mem_pool_def)
    next
      case ok: False
      then obtain s2 ls where s2: "run_tests s1 = Inr (TEST_OK, s2)" "xt_pool s2 = Some (test_pool2 a b ?lg)" "cm_live s2 = cm_live w2"
        "xt_file s2 = fi" "xt_logger s2 = lo" "xt_out s2 = xt_out s1 @ ls" "list_all passed ls" using R l False by auto
      have l2: "cm_live w2 = (b, 1024) # cm_live w1" using assms(4) ok by (auto elim!: malloc_cases)
      obtain s3 where "finish s2 = Inr (TEST_OK, s3)" "cm_live s3 = cm_live s" "xt_out s3 = xt_out s2"
        "xt_pool s3 = Some ((test_pool2 a b ?lg)\<lparr>mp_large := [], mp_current := 0, mp_chunks := map reset_chunk (mp_chunks (test_pool2 a b ?lg))\<rparr>)"
        using finish_frees [of s2 "[(b, 1024)]" a 1024 lo sizeof_logger_t fi sizeof_file_t "cm_live s" "test_pool2 a b ?lg"] s2 l l1 l2 d(5,6)
        by (auto simp: test_pool2_def test_pool_def)
      then show ?thesis
        using False ok assms(2) s2 P(3)
        by (auto simp: test_units_def test_mem_pool_def test_pool2_def reset_chunk_def sizeof_defs)
    qed
  qed
qed

definition demo_xtest :: xtest where
  "demo_xtest = world.extend (demo_world (\<lambda>_. 5) (\<lambda>_. []))
     \<lparr>xt_out = [], xt_file = NULL, xt_file_data = \<lparr>fl_fd = 0, fl_offset = 0, fl_name = string_null\<rparr>, xt_logger = NULL,
      xt_logger_data = \<lparr>lg_level = LOG_LEVEL_DEBUG, lg_file = None\<rparr>, xt_pool = None\<rparr>"

theorem mem_pool_unit_test_witness:
  "\<exists>s' ls. xtest_main test_units demo_xtest = Inr (0, s') \<and> cm_live s' = [] \<and> xt_out s' = ls \<and> list_all passed ls"
proof -
  have e: "cm_live demo_xtest = []" "cm_pick demo_xtest = cm_pick demo_cmem" "cm_calls demo_xtest = 0" "os_answer demo_xtest = (\<lambda>_. 5)"
    "xt_out demo_xtest = []"
    by (simp_all add: demo_xtest_def demo_world_def world.defs cmem.defs demo_cmem_def)
  have wf: "live_wf demo_xtest" by (simp add: live_wf_def e)
  obtain s1 where s1: "prepare demo_xtest = Inr (TEST_OK, s1)" "cm_live s1 = [(33554432, 16), (16777216, 32)]" "cm_pick s1 = cm_pick demo_cmem"
    "cm_calls s1 = 2"
    by (simp add: prepare_def Let_def malloc_def e demo_cmem_def fresh_block_def blk_end_def addr_top_def apart_def os_call_def
        frame_simps sizeof_defs)
  obtain w1 where w1: "malloc s1 1024 = (50331648, w1)" "cm_live w1 = [(50331648, 1024), (33554432, 16), (16777216, 32)]"
    "cm_pick w1 = cm_pick demo_cmem" "cm_calls w1 = 3"
    by (simp add: malloc_def Let_def s1 demo_cmem_def fresh_block_def blk_end_def addr_top_def apart_def)
  obtain w2 where w2: "malloc w1 1024 = (67108864, w2)"
    by (simp add: malloc_def Let_def w1 demo_cmem_def fresh_block_def blk_end_def addr_top_def apart_def)
  from mem_pool_unit_test [OF wf s1(1) w1(1) w2] show ?thesis by (auto simp: e)
qed

end
