(* ===== verification/LogOut.thy ===== *)
theory LogOut
  imports XFile "HOL-Library.Sublist"
begin

text \<open>
  The second half of \<open>log_core_writer\<close> of \<open>logger.c\<close>: the composed line goes to standard
  output with one \<open>write\<close>, or to the file of the logger through \<open>file_write\<close>.  The other
  theories record a log call as an entry of the log; here the entries are carried out, one
  after the other, over arbitrary answers of the kernel.
\<close>

section \<open>Operations\<close>

abbreviation (input) STDOUT_FD :: int where "STDOUT_FD \<equiv> 1"

definition write_stdout :: "'a world_scheme \<Rightarrow> byte list \<Rightarrow> int \<times> 'a world_scheme" where
  "write_stdout w buf = os_write w STDOUT_FD buf"

definition log_core_out :: "'a world_scheme \<Rightarrow> file_t option \<Rightarrow> byte list \<Rightarrow> 'a world_scheme option" where
  "log_core_out w f line =
     (case f of
        None \<Rightarrow> Some (snd (write_stdout w line))
      | Some fl \<Rightarrow> map_option (\<lambda>(r, f', w'). w') (file_write w fl line FL_DEFAULT_OFFSET))"

text \<open>
  What one log call finds when it is carried out: the cached timestamp, the text of
  \<open>strerror\<close>, the bytes left on the stack and the expanded format.
\<close>

record log_job =
  lj_entry :: log_entry
  lj_time :: "byte list"
  lj_strerror :: "byte list"
  lj_stale :: "nat \<Rightarrow> byte"
  lj_msg :: "byte list option"

definition job_line :: "log_job \<Rightarrow> ub + byte list" where
  "job_line j = log_core_writer (lj_time j) (lj_strerror j) (lj_stale j) (le_err (lj_entry j))
     (le_level (lj_entry j)) (lj_msg j)"

definition job_fd :: "log_job \<Rightarrow> int" where
  "job_fd j = (case le_file (lj_entry j) of None \<Rightarrow> STDOUT_FD | Some f \<Rightarrow> fl_fd f)"

text \<open>The calls in order; \<open>None\<close> is a write loop that never ends.\<close>

fun log_jobs :: "'a world_scheme \<Rightarrow> log_job list \<Rightarrow> (ub + 'a world_scheme) option" where
  "log_jobs w [] = Some (Inr w)"
| "log_jobs w (j # js) =
     (case job_line j of
        Inl u \<Rightarrow> Some (Inl u)
      | Inr line \<Rightarrow>
          (case log_core_out w (le_file (lj_entry j)) line of
             None \<Rightarrow> None
           | Some w1 \<Rightarrow> log_jobs w1 js))"

section \<open>Facts\<close>

text \<open>
  One line is out: the kernel has accepted a prefix of it on its descriptor and nothing
  elsewhere, and less than all of it only after a failed call, or on standard output, where
  a short write is not repeated.
\<close>

definition line_out :: "int \<Rightarrow> byte list \<Rightarrow> (syscall \<times> int) list \<Rightarrow> byte list \<Rightarrow> bool" where
  "line_out fd line tr c \<longleftrightarrow>
     prefix c line \<and> (\<forall>d. written_to d tr = (if d = fd then c else [])) \<and>
     (c = line \<or> fd = STDOUT_FD \<or> (\<exists>s. (s, -1) \<in> set tr))"

lemma log_core_out_ends:
  assumes "write_progress w"
  shows "\<exists>w1 tr c. log_core_out w f line = Some w1 \<and> write_progress w1 \<and>
     os_trace w1 = os_trace w @ tr \<and>
     line_out (case f of None \<Rightarrow> STDOUT_FD | Some fl \<Rightarrow> fl_fd fl) line tr c"
proof (cases f)
  case None
  obtain n w1 where o: "os_write w STDOUT_FD line = (n, w1)" by fastforce
  then have "os_trace w1 = os_trace w @ [(Sys_write STDOUT_FD line, n)]" "write_progress w1"
    using assms by (auto simp: os_write_def Let_def frame_simps write_progress_def)
  with o None show ?thesis
    by (intro exI [of _ w1] exI [of _ "[(Sys_write STDOUT_FD line, n)]"] exI [of _ "take (nat n) line"])
      (simp add: log_core_out_def write_stdout_def line_out_def take_is_prefix)
next
  case (Some fl)
  obtain res where r: "write_loop w fl line 0 = Some res" "wrote w fl line 0 res"
    using write_loop_total [OF assms, of fl line 0] by blast
  obtain n f' w1 where res: "res = (n, f', w1)" by (cases res)
  from r(2) obtain tr k where h: "os_answer w1 = os_answer w" "os_trace w1 = os_trace w @ tr"
    "\<forall>fd. written_to fd tr = (if fd = fl_fd fl then take k line else [])"
    "(\<exists>s. (s, -1) \<in> set tr) \<or> k = length line"
    unfolding wrote_def res prod.case by auto
  then have "line_out (fl_fd fl) line tr (take k line)"
    by (auto simp: line_out_def take_is_prefix)
  moreover have "log_core_out w f line = Some w1"
    using r(1) Some by (simp add: log_core_out_def file_write_def file_seek_def res)
  ultimately show ?thesis using h assms Some by (auto simp: write_progress_def)
qed

text \<open>The chunks that the kernel has accepted for a descriptor, in the order of the calls.\<close>

definition chunks_on :: "int \<Rightarrow> log_job list \<Rightarrow> byte list list \<Rightarrow> byte list" where
  "chunks_on fd js cs = concat (map snd (filter (\<lambda>(j, c). job_fd j = fd) (zip js cs)))"

text \<open>What may be missing of a line.\<close>

definition job_out :: "(syscall \<times> int) list \<Rightarrow> log_job \<Rightarrow> byte list \<Rightarrow> bool" where
  "job_out tr j c \<longleftrightarrow> (\<exists>line. job_line j = Inr line \<and> prefix c line \<and>
     (c = line \<or> job_fd j = STDOUT_FD \<or> (\<exists>s. (s, -1) \<in> set tr)))"

lemma job_out_mono: "job_out tr j c \<Longrightarrow> set tr \<subseteq> set tr' \<Longrightarrow> job_out tr' j c"
  by (auto simp: job_out_def)

lemma job_out_line_out:
  "job_line j = Inr line \<Longrightarrow> line_out (job_fd j) line tr c \<Longrightarrow> job_out tr j c"
  by (auto simp: job_out_def line_out_def)

section \<open>Properties\<close>

text \<open>
  C21: log calls end and their lines appear in order.  When every line fits the stack buffer
  and the kernel never answers a nonempty write with 0, a sequence of log calls ends, whatever
  else the kernel answers; the bytes on each descriptor are the concatenation, in the order of
  the calls, of a prefix of each line that was sent to it, and nothing else.  A prefix is
  shorter than its line only when some write failed, or on standard output, where the code
  does not repeat a short write.
\<close>

theorem log_lines_in_order:
  assumes "write_progress w" "\<forall>j \<in> set js. \<exists>line. job_line j = Inr line"
  shows "\<exists>w' tr cs. log_jobs w js = Some (Inr w') \<and> os_trace w' = os_trace w @ tr \<and>
     list_all2 (job_out tr) js cs \<and> (\<forall>fd. written_to fd tr = chunks_on fd js cs)"
  using assms
proof (induction js arbitrary: w)
  case Nil
  show ?case by (intro exI [of _ w] exI [of _ "[]"]) (simp add: chunks_on_def)
next
  case (Cons j js)
  then obtain line where l: "job_line j = Inr line" by auto
  obtain w1 tr1 c where o: "log_core_out w (le_file (lj_entry j)) line = Some w1" "write_progress w1"
    "os_trace w1 = os_trace w @ tr1" "line_out (job_fd j) line tr1 c"
    using log_core_out_ends [OF Cons.prems(1)] unfolding job_fd_def by blast
  from Cons.IH [OF o(2)] Cons.prems(2) obtain w' tr cs where r: "log_jobs w1 js = Some (Inr w')"
    "os_trace w' = os_trace w1 @ tr" "list_all2 (job_out tr) js cs"
    "\<forall>fd. written_to fd tr = chunks_on fd js cs" by auto
  have "list_all2 (job_out (tr1 @ tr)) (j # js) (c # cs)"
    using job_out_line_out [OF l o(4)] r(3)
    by (auto elim!: job_out_mono list_all2_mono)
  moreover have "written_to fd (tr1 @ tr) = chunks_on fd (j # js) (c # cs)" for fd
    using o(4) r(4) by (simp add: line_out_def chunks_on_def)
  moreover have "log_jobs w (j # js) = Some (Inr w')" using l o(1) r(1) by simp
  ultimately show ?case using o(3) r(2)
    by (intro exI [of _ w'] exI [of _ "tr1 @ tr"] exI [of _ "c # cs"]) simp
qed

text \<open>Two calls, one to the log file and one to standard output, two bytes at a time.\<close>

definition demo_job :: "file_t option \<Rightarrow> byte list \<Rightarrow> log_job" where
  "demo_job f msg = \<lparr>lj_entry = \<lparr>le_file = f, le_level = LOG_LEVEL_INFO, le_err = 0, le_fmt = ''%s''\<rparr>,
     lj_time = ''2014/01/01 00:00:00 '', lj_strerror = [], lj_stale = (\<lambda>_. NUL), lj_msg = Some msg\<rparr>"

theorem log_lines_in_order_witness:
  "\<exists>w' tr cs. log_jobs (demo_world (\<lambda>_. 2) (\<lambda>_. [])) [demo_job (Some demo_file) ''started'', demo_job None ''ok''] =
       Some (Inr w') \<and> os_trace w' = tr \<and> length cs = 2 \<and>
     (\<forall>fd. written_to fd tr =
        chunks_on fd [demo_job (Some demo_file) ''started'', demo_job None ''ok''] cs)"
proof -
  have p: "write_progress (demo_world (\<lambda>_. 2) (\<lambda>_. []))"
    by (simp add: write_progress_def demo_world_def cmem.defs)
  have f: "\<forall>j \<in> set [demo_job (Some demo_file) ''started'', demo_job None ''ok'']. \<exists>line. job_line j = Inr line"
    by (simp add: job_line_def demo_job_def log_core_writer_def Let_def to_size_t_def)
  have t: "os_trace (demo_world (\<lambda>_. 2) (\<lambda>_. [])) = []" by (simp add: demo_world_def cmem.defs)
  obtain w' tr cs where r: "log_jobs (demo_world (\<lambda>_. 2) (\<lambda>_. []))
       [demo_job (Some demo_file) ''started'', demo_job None ''ok''] = Some (Inr w')"
    "os_trace w' = tr" "list_all2 (job_out tr) [demo_job (Some demo_file) ''started'', demo_job None ''ok''] cs"
    "\<forall>fd. written_to fd tr = chunks_on fd [demo_job (Some demo_file) ''started'', demo_job None ''ok''] cs"
    using log_lines_in_order [OF p f] unfolding t append_Nil by blast
  from list_all2_lengthD [OF r(3)] have "length cs = 2" by simp
  with r show ?thesis by blast
qed

end
