(* ===== verification/Spec2Isabelle.thy ===== *)
theory Spec2Isabelle
  imports WholeProgram ServerFaults LateResponse UnitTests LogOut
begin

text \<open>
  \<^bold>\<open>Xpipe\<close>: a verification development.

  Xpipe is the network frame of a queue server in C.  \<open>main\<close> numbers its two modules, reads
  \<open>conf/xpipe.conf\<close>, prepares and initialises the modules, becomes a daemon and then calls the
  module net in a loop until \<open>SIGTERM\<close> sets a flag.  The module net polls \<open>epoll\<close>, accepts
  connections, reads requests into buffers, parses them incrementally and answers them.  All
  memory comes from region pools.

  \<^bold>\<open>Parts and theories.\<close>  File names are relative to \<open>src/src\<close>; a definition has the name of the
  C function or type it models.

  \<^item> \<open>XPrelude\<close>, \<open>XTypes\<close>, \<open>CRuntime\<close>: the collections and shared lemmas; the types of
    \<open>system.h\<close>, \<open>xstring.h\<close>, \<open>xfile.h\<close> and \<open>logger.h\<close>; byte memory, \<open>malloc\<close>, \<open>free\<close>, the string
    functions and the conversions between the integer types.  Addresses are natural numbers,
    a byte is a character, and undefined behaviour is a value of the type \<open>ub\<close> (a write out of
    bounds, an invalid \<open>free\<close>, a null dereference, a call of a null pointer, a loop that never
    ends).  Which block \<open>malloc\<close> returns, if any, is arbitrary.
  \<^item> \<open>OSWorld\<close>: the kernel.  A world holds arbitrary answers for all calls to come and the trace
    of the calls made, so a theorem holds for every kernel that keeps the documented range of
    results.
  \<^item> \<open>Allocator\<close>, \<open>ObjectPool\<close>, \<open>ByteMachine\<close> and the locales \<open>growing_array\<close> and
    \<open>event_backend\<close>: the interfaces.  \<open>malloc\<close> and \<open>pmalloc\<close> are allocators, the dynamic array is
    a growing array, the free list of connections is an object pool, \<open>net_epoll.c\<close> is an event
    backend, and the protocol parser is a byte machine.
  \<^item> \<open>MemPool\<close> (\<open>mem_pool.c\<close>): pools as lists of chunks and large blocks.  Blocks handed out are
    disjoint and inside live memory (\<open>pmalloc_sequence_disjoint\<close>); the mutual recursion of
    \<open>pmalloc\<close> ends (\<open>pmalloc_rec_eq\<close>); creation, clearing, zeroed allocation, \<open>pfree_large\<close> and
    destruction; two defects: destroying a pool with a large block, and the missing header
    size in \<open>add_mem_chunk\<close>.  The condition \<open>request_fits\<close> of the correctness theorems
    excludes exactly the second one.
  \<^item> \<open>DynArray\<close> (\<open>dynamic_array.c\<close>): elements as values by address; refinement of lists
    (what is written through a returned pointer is read back), safety of a push, bounds of an index.
  \<^item> \<open>XString\<close>, \<open>Times\<close>, \<open>XFile\<close>, \<open>Logger\<close>, \<open>LogOut\<close> (\<open>xstring.c\<close>, \<open>times.c\<close>, \<open>xfile.c\<close>,
    \<open>logger.c\<close>): integers and file names, the 32-bit clock and the timestamp, reading and
    writing files, the composition of a log line and its output.  The other theories record a
    log call as an entry of the log of the memory state; \<open>LogOut\<close> carries out such entries.
  \<^item> \<open>Protocol\<close> (\<open>net/protocol.c\<close>): the parser on byte memory, with the saved state between two
    calls.  It refines a parser without pointers, accepts exactly the requests, gives the same
    result for every division of the input, and reads back what is printed.
  \<^item> \<open>Modules\<close>, \<open>ConfFile\<close> (\<open>conf_file.c\<close>, and the commands of \<open>xpipe.c\<close> and \<open>net/network.c\<close>):
    module table, configuration records, command handlers and the configuration parser.
    \<open>ConfSpec\<close> has the language (a parser without memory and a printer), \<open>Balance\<close> the count of
    failed allocations, \<open>ConfRefine\<close> the simulation and \<open>ConfRead\<close> the reading loop with the
    theorems \<open>conf_parser_refines\<close> and \<open>conf_parser_roundtrip\<close>.
  \<^item> \<open>NetTypes\<close>, \<open>NetEvent\<close>, \<open>TcpServer\<close>, \<open>EventLoop\<close> (\<open>net/net_epoll.c\<close>, \<open>net/net_event.c\<close>,
    \<open>net/tcp_server.c\<close>): connections by address in one network state, the registration of
    events, sockets, the pool of connections, requests and responses, and the event loop.  The
    kernel has a connection registered for all events it records, and for exactly those unless it
    has refused a deletion, which the code ignores; connections are neither lost nor given
    out twice.
  \<^item> \<open>Serving\<close>, \<open>NetRun\<close>, \<open>ServerFaults\<close>, \<open>LateResponse\<close>: the composition.  A \<open>PUT\<close> request in any number of
    pieces is answered and its memory given back; a round of the event loop always ends and
    keeps its invariant; three faults that the invariant cannot exclude.
  \<^item> \<open>Startup\<close>, \<open>Lifecycle\<close>, \<open>WholeProgram\<close> (\<open>xpipe.c\<close>, \<open>mod_manager.c\<close>, \<open>net/network.c\<close>): start-up, the daemon, the
    main loop and signals.  A started server listens and stops after \<open>SIGTERM\<close>; what the daemon
    start leaves; what happens without a module's block or without a log command.
    \<open>main_ends\<close> composes all of it: the configuration parser, the start of the modules, the
    daemon and the event loop, from the first line of \<open>main\<close> to its return.
  \<^item> \<open>UnitTests\<close> (\<open>XTest\<close>): the test runner, its assertions and the test of the memory pool.

  \<^bold>\<open>Loops, bounds and assumptions.\<close>  Loops over lists are structural.  The others
  (\<open>write_loop\<close>, \<open>send_loop\<close>, \<open>accept_loop\<close>, \<open>events_loop\<close>, \<open>read_conf\<close>, \<open>pmalloc_rec\<close>,
  \<open>system_modules_working\<close>) are partial functions in the option type, \<open>None\<close> being a loop that
  never ends; no fuel is used, and for each of them it is proved that it ends.  The theorems
  rely on a kernel that does not answer a nonempty \<open>write\<close> with 0 (\<open>write_progress\<close>), does not
  interrupt \<open>accept\<close> for ever, reports each registered connection at most once per poll, and
  delivers a configuration file that has an end (\<open>input_ends\<close>).  Sizes of structures are those
  of the 64-bit ABI; \<open>uint_t\<close> and \<open>size_t\<close> wrap at \<open>2 ^ 32\<close> and \<open>2 ^ 64\<close>, event masks and the
  millisecond clock are machine words.  Connections, buffers, requests and array elements are
  typed values by address; where their memory can reach beyond its block (the array of connections,
  the event array, the response buffer), writing it is checked and ends the run out of bounds.
  A signal is handled at the end of the round in which it arrives, and the install directory,
  a constant of the build, is not empty.

  \<^bold>\<open>Not modelled.\<close>  The messages under \<open>#ifdef DEBUG\<close>, which only log; the expansion of format
  strings by \<open>vsnprintf\<close> and the text of \<open>strerror\<close>, which are arguments of the log writer; the
  content of addresses of peers beyond what the code copies.  Flags and modes of \<open>open\<close> are part
  of the recorded call, and what the kernel does with them is its own.  The
  headers under \<open>include/leveldb\<close> are third-party and not called; \<open>headers.h\<close> and the
  configuration headers only include others; the build scripts and the sample configuration are
  not C.
\<close>

end
